(* ===== verification/Prelude.thy ===== *)
theory Prelude
  imports Main "HOL-Library.Word"
begin

text \<open>
  The vocabulary shared by every component: the C integer types as words, byte strings,
  the collections of simplification rules the component proofs use, and the generic lemmas
  on lists and words that more than one component needs.
\<close>

unbundle bit_operations_syntax

section \<open>C types\<close>

type_synonym u8 = "8 word"
type_synonym u16 = "16 word"
type_synonym u32 = "32 word"
type_synonym u64 = "64 word"
type_synonym bytes = "u8 list"

section \<open>Collections\<close>

named_theorems wire_simps \<open>big endian encodings and their inverses\<close>

section \<open>Lists\<close>

lemma take_append_exact [simp]: "n = length xs \<Longrightarrow> take n (xs @ ys) = xs"
  by simp

lemma drop_append_exact [simp]: "n = length xs \<Longrightarrow> drop n (xs @ ys) = ys"
  by simp

lemma sum_list_01_less:
  assumes "\<forall>x \<in> set xs. f x = 0 \<or> f x = (1::int)"
  shows "sum_list (map f xs) < int (length xs) \<longleftrightarrow> (\<exists>x \<in> set xs. f x = 0)"
proof -
  have bound: "\<forall>x \<in> set ys. f x = 0 \<or> f x = 1 \<Longrightarrow> sum_list (map f ys) \<le> int (length ys)" for ys
    by (induction ys) auto
  from assms show ?thesis
  proof (induction xs)
    case (Cons a xs)
    then have "sum_list (map f xs) \<le> int (length xs)"
      by (intro bound) simp
    with Cons show ?case by auto
  qed simp
qed

lemma find_Some_unique:
  assumes "i < length xs" "P (xs ! i)" "\<And>j. j < length xs \<Longrightarrow> P (xs ! j) \<Longrightarrow> j = i"
  shows "find P xs = Some (xs ! i)"
proof -
  have "\<not> P (xs ! j)" if "j < i" for j
    using assms(3) [of j] assms(1) that by linarith
  then show ?thesis
    unfolding find_Some_iff using assms(1,2) by blast
qed

lemma length_filter_update:
  "i < length xs \<Longrightarrow> length (filter P (xs[i := y])) + (if P (xs ! i) then 1 else 0)
     = length (filter P xs) + (if P y then 1 else 0)"
proof (induction xs arbitrary: i)
  case (Cons x xs)
  then show ?case by (cases i) auto
qed simp

section \<open>Words\<close>

lemma unat_less_of_mod: "(n::'a::len word) \<noteq> 0 \<Longrightarrow> unat (k mod n) < unat n"
  by (simp add: unat_mod unat_gt_0 [symmetric] word_neq_0_conv)

lemma unat_plus_one_less: "(s::'a::len word) < t \<Longrightarrow> unat (s + 1) = unat s + 1"
  by unat_arith

lemma unat_word_of_nat32: "n < 2 ^ 32 \<Longrightarrow> unat (word_of_nat n :: u32) = n"
  by (simp add: unat_of_nat)

lemma word_of_nat_pos: "0 < n \<Longrightarrow> n < 2 ^ 32 \<Longrightarrow> (0 :: u32) < word_of_nat n"
  by (simp add: word_less_nat_alt unat_of_nat)

lemma word_of_nat_Suc_nonzero: "n < 2 ^ 32 - 1 \<Longrightarrow> (word_of_nat n :: u32) + 1 \<noteq> 0"
proof
  assume n: "n < 2 ^ 32 - 1" and "word_of_nat n + 1 = (0 :: u32)"
  then have "word_of_nat (Suc n) = (0 :: u32)" by (simp add: add.commute)
  then have "2 ^ LENGTH(32) dvd Suc n" by (rule iffD1 [OF word_of_nat_eq_0_iff])
  then show False using n by (auto dest: dvd_imp_le)
qed

lemma and_pred_zero_nat:
  assumes "0 < (n::nat)" "n AND (n - 1) = 0"
  shows "\<exists>j. n = 2 ^ j"
proof -
  obtain j where j: "2 ^ j \<le> n" "n < 2 ^ Suc j"
    using assms(1) ex_power_ivl1 [of 2 n] by auto
  have "n = 2 ^ j"
  proof (rule ccontr)
    assume "n \<noteq> 2 ^ j"
    with j have "2 ^ j \<le> n - 1" "n - 1 < 2 ^ Suc j" by auto
    then have "(n - 1) div 2 ^ j = 1" "n div 2 ^ j = 1"
      using j by (auto simp: div_nat_eqI)
    then have "bit n j" "bit (n - 1) j"
      by (simp_all add: bit_iff_odd)
    then have "bit (n AND (n - 1)) j"
      by (simp only: bit_and_iff)
    with assms(2) show False by simp
  qed
  then show ?thesis ..
qed

end
