(* ===== verification/Hashmap.thy ===== *)
theory Hashmap
  imports Prelude
begin

text \<open>
  The open addressing hash map of \<^verbatim>\<open>nanomq/hashmap.c\<close>: string slices as keys, 32 bit values,
  linear probing over at most \<^verbatim>\<open>HASHMAP_MAX_CHAIN_LENGTH\<close> slots, and doubling when no slot is free.
  The state is the C struct; a key is the byte string its pointer refers to, together with the
  length the caller passes, and only that many bytes of it are ever read.
  The first part holds the operations, the second the representation invariant and the
  abstraction to a finite map, the third the correctness of every operation against it.
\<close>

section \<open>The data\<close>

record hashmap_element =
  elem_key :: bytes
  elem_key_len :: u32
  elem_in_use :: int
  elem_data :: u32

record hashmap =
  table_size :: u32
  hm_size :: u32
  hm_data :: "hashmap_element list"

definition HASHMAP_MAX_CHAIN_LENGTH :: nat where
  "HASHMAP_MAX_CHAIN_LENGTH = 8"

text \<open>The all zero element that \<^verbatim>\<open>calloc\<close> and \<^verbatim>\<open>memset\<close> produce.\<close>

definition zero_element :: hashmap_element where
  "zero_element = \<lparr>elem_key = [], elem_key_len = 0, elem_in_use = 0, elem_data = 0\<rparr>"

section \<open>Hashing\<close>

definition crc32_tab :: "u32 list" where
  "crc32_tab = [
    0x00000000, 0xF26B8303, 0xE13B70F7, 0x1350F3F4, 0xC79A971F, 0x35F1141C,
    0x26A1E7E8, 0xD4CA64EB, 0x8AD958CF, 0x78B2DBCC, 0x6BE22838, 0x9989AB3B,
    0x4D43CFD0, 0xBF284CD3, 0xAC78BF27, 0x5E133C24, 0x105EC76F, 0xE235446C,
    0xF165B798, 0x030E349B, 0xD7C45070, 0x25AFD373, 0x36FF2087, 0xC494A384,
    0x9A879FA0, 0x68EC1CA3, 0x7BBCEF57, 0x89D76C54, 0x5D1D08BF, 0xAF768BBC,
    0xBC267848, 0x4E4DFB4B, 0x20BD8EDE, 0xD2D60DDD, 0xC186FE29, 0x33ED7D2A,
    0xE72719C1, 0x154C9AC2, 0x061C6936, 0xF477EA35, 0xAA64D611, 0x580F5512,
    0x4B5FA6E6, 0xB93425E5, 0x6DFE410E, 0x9F95C20D, 0x8CC531F9, 0x7EAEB2FA,
    0x30E349B1, 0xC288CAB2, 0xD1D83946, 0x23B3BA45, 0xF779DEAE, 0x05125DAD,
    0x1642AE59, 0xE4292D5A, 0xBA3A117E, 0x4851927D, 0x5B016189, 0xA96AE28A,
    0x7DA08661, 0x8FCB0562, 0x9C9BF696, 0x6EF07595, 0x417B1DBC, 0xB3109EBF,
    0xA0406D4B, 0x522BEE48, 0x86E18AA3, 0x748A09A0, 0x67DAFA54, 0x95B17957,
    0xCBA24573, 0x39C9C670, 0x2A993584, 0xD8F2B687, 0x0C38D26C, 0xFE53516F,
    0xED03A29B, 0x1F682198, 0x5125DAD3, 0xA34E59D0, 0xB01EAA24, 0x42752927,
    0x96BF4DCC, 0x64D4CECF, 0x77843D3B, 0x85EFBE38, 0xDBFC821C, 0x2997011F,
    0x3AC7F2EB, 0xC8AC71E8, 0x1C661503, 0xEE0D9600, 0xFD5D65F4, 0x0F36E6F7,
    0x61C69362, 0x93AD1061, 0x80FDE395, 0x72966096, 0xA65C047D, 0x5437877E,
    0x4767748A, 0xB50CF789, 0xEB1FCBAD, 0x197448AE, 0x0A24BB5A, 0xF84F3859,
    0x2C855CB2, 0xDEEEDFB1, 0xCDBE2C45, 0x3FD5AF46, 0x7198540D, 0x83F3D70E,
    0x90A324FA, 0x62C8A7F9, 0xB602C312, 0x44694011, 0x5739B3E5, 0xA55230E6,
    0xFB410CC2, 0x092A8FC1, 0x1A7A7C35, 0xE811FF36, 0x3CDB9BDD, 0xCEB018DE,
    0xDDE0EB2A, 0x2F8B6829, 0x82F63B78, 0x709DB87B, 0x63CD4B8F, 0x91A6C88C,
    0x456CAC67, 0xB7072F64, 0xA457DC90, 0x563C5F93, 0x082F63B7, 0xFA44E0B4,
    0xE9141340, 0x1B7F9043, 0xCFB5F4A8, 0x3DDE77AB, 0x2E8E845F, 0xDCE5075C,
    0x92A8FC17, 0x60C37F14, 0x73938CE0, 0x81F80FE3, 0x55326B08, 0xA759E80B,
    0xB4091BFF, 0x466298FC, 0x1871A4D8, 0xEA1A27DB, 0xF94AD42F, 0x0B21572C,
    0xDFEB33C7, 0x2D80B0C4, 0x3ED04330, 0xCCBBC033, 0xA24BB5A6, 0x502036A5,
    0x4370C551, 0xB11B4652, 0x65D122B9, 0x97BAA1BA, 0x84EA524E, 0x7681D14D,
    0x2892ED69, 0xDAF96E6A, 0xC9A99D9E, 0x3BC21E9D, 0xEF087A76, 0x1D63F975,
    0x0E330A81, 0xFC588982, 0xB21572C9, 0x407EF1CA, 0x532E023E, 0xA145813D,
    0x758FE5D6, 0x87E466D5, 0x94B49521, 0x66DF1622, 0x38CC2A06, 0xCAA7A905,
    0xD9F75AF1, 0x2B9CD9F2, 0xFF56BD19, 0x0D3D3E1A, 0x1E6DCDEE, 0xEC064EED,
    0xC38D26C4, 0x31E6A5C7, 0x22B65633, 0xD0DDD530, 0x0417B1DB, 0xF67C32D8,
    0xE52CC12C, 0x1747422F, 0x49547E0B, 0xBB3FFD08, 0xA86F0EFC, 0x5A048DFF,
    0x8ECEE914, 0x7CA56A17, 0x6FF599E3, 0x9D9E1AE0, 0xD3D3E1AB, 0x21B862A8,
    0x32E8915C, 0xC083125F, 0x144976B4, 0xE622F5B7, 0xF5720643, 0x07198540,
    0x590AB964, 0xAB613A67, 0xB831C993, 0x4A5A4A90, 0x9E902E7B, 0x6CFBAD78,
    0x7FAB5E8C, 0x8DC0DD8F, 0xE330A81A, 0x115B2B19, 0x020BD8ED, 0xF0605BEE,
    0x24AA3F05, 0xD6C1BC06, 0xC5914FF2, 0x37FACCF1, 0x69E9F0D5, 0x9B8273D6,
    0x88D28022, 0x7AB90321, 0xAE7367CA, 0x5C18E4C9, 0x4F48173D, 0xBD23943E,
    0xF36E6F75, 0x0105EC76, 0x12551F82, 0xE03E9C81, 0x34F4F86A, 0xC69F7B69,
    0xD5CF889D, 0x27A40B9E, 0x79B737BA, 0x8BDCB4B9, 0x988C474D, 0x6AE7C44E,
    0xBE2DA0A5, 0x4C4623A6, 0x5F16D052, 0xAD7D5351]"

text \<open>
  The loop of \<^verbatim>\<open>hashmap_crc32_helper\<close>: one table lookup per byte, on the low byte of the
  running value.
\<close>

definition crc32_step :: "u32 \<Rightarrow> u8 \<Rightarrow> u32" where
  "crc32_step crc32val b = crc32_tab ! unat (ucast crc32val XOR b) XOR drop_bit 8 crc32val"

definition hashmap_crc32_helper :: "bytes \<Rightarrow> u32 \<Rightarrow> u32" where
  "hashmap_crc32_helper s len = foldl crc32_step 0 (take (unat len) s)"

text \<open>Jenkins' 32 bit mix and Knuth's multiplication, on wrapping 32 bit values.\<close>

definition jenkins_mix :: "u32 \<Rightarrow> u32" where
  "jenkins_mix k0 =
     (let k1 = k0 + push_bit 12 k0;
          k2 = k1 XOR drop_bit 22 k1;
          k3 = k2 + push_bit 4 k2;
          k4 = k3 XOR drop_bit 9 k3;
          k5 = k4 + push_bit 10 k4;
          k6 = k5 XOR drop_bit 2 k5;
          k7 = k6 + push_bit 7 k6;
          k8 = k7 XOR drop_bit 12 k7
      in drop_bit 3 k8 * 2654435761)"

definition hashmap_hash_helper_int_helper :: "hashmap \<Rightarrow> bytes \<Rightarrow> u32 \<Rightarrow> u32" where
  "hashmap_hash_helper_int_helper m keystring len =
     jenkins_mix (hashmap_crc32_helper keystring len) mod table_size m"

section \<open>Operations\<close>

text \<open>
  \<^verbatim>\<open>calloc\<close> may fail: \<open>ok n\<close> says whether the allocation of \<open>n\<close> elements succeeds.
  One call of \<^verbatim>\<open>hashmap_put\<close> requests each size at most once, so a function of the size covers
  every pattern of failures within the call.
\<close>

definition hashmap_create :: "(u32 \<Rightarrow> bool) \<Rightarrow> u32 \<Rightarrow> hashmap \<Rightarrow> int \<times> hashmap" where
  "hashmap_create ok initial_size out_hashmap =
     (let m = out_hashmap\<lparr>table_size := initial_size, hm_size := 0\<rparr> in
      if initial_size = 0 \<or> initial_size AND (initial_size - 1) \<noteq> 0 then (1, m)
      else if \<not> ok initial_size then (1, m\<lparr>hm_data := []\<rparr>)
      else (0, m\<lparr>hm_data := replicate (unat initial_size) zero_element\<rparr>))"

definition hashmap_destroy :: "hashmap \<Rightarrow> hashmap" where
  "hashmap_destroy m = \<lparr>table_size = 0, hm_size = 0, hm_data = []\<rparr>"

definition hashmap_num_entries :: "hashmap \<Rightarrow> u32" where
  "hashmap_num_entries m = hm_size m"

text \<open>\<^verbatim>\<open>memcmp\<close> on the first \<open>len\<close> bytes, after the lengths agree.\<close>

definition hashmap_match_helper :: "hashmap_element \<Rightarrow> bytes \<Rightarrow> u32 \<Rightarrow> bool" where
  "hashmap_match_helper element k len \<longleftrightarrow>
     elem_key_len element = len \<and> take (unat len) (elem_key element) = take (unat len) k"

text \<open>The probe loops: \<open>i\<close> counts the slots that are left, \<open>cur\<close> is the slot to look at.\<close>

fun hashmap_get_loop :: "nat \<Rightarrow> hashmap \<Rightarrow> u32 \<Rightarrow> bytes \<Rightarrow> u32 \<Rightarrow> u32" where
  "hashmap_get_loop 0 m cur k len = 0"
| "hashmap_get_loop (Suc i) m cur k len =
     (let e = hm_data m ! unat cur in
      if elem_in_use e \<noteq> 0 \<and> hashmap_match_helper e k len then elem_data e
      else hashmap_get_loop i m ((cur + 1) mod table_size m) k len)"

definition hashmap_get :: "hashmap \<Rightarrow> bytes \<Rightarrow> u32 \<Rightarrow> u32" where
  "hashmap_get m k len =
     hashmap_get_loop HASHMAP_MAX_CHAIN_LENGTH m (hashmap_hash_helper_int_helper m k len) k len"

fun hashmap_remove_loop :: "nat \<Rightarrow> hashmap \<Rightarrow> u32 \<Rightarrow> bytes \<Rightarrow> u32 \<Rightarrow> int \<times> hashmap" where
  "hashmap_remove_loop 0 m cur k len = (1, m)"
| "hashmap_remove_loop (Suc i) m cur k len =
     (let e = hm_data m ! unat cur in
      if elem_in_use e \<noteq> 0 \<and> hashmap_match_helper e k len
      then (0, m\<lparr>hm_data := (hm_data m)[unat cur := zero_element], hm_size := hm_size m - 1\<rparr>)
      else hashmap_remove_loop i m ((cur + 1) mod table_size m) k len)"

definition hashmap_remove :: "hashmap \<Rightarrow> bytes \<Rightarrow> u32 \<Rightarrow> int \<times> hashmap" where
  "hashmap_remove m k len =
     hashmap_remove_loop HASHMAP_MAX_CHAIN_LENGTH m (hashmap_hash_helper_int_helper m k len) k len"

text \<open>
  The two probes of \<^verbatim>\<open>hashmap_hash_helper\<close>. The first returns the slot of an entry with the
  key, or the number of slots in use; the second returns the first slot not in use.
\<close>

fun first_probe :: "nat \<Rightarrow> hashmap \<Rightarrow> u32 \<Rightarrow> bytes \<Rightarrow> u32 \<Rightarrow> int \<Rightarrow> u32 + int" where
  "first_probe 0 m cur k len total_in_use = Inr total_in_use"
| "first_probe (Suc i) m cur k len total_in_use =
     (let e = hm_data m ! unat cur; total_in_use' = total_in_use + elem_in_use e in
      if elem_in_use e \<noteq> 0 \<and> hashmap_match_helper e k len then Inl cur
      else first_probe i m ((cur + 1) mod table_size m) k len total_in_use')"

fun second_probe :: "nat \<Rightarrow> hashmap \<Rightarrow> u32 \<Rightarrow> u32 option" where
  "second_probe 0 m cur = None"
| "second_probe (Suc i) m cur =
     (if elem_in_use (hm_data m ! unat cur) = 0 then Some cur
      else second_probe i m ((cur + 1) mod table_size m))"

definition hashmap_hash_helper :: "hashmap \<Rightarrow> bytes \<Rightarrow> u32 \<Rightarrow> u32 option" where
  "hashmap_hash_helper m k len =
     (if hm_size m \<ge> table_size m then None
      else let start = hashmap_hash_helper_int_helper m k len in
        case first_probe HASHMAP_MAX_CHAIN_LENGTH m start k len 0 of
          Inl index \<Rightarrow> Some index
        | Inr total_in_use \<Rightarrow>
            if int HASHMAP_MAX_CHAIN_LENGTH > total_in_use
            then second_probe HASHMAP_MAX_CHAIN_LENGTH m start else None)"

text \<open>
  \<^verbatim>\<open>hashmap_iterate_pairs\<close>: the callback answers -1 to remove the entry, 0 to go on and
  anything else to stop. \<open>None\<close> is a callback that did not return.
\<close>

fun iterate_loop ::
  "('c \<Rightarrow> hashmap_element \<Rightarrow> (int \<times> 'c) option) \<Rightarrow> nat list \<Rightarrow> hashmap \<Rightarrow> 'c \<Rightarrow>
   (int \<times> hashmap \<times> 'c) option" where
  "iterate_loop f [] m context = Some (0, m, context)"
| "iterate_loop f (i # is) m context =
     (let p = hm_data m ! i in
      if elem_in_use p \<noteq> 0 then
        (case f context p of
           None \<Rightarrow> None
         | Some (r, context') \<Rightarrow>
             if r = -1 then
               iterate_loop f is
                 (m\<lparr>hm_data := (hm_data m)[i := zero_element], hm_size := hm_size m - 1\<rparr>) context'
             else if r = 0 then iterate_loop f is m context'
             else Some (1, m, context'))
      else iterate_loop f is m context)"

definition hashmap_iterate_pairs ::
  "hashmap \<Rightarrow> ('c \<Rightarrow> hashmap_element \<Rightarrow> (int \<times> 'c) option) \<Rightarrow> 'c \<Rightarrow>
   (int \<times> hashmap \<times> 'c) option" where
  "hashmap_iterate_pairs m f context = iterate_loop f [0..<unat (table_size m)] m context"

text \<open>
  \<^verbatim>\<open>hashmap_put\<close> and \<^verbatim>\<open>hashmap_rehash_helper\<close> call each other: rehashing puts every entry into
  the table of twice the size, which may in turn rehash. \<open>put\<close> is the recursive call.
\<close>

definition hashmap_rehash_iterator ::
  "(hashmap \<Rightarrow> bytes \<Rightarrow> u32 \<Rightarrow> u32 \<Rightarrow> (int \<times> hashmap) option) \<Rightarrow>
   hashmap \<Rightarrow> hashmap_element \<Rightarrow> (int \<times> hashmap) option" where
  "hashmap_rehash_iterator put new_hash e =
     (case put new_hash (elem_key e) (elem_key_len e) (elem_data e) of
        None \<Rightarrow> None
      | Some (temp, new_hash') \<Rightarrow> Some (if 0 < temp then 1 else -1, new_hash'))"

definition hashmap_rehash_helper ::
  "(u32 \<Rightarrow> bool) \<Rightarrow> (hashmap \<Rightarrow> bytes \<Rightarrow> u32 \<Rightarrow> u32 \<Rightarrow> (int \<times> hashmap) option) \<Rightarrow>
   hashmap \<Rightarrow> (int \<times> hashmap) option" where
  "hashmap_rehash_helper ok put m =
     (case hashmap_create ok (2 * table_size m) (hashmap_destroy m) of (flag, new_hash) \<Rightarrow>
        if flag \<noteq> 0 then Some (flag, m)
        else case hashmap_iterate_pairs m (hashmap_rehash_iterator put) new_hash of
               None \<Rightarrow> None
             | Some (flag, m', new_hash') \<Rightarrow>
                 if flag \<noteq> 0 then Some (flag, m') else Some (0, new_hash'))"

definition put_entry :: "hashmap \<Rightarrow> u32 \<Rightarrow> bytes \<Rightarrow> u32 \<Rightarrow> u32 \<Rightarrow> hashmap" where
  "put_entry m index k len v =
     (let e = (hm_data m ! unat index)\<lparr>elem_data := v, elem_key := k, elem_key_len := len\<rparr> in
      if elem_in_use e = 0
      then m\<lparr>hm_data := (hm_data m)[unat index := e\<lparr>elem_in_use := 1\<rparr>], hm_size := hm_size m + 1\<rparr>
      else m\<lparr>hm_data := (hm_data m)[unat index := e]\<rparr>)"

text \<open>
  The loop of \<^verbatim>\<open>hashmap_put\<close>, one unit of fuel per turn. Every turn but the last doubles the
  table, so 32 doublings bring the 32 bit size to 0, where allocation fails: 33 units are enough
  (lemma \<open>hashmap_put_fuel_enough\<close> below).
\<close>

primrec hashmap_put_fuel ::
  "nat \<Rightarrow> (u32 \<Rightarrow> bool) \<Rightarrow> hashmap \<Rightarrow> bytes \<Rightarrow> u32 \<Rightarrow> u32 \<Rightarrow> (int \<times> hashmap) option" where
  "hashmap_put_fuel 0 ok m k len v = None"
| "hashmap_put_fuel (Suc n) ok m k len v =
     (case hashmap_hash_helper m k len of
        Some index \<Rightarrow> Some (0, put_entry m index k len v)
      | None \<Rightarrow>
          (case hashmap_rehash_helper ok (hashmap_put_fuel n ok) m of
             None \<Rightarrow> None
           | Some (flag, m') \<Rightarrow>
               if flag \<noteq> 0 then Some (1, m') else hashmap_put_fuel n ok m' k len v))"

definition hashmap_put ::
  "(u32 \<Rightarrow> bool) \<Rightarrow> hashmap \<Rightarrow> bytes \<Rightarrow> u32 \<Rightarrow> u32 \<Rightarrow> int \<times> hashmap" where
  "hashmap_put ok m k len v =
     (case hashmap_put_fuel 33 ok m k len v of Some r \<Rightarrow> r | None \<Rightarrow> (1, m))"

section \<open>Probing as a search in the chain of a key\<close>

text \<open>The slots that a probe of \<open>n\<close> steps looks at, in order.\<close>

fun chain_from :: "nat \<Rightarrow> hashmap \<Rightarrow> u32 \<Rightarrow> u32 list" where
  "chain_from 0 m cur = []"
| "chain_from (Suc n) m cur = cur # chain_from n m ((cur + 1) mod table_size m)"

definition chain :: "hashmap \<Rightarrow> bytes \<Rightarrow> u32 \<Rightarrow> u32 list" where
  "chain m k len =
     chain_from HASHMAP_MAX_CHAIN_LENGTH m (hashmap_hash_helper_int_helper m k len)"

abbreviation live :: "hashmap_element \<Rightarrow> bool" where
  "live e \<equiv> elem_in_use e \<noteq> 0"

definition hit :: "hashmap \<Rightarrow> bytes \<Rightarrow> u32 \<Rightarrow> u32 \<Rightarrow> bool" where
  "hit m k len c \<longleftrightarrow>
     live (hm_data m ! unat c) \<and> hashmap_match_helper (hm_data m ! unat c) k len"

lemma get_loop_find:
  "hashmap_get_loop n m cur k len =
     (case find (hit m k len) (chain_from n m cur) of
        Some c \<Rightarrow> elem_data (hm_data m ! unat c) | None \<Rightarrow> 0)"
  by (induction n arbitrary: cur) (auto simp: hit_def Let_def)

lemma remove_loop_find:
  "hashmap_remove_loop n m cur k len =
     (case find (hit m k len) (chain_from n m cur) of
        Some c \<Rightarrow> (0, m\<lparr>hm_data := (hm_data m)[unat c := zero_element], hm_size := hm_size m - 1\<rparr>)
      | None \<Rightarrow> (1, m))"
  by (induction n arbitrary: cur) (auto simp: hit_def Let_def)

lemma first_probe_find:
  "first_probe n m cur k len t =
     (case find (hit m k len) (chain_from n m cur) of
        Some c \<Rightarrow> Inl c
      | None \<Rightarrow> Inr (t + (\<Sum>c \<leftarrow> chain_from n m cur. elem_in_use (hm_data m ! unat c))))"
  by (induction n arbitrary: cur t) (auto simp: hit_def Let_def split: option.splits)

lemma second_probe_find:
  "second_probe n m cur = find (\<lambda>c. \<not> live (hm_data m ! unat c)) (chain_from n m cur)"
  by (induction n arbitrary: cur) auto

lemma length_chain_from [simp]: "length (chain_from n m cur) = n"
  by (induction n arbitrary: cur) auto

lemma chain_from_bound:
  assumes "table_size m \<noteq> 0" "unat cur < unat (table_size m)" "c \<in> set (chain_from n m cur)"
  shows "unat c < unat (table_size m)"
  using assms(2,3)
proof (induction n arbitrary: cur)
  case (Suc n)
  have "unat ((cur + 1) mod table_size m) < unat (table_size m)"
    using assms(1) by (rule unat_less_of_mod)
  with Suc show ?case by auto
qed simp

lemma chain_bound:
  assumes "table_size m \<noteq> 0" "c \<in> set (chain m k len)"
  shows "unat c < unat (table_size m)"
  using assms(2) unfolding chain_def
  by (rule chain_from_bound [OF assms(1), rotated])
    (simp add: hashmap_hash_helper_int_helper_def unat_less_of_mod assms(1))

lemma chain_from_cong:
  "table_size m' = table_size m \<Longrightarrow> chain_from n m' cur = chain_from n m cur"
  by (induction n arbitrary: cur) auto

lemma chain_cong: "table_size m' = table_size m \<Longrightarrow> chain m' k len = chain m k len"
  using chain_from_cong [of m' m]
  by (simp add: chain_def hashmap_hash_helper_int_helper_def)

text \<open>A hash depends on the bytes of the slice only.\<close>

lemma chain_slice: "chain m (take (unat len) k) len = chain m k len"
  by (simp add: chain_def hashmap_hash_helper_int_helper_def hashmap_crc32_helper_def)

lemma hash_helper_find:
  assumes "\<forall>c \<in> set (chain m k len). elem_in_use (hm_data m ! unat c) \<in> {0, 1}"
  shows "hashmap_hash_helper m k len =
     (if hm_size m \<ge> table_size m then None
      else case find (hit m k len) (chain m k len) of
             Some c \<Rightarrow> Some c
           | None \<Rightarrow> find (\<lambda>c. \<not> live (hm_data m ! unat c)) (chain m k len))"
proof -
  let ?free = "\<lambda>c. \<not> live (hm_data m ! unat c)"
  have "(\<Sum>c \<leftarrow> chain m k len. elem_in_use (hm_data m ! unat c)) < int HASHMAP_MAX_CHAIN_LENGTH
      \<longleftrightarrow> find ?free (chain m k len) \<noteq> None"
    using sum_list_01_less [of "chain m k len" "\<lambda>c. elem_in_use (hm_data m ! unat c)"] assms
    by (auto simp: chain_def find_None_iff)
  then show ?thesis
    unfolding hashmap_hash_helper_def Let_def first_probe_find second_probe_find
      chain_def [symmetric]
    by (cases "find (hit m k len) (chain m k len)") auto
qed

section \<open>Invariant and abstraction\<close>

definition elem_slice :: "hashmap_element \<Rightarrow> bytes" where
  "elem_slice e = take (unat (elem_key_len e)) (elem_key e)"

text \<open>A slice is valid if its pointer refers to at least the bytes its length claims.\<close>

definition valid_slice :: "bytes \<Rightarrow> u32 \<Rightarrow> bool" where
  "valid_slice k len \<longleftrightarrow> unat len \<le> length k"

definition is_pow2 :: "u32 \<Rightarrow> bool" where
  "is_pow2 n \<longleftrightarrow> n \<noteq> 0 \<and> n AND (n - 1) = 0"

definition hm_map :: "hashmap \<Rightarrow> bytes \<rightharpoonup> u32" where
  "hm_map m k = map_option elem_data (find (\<lambda>e. live e \<and> elem_slice e = k) (hm_data m))"

text \<open>What every slot satisfies: an entry in use lies in the chain of its own key.\<close>

definition slot_ok :: "hashmap \<Rightarrow> nat \<Rightarrow> hashmap_element \<Rightarrow> bool" where
  "slot_ok m i e \<longleftrightarrow>
     elem_in_use e \<in> {0, 1} \<and>
     (live e \<longrightarrow> valid_slice (elem_key e) (elem_key_len e) \<and>
        i \<in> unat ` set (chain m (elem_key e) (elem_key_len e)))"

definition hm_inv :: "hashmap \<Rightarrow> bool" where
  "hm_inv m \<longleftrightarrow>
     is_pow2 (table_size m) \<and> length (hm_data m) = unat (table_size m) \<and>
     unat (hm_size m) = length (filter live (hm_data m)) \<and>
     (\<forall>i < length (hm_data m). slot_ok m i (hm_data m ! i)) \<and>
     inj_on (\<lambda>i. elem_slice (hm_data m ! i)) {i. i < length (hm_data m) \<and> live (hm_data m ! i)}"

lemma hm_invD:
  assumes "hm_inv m"
  shows "table_size m \<noteq> 0" "length (hm_data m) = unat (table_size m)"
    "unat (hm_size m) = length (filter live (hm_data m))"
    "i < length (hm_data m) \<Longrightarrow> slot_ok m i (hm_data m ! i)"
    "inj_on (\<lambda>i. elem_slice (hm_data m ! i)) {i. i < length (hm_data m) \<and> live (hm_data m ! i)}"
    "is_pow2 (table_size m)"
  using assms by (auto simp only: hm_inv_def is_pow2_def)

lemma hm_inv_unique:
  assumes "hm_inv m" "i < length (hm_data m)" "live (hm_data m ! i)"
    and "j < length (hm_data m)" "live (hm_data m ! j)"
    and "elem_slice (hm_data m ! i) = elem_slice (hm_data m ! j)"
  shows "i = j"
  using inj_onD [OF hm_invD(5) [OF assms(1)]] assms(2-) by auto

lemma match_helper_slice:
  assumes "valid_slice (elem_key e) (elem_key_len e)" "valid_slice k len"
  shows "hashmap_match_helper e k len \<longleftrightarrow> elem_slice e = take (unat len) k"
proof
  assume "elem_slice e = take (unat len) k"
  moreover from this assms have "unat (elem_key_len e) = unat len"
    by (metis elem_slice_def length_take min.absorb2 valid_slice_def)
  ultimately show "hashmap_match_helper e k len"
    by (simp add: hashmap_match_helper_def elem_slice_def word_unat_eq_iff)
qed (auto simp: hashmap_match_helper_def elem_slice_def)

lemma hm_map_None: "hm_map m k = None \<longleftrightarrow>
    (\<forall>i < length (hm_data m). live (hm_data m ! i) \<longrightarrow> elem_slice (hm_data m ! i) \<noteq> k)"
  by (auto simp: hm_map_def find_None_iff in_set_conv_nth)

lemma hm_map_at:
  assumes "hm_inv m" "i < length (hm_data m)" "live (hm_data m ! i)"
  shows "hm_map m (elem_slice (hm_data m ! i)) = Some (elem_data (hm_data m ! i))"
proof -
  have "find (\<lambda>e. live e \<and> elem_slice e = elem_slice (hm_data m ! i)) (hm_data m)
      = Some (hm_data m ! i)"
    using assms by (intro find_Some_unique) (auto intro: hm_inv_unique [OF assms(1)])
  then show ?thesis by (simp add: hm_map_def)
qed

lemma hm_map_SomeD:
  assumes "hm_map m k = Some v"
  obtains i where "i < length (hm_data m)" "live (hm_data m ! i)"
    "elem_slice (hm_data m ! i) = k" "elem_data (hm_data m ! i) = v"
proof -
  from assms obtain e where "find (\<lambda>e. live e \<and> elem_slice e = k) (hm_data m) = Some e"
    and "elem_data e = v"
    by (auto simp: hm_map_def)
  then show ?thesis
    by (auto simp: find_Some_iff intro: that)
qed

text \<open>The search for a key in its chain finds the entry exactly when the map has the key.\<close>

lemma find_hit_Some:
  assumes "hm_inv m" "valid_slice k len" "find (hit m k len) (chain m k len) = Some c"
  shows "unat c < length (hm_data m)" "live (hm_data m ! unat c)"
    "elem_slice (hm_data m ! unat c) = take (unat len) k" "c \<in> set (chain m k len)"
proof -
  from assms(3) have c: "hit m k len c" "c \<in> set (chain m k len)"
    by (auto simp: find_Some_iff)
  note ts = hm_invD(1,2) [OF assms(1)]
  show b: "unat c < length (hm_data m)"
    using chain_bound [OF ts(1) c(2)] ts(2) by simp
  show l: "live (hm_data m ! unat c)"
    using c(1) by (simp add: hit_def)
  then have "valid_slice (elem_key (hm_data m ! unat c)) (elem_key_len (hm_data m ! unat c))"
    using hm_invD(4) [OF assms(1) b] by (simp add: slot_ok_def)
  then show "elem_slice (hm_data m ! unat c) = take (unat len) k"
    using c(1) assms(2) by (simp add: hit_def match_helper_slice)
  show "c \<in> set (chain m k len)" by (fact c(2))
qed

lemma find_hit_None:
  assumes "hm_inv m" "valid_slice k len" "find (hit m k len) (chain m k len) = None"
  shows "hm_map m (take (unat len) k) = None"
proof (rule ccontr)
  assume "hm_map m (take (unat len) k) \<noteq> None"
  then obtain i where i: "i < length (hm_data m)" "live (hm_data m ! i)"
    "elem_slice (hm_data m ! i) = take (unat len) k"
    by (auto simp: hm_map_None)
  let ?e = "hm_data m ! i"
  from hm_invD(4) [OF assms(1) i(1)] i(2) have v: "valid_slice (elem_key ?e) (elem_key_len ?e)"
    and ch: "i \<in> unat ` set (chain m (elem_key ?e) (elem_key_len ?e))"
    by (simp_all add: slot_ok_def)
  from v i(3) assms(2) have len: "elem_key_len ?e = len" and "hashmap_match_helper ?e k len"
    using match_helper_slice [OF v assms(2)] by (auto simp: hashmap_match_helper_def)
  moreover have "chain m (elem_key ?e) (elem_key_len ?e) = chain m k len"
    using i(3) len chain_slice [of m len "elem_key ?e"] chain_slice [of m len k]
    by (simp add: elem_slice_def)
  ultimately have "\<exists>c \<in> set (chain m k len). hit m k len c"
    using ch i(2) by (auto simp: hit_def)
  with assms(3) show False by (auto simp: find_None_iff)
qed

lemma hashmap_get_map:
  assumes "hm_inv m" "valid_slice k len"
  shows "hashmap_get m k len = (case hm_map m (take (unat len) k) of Some v \<Rightarrow> v | None \<Rightarrow> 0)"
proof (cases "find (hit m k len) (chain m k len)")
  case None
  with find_hit_None [OF assms None] show ?thesis
    by (simp add: hashmap_get_def get_loop_find chain_def)
next
  case (Some c)
  note c = find_hit_Some [OF assms Some]
  with hm_map_at [OF assms(1) c(1,2)] Some show ?thesis
    by (simp add: hashmap_get_def get_loop_find chain_def)
qed

section \<open>Updating one slot\<close>

lemma slot_ok_cong: "table_size m' = table_size m \<Longrightarrow> slot_ok m' i e = slot_ok m i e"
  by (simp add: slot_ok_def chain_cong [of m' m])

text \<open>
  Storing an entry whose key is new, or at the slot that holds its key, keeps the invariant
  and updates the map at that key.
\<close>

lemma hm_inv_store:
  assumes inv: "hm_inv m" and i: "i < length (hm_data m)"
    and e: "elem_in_use e = 1" "slot_ok m i e"
    and uniq: "\<And>j. j < length (hm_data m) \<Longrightarrow> live (hm_data m ! j) \<Longrightarrow>
       elem_slice (hm_data m ! j) = elem_slice e \<Longrightarrow> j = i"
    and n: "unat n = unat (hm_size m) + (if live (hm_data m ! i) then 0 else 1)"
  shows "hm_inv (m\<lparr>hm_data := (hm_data m)[i := e], hm_size := n\<rparr>)"
proof -
  let ?m = "m\<lparr>hm_data := (hm_data m)[i := e], hm_size := n\<rparr>"
  have "length (filter live ((hm_data m)[i := e])) = unat n"
    using length_filter_update [OF i, of live e] e(1) n hm_invD(3) [OF inv]
    by (simp split: if_splits)
  moreover have "inj_on (\<lambda>j. elem_slice ((hm_data m)[i := e] ! j))
      {j. j < length (hm_data m) \<and> live ((hm_data m)[i := e] ! j)}"
  proof (rule inj_onI, clarsimp)
    fix a b
    assume ab: "a < length (hm_data m)" "b < length (hm_data m)"
      "live ((hm_data m)[i := e] ! a)" "live ((hm_data m)[i := e] ! b)"
      "elem_slice ((hm_data m)[i := e] ! a) = elem_slice ((hm_data m)[i := e] ! b)"
    show "a = b"
    proof (cases "a = i \<or> b = i")
      case True
      with ab i show ?thesis
        by (cases "a = i"; cases "b = i") (auto dest: uniq)
    next
      case False
      with ab show ?thesis by (auto intro: hm_inv_unique [OF inv])
    qed
  qed
  moreover have "slot_ok ?m j ((hm_data m)[i := e] ! j)" if "j < length (hm_data m)" for j
    using hm_invD(4) [OF inv that] e(2) i slot_ok_cong [of ?m m]
    by (cases "i = j") simp_all
  ultimately show ?thesis
    using hm_invD(2,6) [OF inv] by (simp add: hm_inv_def)
qed

lemma hm_map_store:
  assumes "hm_inv (m\<lparr>hm_data := (hm_data m)[i := e], hm_size := n\<rparr>)" "hm_inv m"
    and "i < length (hm_data m)" "live e"
    and "live (hm_data m ! i) \<Longrightarrow> elem_slice (hm_data m ! i) = elem_slice e"
  shows "hm_map (m\<lparr>hm_data := (hm_data m)[i := e], hm_size := n\<rparr>)
    = (hm_map m)(elem_slice e \<mapsto> elem_data e)"
proof
  let ?m = "m\<lparr>hm_data := (hm_data m)[i := e], hm_size := n\<rparr>"
  fix k
  show "hm_map ?m k = ((hm_map m)(elem_slice e \<mapsto> elem_data e)) k"
  proof (cases "k = elem_slice e")
    case True
    with hm_map_at [OF assms(1), of i] assms(3,4) show ?thesis by simp
  next
    case False
    show ?thesis
    proof (cases "hm_map m k")
      case None
      with False assms(3,4) have "hm_map ?m k = None"
        unfolding hm_map_None by (auto simp: nth_list_update)
      with False None show ?thesis by simp
    next
      case (Some v)
      then obtain j where j: "j < length (hm_data m)" "live (hm_data m ! j)"
        "elem_slice (hm_data m ! j) = k" "elem_data (hm_data m ! j) = v"
        by (rule hm_map_SomeD)
      with False assms(5) have "j \<noteq> i" by auto
      with j hm_map_at [OF assms(1), of j] have "hm_map ?m k = Some v" by simp
      with False Some show ?thesis by simp
    qed
  qed
qed

text \<open>Clearing a slot in use removes its key.\<close>

definition clear_slot :: "hashmap \<Rightarrow> nat \<Rightarrow> hashmap" where
  "clear_slot m i = m\<lparr>hm_data := (hm_data m)[i := zero_element], hm_size := hm_size m - 1\<rparr>"

lemma clear_slot_simps [simp]:
  "table_size (clear_slot m i) = table_size m"
  "hm_data (clear_slot m i) = (hm_data m)[i := zero_element]"
  by (simp_all add: clear_slot_def)

lemma not_live_zero [simp]: "elem_in_use zero_element = 0"
  by (simp add: zero_element_def)

lemma slot_ok_zero [simp]: "slot_ok m i zero_element"
  by (simp add: slot_ok_def)

lemma hm_inv_clear:
  assumes "hm_inv m" "i < length (hm_data m)" "live (hm_data m ! i)"
  shows "hm_inv (clear_slot m i)"
proof -
  have n: "length (filter live ((hm_data m)[i := zero_element])) + 1
      = length (filter live (hm_data m))"
    using length_filter_update [OF assms(2), of live zero_element] assms(3) by simp
  have "hm_size m \<noteq> 0"
  proof
    assume "hm_size m = 0"
    with hm_invD(3) [OF assms(1)] n show False by simp
  qed
  then have "unat (hm_size m - 1) + 1 = length (filter live (hm_data m))"
    using hm_invD(3) [OF assms(1)] unat_gt_0 [of "hm_size m"] by (simp add: unat_minus_one)
  with n have "unat (hm_size (clear_slot m i)) = length (filter live (hm_data (clear_slot m i)))"
    by (simp add: clear_slot_def)
  moreover have "{j. j < length (hm_data m) \<and> live ((hm_data m)[i := zero_element] ! j)}
      = {j. j < length (hm_data m) \<and> live (hm_data m ! j)} - {i}"
    using assms(2) by (auto simp: nth_list_update)
  then have "inj_on (\<lambda>j. elem_slice ((hm_data m)[i := zero_element] ! j))
      {j. j < length (hm_data m) \<and> live ((hm_data m)[i := zero_element] ! j)}"
    using hm_invD(5) [OF assms(1)] by (auto simp: inj_on_def)
  moreover have "slot_ok (clear_slot m i) j ((hm_data m)[i := zero_element] ! j)"
    if "j < length (hm_data m)" for j
    using hm_invD(4) [OF assms(1) that] assms(2) slot_ok_cong [of "clear_slot m i" m]
    by (cases "i = j") simp_all
  ultimately show ?thesis
    using hm_invD(2,6) [OF assms(1)] by (simp add: hm_inv_def)
qed

lemma hm_map_clear:
  assumes "hm_inv m" "i < length (hm_data m)" "live (hm_data m ! i)"
  shows "hm_map (clear_slot m i) = (hm_map m)(elem_slice (hm_data m ! i) := None)"
proof
  fix k
  show "hm_map (clear_slot m i) k = ((hm_map m)(elem_slice (hm_data m ! i) := None)) k"
  proof (cases "hm_map m k = None \<or> k = elem_slice (hm_data m ! i)")
    case True
    then have "hm_map (clear_slot m i) k = None"
      using assms hm_inv_unique [OF assms] by (force simp: hm_map_None nth_list_update)
    with True show ?thesis by auto
  next
    case False
    then obtain v where v: "hm_map m k = Some v" by auto
    then obtain j where j: "j < length (hm_data m)" "live (hm_data m ! j)"
      "elem_slice (hm_data m ! j) = k" "elem_data (hm_data m ! j) = v"
      by (rule hm_map_SomeD)
    with False have "j \<noteq> i" by auto
    with j hm_map_at [OF hm_inv_clear [OF assms], of j] have "hm_map (clear_slot m i) k = Some v"
      by simp
    with False v show ?thesis by simp
  qed
qed

section \<open>Remove and the entry written by put\<close>

lemma hashmap_remove_eq:
  "hashmap_remove m k len =
     (case find (hit m k len) (chain m k len) of
        Some c \<Rightarrow> (0, clear_slot m (unat c)) | None \<Rightarrow> (1, m))"
  unfolding hashmap_remove_def remove_loop_find chain_def [symmetric] clear_slot_def ..

lemma hashmap_remove_map:
  assumes "hm_inv m" "valid_slice k len" "hashmap_remove m k len = (r, m')"
  shows "hm_inv m'" "hm_map m' = (hm_map m)(take (unat len) k := None)"
    "r = (if hm_map m (take (unat len) k) = None then 1 else 0)"
proof -
  have "hm_inv m' \<and> hm_map m' = (hm_map m)(take (unat len) k := None) \<and>
    r = (if hm_map m (take (unat len) k) = None then 1 else 0)"
  proof (cases "find (hit m k len) (chain m k len)")
    case None
    with assms find_hit_None [OF assms(1,2) None] show ?thesis
      by (auto simp: hashmap_remove_eq)
  next
    case (Some c)
    note c = find_hit_Some [OF assms(1,2) Some]
    from Some assms(3) have "r = 0" "m' = clear_slot m (unat c)"
      by (auto simp: hashmap_remove_eq)
    with c hm_map_at [OF assms(1) c(1,2)] hm_map_clear [OF assms(1) c(1,2)]
      hm_inv_clear [OF assms(1) c(1,2)]
    show ?thesis by simp
  qed
  then show "hm_inv m'" "hm_map m' = (hm_map m)(take (unat len) k := None)"
    "r = (if hm_map m (take (unat len) k) = None then 1 else 0)" by auto
qed

lemma hm_inv_01:
  assumes "hm_inv m"
  shows "\<forall>c \<in> set (chain m k len). elem_in_use (hm_data m ! unat c) \<in> {0, 1}"
proof
  fix c
  assume "c \<in> set (chain m k len)"
  then have "unat c < length (hm_data m)"
    using chain_bound hm_invD(1,2) [OF assms] by simp
  from hm_invD(4) [OF assms this] show "elem_in_use (hm_data m ! unat c) \<in> {0, 1}"
    by (simp add: slot_ok_def)
qed

text \<open>The slot \<^verbatim>\<open>hashmap_hash_helper\<close> picks: the one of the key, or a free one of its chain.\<close>

lemma hash_helper_Some:
  assumes "hm_inv m" "valid_slice k len" "hashmap_hash_helper m k len = Some c"
  shows "unat c < length (hm_data m)" "c \<in> set (chain m k len)" "hm_size m < table_size m"
    "live (hm_data m ! unat c) \<Longrightarrow> elem_slice (hm_data m ! unat c) = take (unat len) k"
    "\<not> live (hm_data m ! unat c) \<Longrightarrow> hm_map m (take (unat len) k) = None"
proof -
  have eq: "hashmap_hash_helper m k len =
     (if hm_size m \<ge> table_size m then None
      else case find (hit m k len) (chain m k len) of
             Some c \<Rightarrow> Some c
           | None \<Rightarrow> find (\<lambda>c. \<not> live (hm_data m ! unat c)) (chain m k len))"
    by (rule hash_helper_find [OF hm_inv_01 [OF assms(1)]])
  with assms(3) show sz: "hm_size m < table_size m"
    by (auto split: if_splits)
  have "unat c < length (hm_data m) \<and> c \<in> set (chain m k len) \<and>
    (live (hm_data m ! unat c) \<longrightarrow> elem_slice (hm_data m ! unat c) = take (unat len) k) \<and>
    (\<not> live (hm_data m ! unat c) \<longrightarrow> hm_map m (take (unat len) k) = None)"
  proof (cases "find (hit m k len) (chain m k len)")
    case (Some c')
    with eq sz assms(3) have "c' = c" by (simp add: linorder_not_le [symmetric])
    with find_hit_Some [OF assms(1,2) Some] show ?thesis by auto
  next
    case None
    with eq sz assms(3) have "find (\<lambda>c. \<not> live (hm_data m ! unat c)) (chain m k len) = Some c"
      by (simp add: linorder_not_le [symmetric])
    then have "c \<in> set (chain m k len)" "\<not> live (hm_data m ! unat c)"
      by (auto simp: find_Some_iff)
    with chain_bound [OF hm_invD(1), OF assms(1)] find_hit_None [OF assms(1,2) None]
    show ?thesis by (simp add: hm_invD(2) [OF assms(1)])
  qed
  then show "unat c < length (hm_data m)" "c \<in> set (chain m k len)"
    "live (hm_data m ! unat c) \<Longrightarrow> elem_slice (hm_data m ! unat c) = take (unat len) k"
    "\<not> live (hm_data m ! unat c) \<Longrightarrow> hm_map m (take (unat len) k) = None"
    by auto
qed

lemma put_entry_eq:
  assumes "hm_inv m" "unat c < length (hm_data m)"
  shows "put_entry m c k len v =
    m\<lparr>hm_data := (hm_data m)[unat c :=
         \<lparr>elem_key = k, elem_key_len = len, elem_in_use = 1, elem_data = v\<rparr>],
      hm_size := (if live (hm_data m ! unat c) then hm_size m else hm_size m + 1)\<rparr>"
proof -
  have "elem_in_use (hm_data m ! unat c) \<in> {0, 1}"
    using hm_invD(4) [OF assms] by (simp add: slot_ok_def)
  then show ?thesis
    by (cases "hm_data m ! unat c") (auto simp: put_entry_def Let_def)
qed

lemma put_entry_map:
  assumes "hm_inv m" "valid_slice k len" "hashmap_hash_helper m k len = Some c"
  shows "hm_inv (put_entry m c k len v)"
    "hm_map (put_entry m c k len v) = (hm_map m)(take (unat len) k \<mapsto> v)"
proof -
  note c = hash_helper_Some [OF assms]
  let ?e = "\<lparr>elem_key = k, elem_key_len = len, elem_in_use = 1, elem_data = v\<rparr>"
  have sl: "elem_slice ?e = take (unat len) k"
    by (simp add: elem_slice_def)
  have uniq: "j = unat c" if "j < length (hm_data m)" "live (hm_data m ! j)"
    "elem_slice (hm_data m ! j) = elem_slice ?e" for j
  proof (cases "live (hm_data m ! unat c)")
    case True
    with c that sl show ?thesis by (auto intro: hm_inv_unique [OF assms(1)])
  next
    case False
    with c(5) that sl show ?thesis by (auto simp: hm_map_None)
  qed
  have n: "unat (if live (hm_data m ! unat c) then hm_size m else hm_size m + 1)
      = unat (hm_size m) + (if live (hm_data m ! unat c) then 0 else 1)"
    using unat_plus_one_less [OF c(3)] by simp
  have inv: "hm_inv (m\<lparr>hm_data := (hm_data m)[unat c := ?e],
      hm_size := (if live (hm_data m ! unat c) then hm_size m else hm_size m + 1)\<rparr>)"
    by (rule hm_inv_store [OF assms(1) c(1) _ _ uniq n])
      (use assms(2) c(2) in \<open>simp_all add: slot_ok_def\<close>)
  then show "hm_inv (put_entry m c k len v)"
    by (simp only: put_entry_eq [OF assms(1) c(1)])
  show "hm_map (put_entry m c k len v) = (hm_map m)(take (unat len) k \<mapsto> v)"
    unfolding put_entry_eq [OF assms(1) c(1)]
    using hm_map_store [OF inv assms(1) c(1)] c(4) sl by simp
qed

section \<open>Creation\<close>

lemma hashmap_create_ok:
  assumes "hashmap_create ok n out = (0, m)"
  shows "hm_inv m" "hm_map m = Map.empty" "table_size m = n"
proof -
  have c: "is_pow2 n" and m: "table_size m = n" "hm_size m = 0"
    "hm_data m = replicate (unat n) zero_element"
    using assms by (auto simp: hashmap_create_def is_pow2_def Let_def split: if_splits)
  show "table_size m = n" by (fact m(1))
  have no: "\<not> live (hm_data m ! i)" if "i < unat n" for i
    using that by (simp add: m)
  show "hm_inv m"
    unfolding hm_inv_def using c no by (auto simp: m inj_on_def)
  show "hm_map m = Map.empty"
    using no by (intro ext) (simp add: hm_map_None m)
qed

lemma hashmap_create_flag: "hashmap_create ok n out = (flag, m) \<Longrightarrow> flag \<in> {0, 1}"
  by (auto simp: hashmap_create_def Let_def split: if_splits)

lemma hashmap_create_table_size: "hashmap_create ok n out = (flag, m) \<Longrightarrow> table_size m = n"
  by (auto simp: hashmap_create_def Let_def split: if_splits)

section \<open>The fuel of put is enough\<close>

text \<open>
  Table sizes only ever double, and a size that doubles to 0 within \<open>n\<close> steps
  leaves room for \<open>n\<close> more doublings at most.
\<close>

definition doubled :: "u32 \<Rightarrow> u32 \<Rightarrow> bool" where
  "doubled x y \<longleftrightarrow> (\<exists>j. y = 2 ^ j * x)"

definition vanishes :: "nat \<Rightarrow> u32 \<Rightarrow> bool" where
  "vanishes n x \<longleftrightarrow> 2 ^ n * x = 0"

lemma doubled_refl [simp, intro]: "doubled x x"
  unfolding doubled_def by (rule exI [of _ 0]) simp

lemma doubled_trans:
  assumes "doubled x y" "doubled y z"
  shows "doubled x z"
proof -
  from assms obtain i j where "y = 2 ^ i * x" "z = 2 ^ j * y"
    by (auto simp: doubled_def)
  then have "z = 2 ^ (j + i) * x"
    by (simp add: power_add mult.assoc)
  then show ?thesis
    unfolding doubled_def by (rule exI)
qed

lemma doubled_double:
  assumes "doubled (2 * x) y"
  shows "doubled x y"
proof -
  have "doubled x (2 * x)"
    unfolding doubled_def by (rule exI [of _ 1]) simp
  then show ?thesis using assms by (rule doubled_trans)
qed

lemma vanishes_doubled:
  assumes "vanishes n x" "doubled x y"
  shows "vanishes n y"
proof -
  from assms(2) obtain j where "y = 2 ^ j * x"
    by (auto simp: doubled_def)
  then have "2 ^ n * y = 2 ^ j * (2 ^ n * x)"
    by (simp only: mult.left_commute)
  with assms(1) show ?thesis
    by (simp only: vanishes_def mult_zero_right)
qed

lemma vanishes_Suc: "vanishes (Suc n) x \<longleftrightarrow> vanishes n (2 * x)"
  by (simp only: vanishes_def power_Suc2 mult.assoc)

lemma vanishes_32: "vanishes 32 x"
proof -
  have "(2::u32) ^ 32 = 0" by simp
  then show ?thesis unfolding vanishes_def by (simp only: mult_zero_left)
qed

text \<open>What the induction needs of the recursive call.\<close>

definition put_returns ::
  "(hashmap \<Rightarrow> bytes \<Rightarrow> u32 \<Rightarrow> u32 \<Rightarrow> (int \<times> hashmap) option) \<Rightarrow> nat \<Rightarrow> bool" where
  "put_returns put n \<longleftrightarrow> (\<forall>m k len v. vanishes n (table_size m) \<longrightarrow>
     (\<exists>r m'. put m k len v = Some (r, m') \<and> doubled (table_size m) (table_size m')))"

lemma put_returnsE:
  assumes "put_returns put n" "vanishes n (table_size m)"
  obtains r m' where "put m k len v = Some (r, m')" "doubled (table_size m) (table_size m')"
  using assms unfolding put_returns_def by blast

lemma iterate_step_dead:
  "\<not> live (hm_data m ! i) \<Longrightarrow> iterate_loop f (i # is) m c = iterate_loop f is m c"
  by (simp add: Let_def)

lemma iterate_step_live:
  assumes "live (hm_data m ! i)"
  shows "iterate_loop (hashmap_rehash_iterator put) (i # is) m new =
    (case put new (elem_key (hm_data m ! i)) (elem_key_len (hm_data m ! i))
            (elem_data (hm_data m ! i)) of
       None \<Rightarrow> None
     | Some (r, new') \<Rightarrow>
         if 0 < r then Some (1, m, new')
         else iterate_loop (hashmap_rehash_iterator put) is (clear_slot m i) new')"
proof -
  have "hashmap_rehash_iterator put new (hm_data m ! i) =
    (case put new (elem_key (hm_data m ! i)) (elem_key_len (hm_data m ! i))
            (elem_data (hm_data m ! i)) of
       None \<Rightarrow> None | Some (r, new') \<Rightarrow> Some (if 0 < r then 1 else -1, new'))"
    by (simp add: hashmap_rehash_iterator_def)
  with assms show ?thesis
    by (simp add: Let_def clear_slot_def split: option.split)
qed

declare iterate_loop.simps(2) [simp del]

lemma iterate_loop_returns:
  assumes "put_returns put n" "vanishes n (table_size new)"
  shows "\<exists>flag m' new'. iterate_loop (hashmap_rehash_iterator put) is m new = Some (flag, m', new')
    \<and> table_size m' = table_size m \<and> doubled (table_size new) (table_size new')"
  using assms(2)
proof (induction "is" arbitrary: m new)
  case (Cons i "is")
  let ?e = "hm_data m ! i"
  from assms(1) Cons.prems obtain r new' where
    p: "put new (elem_key ?e) (elem_key_len ?e) (elem_data ?e) = Some (r, new')"
    and t: "doubled (table_size new) (table_size new')"
    by (rule put_returnsE)
  show ?case
  proof (cases "live ?e")
    case True
    with p t Cons.IH [OF vanishes_doubled [OF Cons.prems t], of "clear_slot m i"]
    show ?thesis
      by (auto simp: iterate_step_live intro: doubled_trans [OF t])
  next
    case False
    with Cons.IH [OF Cons.prems, of m] show ?thesis
      by (simp add: iterate_step_dead)
  qed
qed auto

lemma rehash_returns:
  assumes "put_returns put n" "vanishes (Suc n) (table_size m)"
  shows "\<exists>flag m'. hashmap_rehash_helper ok put m = Some (flag, m')
    \<and> doubled (table_size m) (table_size m')
    \<and> (flag = 0 \<longrightarrow> doubled (2 * table_size m) (table_size m'))"
proof -
  obtain flag new where c: "hashmap_create ok (2 * table_size m) (hashmap_destroy m) = (flag, new)"
    by fastforce
  then have t: "table_size new = 2 * table_size m"
    by (rule hashmap_create_table_size)
  with assms(2) have "vanishes n (table_size new)"
    by (simp add: vanishes_Suc)
  from iterate_loop_returns [OF assms(1) this, of "[0..<unat (table_size m)]" m]
  show ?thesis
    using c t
    by (cases "flag = 0")
      (auto simp: hashmap_rehash_helper_def hashmap_iterate_pairs_def intro: doubled_double)
qed

lemma put_fuel_returns: "put_returns (hashmap_put_fuel (Suc n) ok) n"
proof (induction n)
  case 0
  have "hashmap_hash_helper m k len = None" if "table_size m = 0" for m k len
    using that by (simp add: hashmap_hash_helper_def)
  then show ?case
    by (auto simp: put_returns_def vanishes_def hashmap_rehash_helper_def hashmap_create_def Let_def)
next
  case (Suc n)
  show ?case
    unfolding put_returns_def
  proof (intro allI impI)
    fix m :: hashmap and k len v
    assume z: "vanishes (Suc n) (table_size m)"
    obtain flag m' where
      r: "hashmap_rehash_helper ok (hashmap_put_fuel (Suc n) ok) m = Some (flag, m')"
      and t: "doubled (table_size m) (table_size m')"
      and t0: "flag = 0 \<longrightarrow> doubled (2 * table_size m) (table_size m')"
      using rehash_returns [OF Suc.IH z] by blast
    have again: "\<exists>r2 m''. hashmap_put_fuel (Suc n) ok m' k len v = Some (r2, m'')
        \<and> doubled (table_size m) (table_size m'')" if "flag = 0"
    proof -
      from that t0 z have "vanishes n (table_size m')"
        by (auto simp: vanishes_Suc intro: vanishes_doubled)
      with Suc.IH obtain r2 m'' where
        "hashmap_put_fuel (Suc n) ok m' k len v = Some (r2, m'')"
        "doubled (table_size m') (table_size m'')"
        by (rule put_returnsE)
      with t show ?thesis by (blast intro: doubled_trans)
    qed
    show "\<exists>r m'. hashmap_put_fuel (Suc (Suc n)) ok m k len v = Some (r, m')
      \<and> doubled (table_size m) (table_size m')"
    proof (cases "hashmap_hash_helper m k len")
      case (Some c)
      then show ?thesis by (simp add: put_entry_def Let_def)
    next
      case None
      with r t again show ?thesis
        by (subst hashmap_put_fuel.simps(2)) (cases "flag = 0"; simp del: hashmap_put_fuel.simps)
    qed
  qed
qed

lemma hashmap_put_fuel_enough: "\<exists>r m'. hashmap_put_fuel 33 ok m k len v = Some (r, m')"
proof -
  have "hashmap_put_fuel 33 ok = hashmap_put_fuel (Suc 32) ok" by simp
  with put_fuel_returns [of 32 ok] vanishes_32 [of "table_size m"] show ?thesis
    unfolding put_returns_def by metis
qed

section \<open>Put updates the map, or fails and adds nothing\<close>

definition put_updates ::
  "(hashmap \<Rightarrow> bytes \<Rightarrow> u32 \<Rightarrow> u32 \<Rightarrow> (int \<times> hashmap) option) \<Rightarrow> bool" where
  "put_updates put \<longleftrightarrow> (\<forall>m k len v r m'.
     hm_inv m \<longrightarrow> valid_slice k len \<longrightarrow> put m k len v = Some (r, m') \<longrightarrow>
     hm_inv m' \<and> (r = 0 \<and> hm_map m' = (hm_map m)(take (unat len) k \<mapsto> v) \<or>
                  r = 1 \<and> hm_map m' \<subseteq>\<^sub>m hm_map m))"

lemma put_updatesD:
  assumes "put_updates put" "hm_inv m" "valid_slice k len" "put m k len v = Some (r, m')"
  shows "hm_inv m'" "r = 0 \<and> hm_map m' = (hm_map m)(take (unat len) k \<mapsto> v) \<or>
    r = 1 \<and> hm_map m' \<subseteq>\<^sub>m hm_map m"
  using assms unfolding put_updates_def by blast+

text \<open>
  Rehashing moves the entries one by one: at every point each entry is in exactly one of the
  two tables.
\<close>

lemma iterate_loop_moves:
  assumes "put_updates put" "hm_inv m" "hm_inv new"
    and "dom (hm_map m) \<inter> dom (hm_map new) = {}"
    and "i \<le> length (hm_data m)" "\<forall>j < i. \<not> live (hm_data m ! j)"
    and "iterate_loop (hashmap_rehash_iterator put) [i..<length (hm_data m)] m new
      = Some (flag, m', new')"
  shows "hm_inv m' \<and> hm_map m' \<subseteq>\<^sub>m hm_map m \<and>
    (flag = 0 \<and> hm_inv new' \<and> hm_map new' = hm_map new ++ hm_map m \<or> flag = 1)"
  using assms(2-)
proof (induction "length (hm_data m) - i" arbitrary: m new i)
  case 0
  then have "hm_map m = Map.empty"
    by (intro ext) (simp add: hm_map_None)
  with 0 show ?case by simp
next
  case (Suc x)
  then have i: "i < length (hm_data m)" by simp
  let ?e = "hm_data m ! i"
  have upt: "[i..<length (hm_data m)] = i # [Suc i..<length (hm_data m)]"
    using i by (rule upt_conv_Cons)
  show ?case
  proof (cases "live ?e")
    case False
    with Suc.prems(6) upt have
      "iterate_loop (hashmap_rehash_iterator put) [Suc i..<length (hm_data m)] m new
        = Some (flag, m', new')"
      by (simp add: iterate_step_dead)
    moreover have "\<forall>j < Suc i. \<not> live (hm_data m ! j)"
      using Suc.prems(5) False less_Suc_eq by auto
    ultimately show ?thesis
      using Suc.hyps(1) [of m "Suc i" new] Suc.hyps(2) Suc.prems i by simp
  next
    case True
    have v: "valid_slice (elem_key ?e) (elem_key_len ?e)"
      using hm_invD(4) [OF Suc.prems(1) i] True by (simp add: slot_ok_def)
    from Suc.prems(6) upt True obtain r new1 where
      p: "put new (elem_key ?e) (elem_key_len ?e) (elem_data ?e) = Some (r, new1)"
      by (auto simp: iterate_step_live split: option.splits)
    note new1 = put_updatesD [OF assms(1) Suc.prems(2) v p]
    note at = hm_map_at [OF Suc.prems(1) i True]
    show ?thesis
    proof (cases "r = 0")
      case False
      with new1(2) have "r = 1" by simp
      with p Suc.prems(1,6) upt True show ?thesis
        by (auto simp: iterate_step_live)
    next
      case True
      let ?m1 = "clear_slot m i"
      have m1: "hm_inv ?m1" "hm_map ?m1 = (hm_map m)(elem_slice ?e := None)"
        using hm_inv_clear hm_map_clear Suc.prems(1) i \<open>live ?e\<close> by auto
      have n1: "hm_map new1 = (hm_map new)(elem_slice ?e \<mapsto> elem_data ?e)"
        using new1 True by (simp add: elem_slice_def)
      have it: "iterate_loop (hashmap_rehash_iterator put) [Suc i..<length (hm_data m)] ?m1 new1
          = Some (flag, m', new')"
        using Suc.prems(6) upt True \<open>live ?e\<close> p
        by (simp add: iterate_step_live)
      have dj: "dom (hm_map ?m1) \<inter> dom (hm_map new1) = {}"
        using Suc.prems(3) by (auto simp: m1 n1)
      have nl: "\<forall>j < Suc i. \<not> live (hm_data ?m1 ! j)"
        using Suc.prems(5) i by (auto simp: less_Suc_eq nth_list_update)
      have IH: "hm_inv m' \<and> hm_map m' \<subseteq>\<^sub>m hm_map ?m1 \<and>
        (flag = 0 \<and> hm_inv new' \<and> hm_map new' = hm_map new1 ++ hm_map ?m1 \<or> flag = 1)"
        using Suc.hyps(1) [of ?m1 "Suc i" new1] Suc.hyps(2) m1(1) new1(1) dj nl it i by simp
      have "hm_map new1 ++ hm_map ?m1 = hm_map new ++ hm_map m"
        using at by (auto simp: m1 n1 map_add_def fun_eq_iff split: option.splits)
      moreover have "hm_map ?m1 \<subseteq>\<^sub>m hm_map m"
        by (simp add: m1 map_le_def)
      ultimately show ?thesis
        using IH by (auto intro: map_le_trans)
    qed
  qed
qed

lemma rehash_moves:
  assumes "put_updates put" "hm_inv m" "hashmap_rehash_helper ok put m = Some (flag, m')"
  shows "hm_inv m'" "flag = 0 \<and> hm_map m' = hm_map m \<or> flag = 1 \<and> hm_map m' \<subseteq>\<^sub>m hm_map m"
proof -
  obtain f new where c: "hashmap_create ok (2 * table_size m) (hashmap_destroy m) = (f, new)"
    by fastforce
  have "hm_inv m' \<and>
    (flag = 0 \<and> hm_map m' = hm_map m \<or> flag = 1 \<and> hm_map m' \<subseteq>\<^sub>m hm_map m)"
  proof (cases "f = 0")
    case False
    with c hashmap_create_flag [OF c] assms(2,3) show ?thesis
      by (auto simp: hashmap_rehash_helper_def)
  next
    case True
    with c have "hashmap_create ok (2 * table_size m) (hashmap_destroy m) = (0, new)" by simp
    note new = hashmap_create_ok [OF this]
    from assms(3) c True obtain f2 m2 new2 where
      it: "hashmap_iterate_pairs m (hashmap_rehash_iterator put) new = Some (f2, m2, new2)"
      and res: "(flag, m') = (if f2 \<noteq> 0 then (f2, m2) else (0, new2))"
      by (auto simp: hashmap_rehash_helper_def split: option.splits if_splits)
    have "hm_inv m2 \<and> hm_map m2 \<subseteq>\<^sub>m hm_map m \<and>
      (f2 = 0 \<and> hm_inv new2 \<and> hm_map new2 = hm_map new ++ hm_map m \<or> f2 = 1)"
      by (rule iterate_loop_moves [OF assms(1,2) new(1), of 0])
        (use it new(2) hm_invD(2) [OF assms(2)] in \<open>simp_all add: hashmap_iterate_pairs_def\<close>)
    with res new(2) show ?thesis by (auto split: if_splits)
  qed
  then show "hm_inv m'" "flag = 0 \<and> hm_map m' = hm_map m \<or> flag = 1 \<and> hm_map m' \<subseteq>\<^sub>m hm_map m"
    by auto
qed

lemma put_fuel_updates: "put_updates (hashmap_put_fuel n ok)"
proof (induction n)
  case 0
  show ?case by (simp add: put_updates_def)
next
  case (Suc n)
  show ?case
    unfolding put_updates_def
  proof (intro allI impI)
    fix m k len v r m'
    assume a: "hm_inv m" "valid_slice k len"
      and put: "hashmap_put_fuel (Suc n) ok m k len v = Some (r, m')"
    show "hm_inv m' \<and> (r = 0 \<and> hm_map m' = (hm_map m)(take (unat len) k \<mapsto> v) \<or>
      r = 1 \<and> hm_map m' \<subseteq>\<^sub>m hm_map m)"
    proof (cases "hashmap_hash_helper m k len")
      case (Some c)
      with put put_entry_map [OF a Some] show ?thesis by auto
    next
      case None
      with put obtain flag m1 where
        re: "hashmap_rehash_helper ok (hashmap_put_fuel n ok) m = Some (flag, m1)"
        and res: "if flag \<noteq> 0 then (r, m') = (1, m1)
           else hashmap_put_fuel n ok m1 k len v = Some (r, m')"
        by (auto split: option.splits if_splits)
      note m1 = rehash_moves [OF Suc.IH a(1) re]
      show ?thesis
      proof (cases "flag = 0")
        case True
        with res put_updatesD [OF Suc.IH m1(1) a(2), of v r m'] m1(2) show ?thesis by auto
      next
        case False
        with res m1 show ?thesis by auto
      qed
    qed
  qed
qed

lemma hashmap_put_map:
  assumes "hm_inv m" "valid_slice k len" "hashmap_put ok m k len v = (r, m')"
  shows "hm_inv m'"
    "r = 0 \<and> hm_map m' = (hm_map m)(take (unat len) k \<mapsto> v) \<or> r = 1 \<and> hm_map m' \<subseteq>\<^sub>m hm_map m"
proof -
  have "hashmap_put_fuel 33 ok m k len v = Some (r, m')"
    using assms(3) hashmap_put_fuel_enough [of ok m k len v]
    by (auto simp: hashmap_put_def split: option.splits)
  from put_updatesD [OF put_fuel_updates assms(1,2) this] show "hm_inv m'"
    "r = 0 \<and> hm_map m' = (hm_map m)(take (unat len) k \<mapsto> v) \<or> r = 1 \<and> hm_map m' \<subseteq>\<^sub>m hm_map m"
    by auto
qed

section \<open>The contract of a dictionary\<close>

text \<open>
  What a client of the map may rely on: a fallible \<open>put\<close>, a \<open>get\<close> that answers zero for an
  absent key and a \<open>remove\<close> that reports whether the key was there. \<open>content\<close> is the finite map the
  dictionary stands for.
\<close>

locale dictionary =
  fixes put :: "'m \<Rightarrow> 'k \<Rightarrow> 'v::zero \<Rightarrow> int \<times> 'm"
    and get :: "'m \<Rightarrow> 'k \<Rightarrow> 'v"
    and remove :: "'m \<Rightarrow> 'k \<Rightarrow> int \<times> 'm"
    and content :: "'m \<Rightarrow> 'k \<rightharpoonup> 'v"
    and invar :: "'m \<Rightarrow> bool"
    and key_ok :: "'k \<Rightarrow> bool"
  assumes put_invar: "invar m \<Longrightarrow> key_ok k \<Longrightarrow> invar (snd (put m k v))"
    and put_content: "invar m \<Longrightarrow> key_ok k \<Longrightarrow>
      fst (put m k v) = 0 \<and> content (snd (put m k v)) = (content m)(k \<mapsto> v) \<or>
      fst (put m k v) = 1 \<and> content (snd (put m k v)) \<subseteq>\<^sub>m content m"
    and get_content: "invar m \<Longrightarrow> key_ok k \<Longrightarrow>
      get m k = (case content m k of Some v \<Rightarrow> v | None \<Rightarrow> 0)"
    and remove_invar: "invar m \<Longrightarrow> key_ok k \<Longrightarrow> invar (snd (remove m k))"
    and remove_content: "invar m \<Longrightarrow> key_ok k \<Longrightarrow> content (snd (remove m k)) = (content m)(k := None)"
    and remove_flag: "invar m \<Longrightarrow> key_ok k \<Longrightarrow>
      fst (remove m k) = (if content m k = None then 1 else 0)"
begin

lemma get_put:
  assumes "invar m" "key_ok k" "key_ok k'" "fst (put m k v) = 0"
  shows "get (snd (put m k v)) k' = (if k' = k then v else get m k')"
  using put_content [OF assms(1,2), of v] assms(4) get_content [OF put_invar [OF assms(1,2)] assms(3)]
    get_content [OF assms(1,3)]
  by auto

lemma get_remove:
  assumes "invar m" "key_ok k" "key_ok k'"
  shows "get (snd (remove m k)) k' = (if k' = k then 0 else get m k')"
  using remove_content [OF assms(1,2)] get_content [OF remove_invar [OF assms(1,2)] assms(3)]
    get_content [OF assms(1,3)]
  by auto

lemma remove_put:
  assumes "invar m" "key_ok k" "fst (put m k v) = 0"
  shows "fst (remove (snd (put m k v)) k) = 0"
  using put_content [OF assms(1,2), of v] assms(3) remove_flag [OF put_invar [OF assms(1,2)] assms(2)]
  by simp

lemma remove_twice:
  assumes "invar m" "key_ok k"
  shows "fst (remove (snd (remove m k)) k) = 1"
  using remove_content [OF assms] remove_flag [OF remove_invar [OF assms] assms(2)] by simp

end

text \<open>
  The hash map is such a dictionary, for keys passed as whole strings of fewer than
  \<open>2 ^ 32\<close> bytes and any behaviour of the allocator.
\<close>

definition whole_key :: "bytes \<Rightarrow> bool" where
  "whole_key k \<longleftrightarrow> length k < 2 ^ 32"

lemma whole_key_slice:
  assumes "whole_key k"
  shows "valid_slice k (word_of_nat (length k))"
    "take (unat (word_of_nat (length k) :: u32)) k = k"
  using assms by (simp_all add: whole_key_def valid_slice_def unat_of_nat take_bit_nat_eq_self)

interpretation hm: dictionary
  "\<lambda>m k v. hashmap_put ok m k (word_of_nat (length k)) v"
  "\<lambda>m k. hashmap_get m k (word_of_nat (length k))"
  "\<lambda>m k. hashmap_remove m k (word_of_nat (length k))"
  hm_map hm_inv whole_key
  for ok
proof
  fix m :: hashmap and k :: bytes and v :: u32
  assume m: "hm_inv m" and k: "whole_key k"
  note sl = whole_key_slice [OF k]
  note put = hashmap_put_map [OF m sl(1) surjective_pairing]
  note rem = hashmap_remove_map [OF m sl(1) surjective_pairing]
  show "hm_inv (snd (hashmap_put ok m k (word_of_nat (length k)) v))"
    by (rule put(1))
  show "fst (hashmap_put ok m k (word_of_nat (length k)) v) = 0 \<and>
      hm_map (snd (hashmap_put ok m k (word_of_nat (length k)) v)) = (hm_map m)(k \<mapsto> v) \<or>
    fst (hashmap_put ok m k (word_of_nat (length k)) v) = 1 \<and>
      hm_map (snd (hashmap_put ok m k (word_of_nat (length k)) v)) \<subseteq>\<^sub>m hm_map m"
    using put(2) [of ok v] by (simp only: sl(2))
  show "hashmap_get m k (word_of_nat (length k)) = (case hm_map m k of Some v \<Rightarrow> v | None \<Rightarrow> 0)"
    using hashmap_get_map [OF m sl(1)] by (simp only: sl(2))
  show "hm_inv (snd (hashmap_remove m k (word_of_nat (length k))))"
    by (rule rem(1))
  show "hm_map (snd (hashmap_remove m k (word_of_nat (length k)))) = (hm_map m)(k := None)"
    using rem(2) by (simp only: sl(2))
  show "fst (hashmap_remove m k (word_of_nat (length k))) = (if hm_map m k = None then 1 else 0)"
    using rem(3) by (simp only: sl(2))
qed

lemma hm_num_entries:
  assumes "hm_inv m"
  shows "unat (hm_size m) = card (dom (hm_map m))"
proof -
  let ?L = "{i. i < length (hm_data m) \<and> live (hm_data m ! i)}"
  have "dom (hm_map m) = (\<lambda>i. elem_slice (hm_data m ! i)) ` ?L"
    by (auto simp: hm_map_None dom_def)
  then have "card (dom (hm_map m)) = card ?L"
    by (simp only: card_image [OF hm_invD(5) [OF assms]])
  then show ?thesis
    by (simp only: hm_invD(3) [OF assms] length_filter_conv_card)
qed

lemma is_pow2_iff: "is_pow2 n \<longleftrightarrow> (\<exists>j < 32. n = 2 ^ j)"
proof
  assume n: "is_pow2 n"
  then have nz: "n \<noteq> 0" and pos: "0 < unat n"
    by (simp_all add: is_pow2_def unat_gt_0)
  have "unat n AND (unat n - 1) = unat (n AND (n - 1))"
    by (simp only: unsigned_and_eq unat_minus_one [OF nz])
  then have "unat n AND (unat n - 1) = 0"
    using n by (simp add: is_pow2_def)
  from and_pred_zero_nat [OF pos this] obtain j where j: "unat n = 2 ^ j" ..
  have "j < 32"
  proof (rule ccontr)
    assume "\<not> j < 32"
    then have "(2::nat) ^ 32 \<le> 2 ^ j" by (intro power_increasing) auto
    moreover have "unat n < 2 ^ LENGTH(32)" by (rule unsigned_less)
    ultimately show False using j by simp
  qed
  moreover have "n = word_of_nat (unat n)" by simp
  then have "n = 2 ^ j" by (simp only: j of_nat_power of_nat_numeral)
  ultimately show "\<exists>j < 32. n = 2 ^ j" by auto
next
  assume "\<exists>j < 32. n = 2 ^ j"
  then obtain j where j: "j < 32" "n = 2 ^ j" by auto
  then have "n AND mask j = 0"
    by (intro bit_word_eqI) (auto simp: bit_simps)
  then show "is_pow2 n"
    using j by (simp add: is_pow2_def mask_eq_decr_exp)
qed

lemma hash_helper_free:
  assumes "hm_inv m" "hm_size m < table_size m"
    and "\<exists>c \<in> set (chain m k len). \<not> live (hm_data m ! unat c)"
  shows "\<exists>c. hashmap_hash_helper m k len = Some c"
proof -
  have "find (\<lambda>c. \<not> live (hm_data m ! unat c)) (chain m k len) \<noteq> None"
    using assms(3) by (auto simp: find_None_iff)
  then show ?thesis
    using assms(2) unfolding hash_helper_find [OF hm_inv_01 [OF assms(1)]]
    by (auto split: option.splits)
qed

lemma hashmap_put_direct:
  assumes "hashmap_hash_helper m k len = Some c"
  shows "hashmap_put ok m k len v = (0, put_entry m c k len v)"
proof -
  have "(33::nat) = Suc 32" by simp
  then show ?thesis
    unfolding hashmap_put_def by (simp only: hashmap_put_fuel.simps assms option.case)
qed

text \<open>
  Sequences of operations on whole keys: what they do to a map, where None is a put that reports a
  failure, and which keys they leave, by their order alone.
\<close>

datatype map_op = Put (op_key: bytes) u32 | Remove (op_key: bytes)

fun run_ops :: "(u32 \<Rightarrow> bool) \<Rightarrow> map_op list \<Rightarrow> hashmap \<Rightarrow> hashmap option" where
  "run_ops ok [] m = Some m"
| "run_ops ok (Put k v # ops) m = (case hashmap_put ok m k (word_of_nat (length k)) v of
     (r, m') \<Rightarrow> if r = 0 then run_ops ok ops m' else None)"
| "run_ops ok (Remove k # ops) m = run_ops ok ops (snd (hashmap_remove m k (word_of_nat (length k))))"

fun live_keys :: "map_op list \<Rightarrow> bytes set \<Rightarrow> bytes set" where
  "live_keys [] K = K"
| "live_keys (Put k v # ops) K = live_keys ops (insert k K)"
| "live_keys (Remove k # ops) K = live_keys ops (K - {k})"

lemma run_ops_live:
  assumes "run_ops ok ops m = Some m'" "hm_inv m" "\<forall>op \<in> set ops. whole_key (op_key op)"
  shows "hm_inv m' \<and> dom (hm_map m') = live_keys ops (dom (hm_map m))"
  using assms
proof (induction ok ops m rule: run_ops.induct)
  case (2 ok k v ops m)
  let ?p = "hashmap_put ok m k (word_of_nat (length k)) v"
  have k: "whole_key k" using 2(4) by simp
  have r: "fst ?p = 0" "run_ops ok ops (snd ?p) = Some m'"
    using 2(2) by (auto simp: split_beta split: if_splits)
  have "hm_map (snd ?p) = (hm_map m)(k \<mapsto> v)"
    using hm.put_content [OF 2(3) k, of ok v] r(1) by auto
  then have "dom (hm_map (snd ?p)) = insert k (dom (hm_map m))" by (simp only: dom_fun_upd) simp
  then show ?case
    using hm.put_invar [OF 2(3) k, of ok v] 2(1) [OF surjective_pairing [symmetric] r(1)] r 2(4) by simp
next
  case (3 ok k ops m)
  have k: "whole_key k" using 3(4) by simp
  have "dom (hm_map (snd (hashmap_remove m k (word_of_nat (length k))))) = dom (hm_map m) - {k}"
    by (simp only: hm.remove_content [OF 3(3) k] dom_fun_upd) simp
  then show ?case
    using 3 hm.remove_invar [OF 3(3) k] by simp
qed simp

section \<open>Properties\<close>

text \<open>A small concrete map: eight empty slots.\<close>

definition map8 :: hashmap where
  "map8 = snd (hashmap_create (\<lambda>_. True) 8 \<lparr>table_size = 0, hm_size = 0, hm_data = []\<rparr>)"

lemma map8_inv: "hm_inv map8" "hm_map map8 = Map.empty"
  using hashmap_create_ok [of "\<lambda>_. True" 8 "\<lparr>table_size = 0, hm_size = 0, hm_data = []\<rparr>" map8]
  by (simp_all add: map8_def hashmap_create_def Let_def)

lemma map8_simps:
  "table_size map8 = 8" "hm_size map8 = 0" "hm_data map8 = replicate 8 zero_element"
  by (simp_all add: map8_def hashmap_create_def Let_def)

lemma map8_free: "\<exists>c \<in> set (chain map8 k len). \<not> live (hm_data map8 ! unat c)"
proof -
  have "length (chain map8 k len) = 8"
    by (simp add: chain_def HASHMAP_MAX_CHAIN_LENGTH_def)
  then obtain c where c: "c \<in> set (chain map8 k len)"
    by (cases "chain map8 k len") auto
  then have "unat c < 8"
    using chain_bound [of map8 c] by (simp add: map8_simps)
  with c show ?thesis
    by (intro bexI [of _ c]) (simp_all only: map8_simps nth_replicate not_live_zero simp_thms)
qed

lemma sample_ops_run: "\<exists>m. run_ops (\<lambda>_. True) [Put [97] 5, Put [98] 6, Put [97] 7, Remove [98]] map8 = Some m"
proof -
  have "run_ops (\<lambda>_. True) [Put [97] 5, Put [98] 6, Put [97] 7, Remove [98]] map8 \<noteq> None"
    by code_simp
  then show ?thesis by blast
qed

text \<open>
  C6: \<^verbatim>\<open>hashmap_put\<close> keeps the representation invariant; it returns 0 and the map then holds the
  value at the key, every other entry as before, or it returns 1 (an allocation failed or the size
  overflowed) and adds or changes no entry.
\<close>
theorem hashmap_put_refines:
  assumes "hm_inv m" "valid_slice k len"
  shows "case hashmap_put ok m k len v of (r, m') \<Rightarrow>
    hm_inv m' \<and>
    (r = 0 \<and> hm_map m' = (hm_map m)(take (unat len) k \<mapsto> v) \<or> r = 1 \<and> hm_map m' \<subseteq>\<^sub>m hm_map m)"
  using hashmap_put_map [OF assms surjective_pairing] by (simp add: case_prod_beta)

theorem hashmap_put_refines_witness:
  "hm_inv map8 \<and> valid_slice [1, 2, 3] 2 \<and>
   hm_inv (snd (hashmap_put (\<lambda>_. False) map8 [1, 2, 3] 2 7))"
proof -
  have h: "hm_inv map8" "valid_slice [1, 2, 3] 2"
    by (simp_all add: map8_inv valid_slice_def)
  from hashmap_put_refines [OF h, where ok = "\<lambda>_. False" and v = 7] h show ?thesis
    by (simp add: case_prod_beta)
qed

text \<open>
  C7: after \<^verbatim>\<open>hashmap_put\<close> reports success, \<^verbatim>\<open>hashmap_get\<close> returns the stored value for its key
  and the earlier result for every other key.
\<close>
theorem hashmap_get_after_put:
  assumes "hm_inv m" "whole_key k" "whole_key k'"
    and "fst (hashmap_put ok m k (word_of_nat (length k)) v) = 0"
  shows "hashmap_get (snd (hashmap_put ok m k (word_of_nat (length k)) v)) k' (word_of_nat (length k'))
    = (if k' = k then v else hashmap_get m k' (word_of_nat (length k')))"
  using assms by (rule hm.get_put)

theorem hashmap_get_after_put_witness:
  "hashmap_get (snd (hashmap_put (\<lambda>_. False) map8 [97, 98] (word_of_nat (length [97, 98 :: u8])) 5))
     [97, 98] (word_of_nat (length [97, 98 :: u8])) = 5"
proof -
  have k: "whole_key [97, 98]"
    by (simp add: whole_key_def)
  have "\<exists>c. hashmap_hash_helper map8 [97, 98] (word_of_nat (length [97, 98 :: u8])) = Some c"
    by (rule hash_helper_free [OF map8_inv(1) _ map8_free]) (simp add: map8_simps)
  then have "fst (hashmap_put (\<lambda>_. False) map8 [97, 98] (word_of_nat (length [97, 98 :: u8])) 5) = 0"
    by (auto simp: hashmap_put_direct)
  from hashmap_get_after_put [OF map8_inv(1) k k this] show ?thesis by simp
qed

text \<open>
  C8: \<^verbatim>\<open>hashmap_remove\<close> keeps the invariant, deletes exactly the given key and reports 0 if it
  was present and 1 if not.
\<close>
theorem hashmap_remove_refines:
  assumes "hm_inv m" "valid_slice k len"
  shows "case hashmap_remove m k len of (r, m') \<Rightarrow>
    hm_inv m' \<and> hm_map m' = (hm_map m)(take (unat len) k := None) \<and>
    r = (if hm_map m (take (unat len) k) = None then 1 else 0)"
  using hashmap_remove_map [OF assms surjective_pairing] by (simp add: case_prod_beta)

theorem hashmap_remove_refines_witness:
  "hm_inv map8 \<and> valid_slice [9] 1 \<and> fst (hashmap_remove map8 [9] 1) = 1"
proof -
  have h: "hm_inv map8" "valid_slice [9] 1"
    by (simp_all add: map8_inv valid_slice_def)
  from hashmap_remove_refines [OF h] h show ?thesis
    by (simp add: case_prod_beta map8_inv)
qed

text \<open>
  C9: \<^verbatim>\<open>hashmap_put\<close> always returns: the mutual recursion with \<^verbatim>\<open>hashmap_rehash_helper\<close> stops
  within 33 turns for every map, key, value and behaviour of the allocator.
\<close>
theorem hashmap_put_terminates: "\<exists>r. hashmap_put_fuel 33 ok m k len v = Some r"
  using hashmap_put_fuel_enough [of ok m k len v] by auto

text \<open>
  C10: while the table is not full and one of the probed slots is free, \<^verbatim>\<open>hashmap_put\<close> succeeds
  without allocating, whatever the allocator would answer, and the table keeps its size.
\<close>
theorem hashmap_put_no_rehash:
  assumes "hm_inv m" "valid_slice k len" "hm_size m < table_size m"
    and "\<exists>c \<in> set (chain m k len). \<not> live (hm_data m ! unat c)"
  shows "fst (hashmap_put ok m k len v) = 0 \<and>
    table_size (snd (hashmap_put ok m k len v)) = table_size m"
proof -
  from hash_helper_free [OF assms(1,3,4)] obtain c where "hashmap_hash_helper m k len = Some c" ..
  then show ?thesis
    by (simp add: hashmap_put_direct put_entry_def Let_def)
qed

theorem hashmap_put_no_rehash_witness:
  "fst (hashmap_put (\<lambda>_. False) map8 [7] 1 3) = 0 \<and>
   table_size (snd (hashmap_put (\<lambda>_. False) map8 [7] 1 3)) = 8"
proof -
  have h: "valid_slice [7] 1" "hm_size map8 < table_size map8"
    by (simp_all add: valid_slice_def map8_simps)
  show ?thesis
    using hashmap_put_no_rehash [OF map8_inv(1) h map8_free] by (simp add: map8_simps)
qed

text \<open>
  C11: \<^verbatim>\<open>hashmap_num_entries\<close> counts: after any sequence of successful puts and of removals on
  a new map, with any keys in any order and with all the rehashing they cause, it returns the number of
  distinct keys that have been put and not been removed since.
\<close>
theorem hashmap_num_entries_card:
  assumes "hashmap_create ok n out = (0, m0)" "\<forall>op \<in> set ops. whole_key (op_key op)" "run_ops ok ops m0 = Some m"
  shows "unat (hashmap_num_entries m) = card (live_keys ops {})"
proof -
  note m0 = hashmap_create_ok [OF assms(1)]
  from run_ops_live [OF assms(3) m0(1) assms(2)] m0(2) show ?thesis
    using hm_num_entries [of m] by (simp add: hashmap_num_entries_def)
qed

theorem hashmap_num_entries_card_witness:
  "\<exists>m. run_ops (\<lambda>_. True) [Put [97] 5, Put [98] 6, Put [97] 7, Remove [98]] map8 = Some m \<and> hashmap_num_entries m = 1"
proof -
  let ?ops = "[Put [97] 5, Put [98] 6, Put [97] 7, Remove [98]]"
  have c: "hashmap_create (\<lambda>_. True) 8 \<lparr>table_size = 0, hm_size = 0, hm_data = []\<rparr> = (0, map8)"
    by (simp add: map8_def hashmap_create_def Let_def)
  have k: "\<forall>op \<in> set ?ops. whole_key (op_key op)"
    by (simp add: whole_key_def)
  obtain m where m: "run_ops (\<lambda>_. True) ?ops map8 = Some m"
    using sample_ops_run by blast
  have "live_keys ?ops {} = {[97]}" by auto
  then have "unat (hashmap_num_entries m) = 1"
    using hashmap_num_entries_card [OF c k m] by (simp only: card_1_singleton_iff) simp
  then show ?thesis using m by (metis unat_1 word_unat_eq_iff)
qed

text \<open>
  C12: \<^verbatim>\<open>hashmap_create\<close> succeeds exactly for the sizes 1, 2, 4, \<dots>, \<open>2 ^ 31\<close> whose
  allocation succeeds, and the new map then satisfies the invariant and is empty.
\<close>
theorem hashmap_create_correct:
  "case hashmap_create ok n out of (r, m) \<Rightarrow>
     (r = 0 \<longleftrightarrow> (\<exists>j < 32. n = 2 ^ j) \<and> ok n) \<and> (r = 0 \<longrightarrow> hm_inv m \<and> hm_map m = Map.empty)"
proof -
  obtain r m where c: "hashmap_create ok n out = (r, m)" by fastforce
  then have "r = 0 \<longleftrightarrow> is_pow2 n \<and> ok n"
    by (auto simp: hashmap_create_def Let_def is_pow2_def split: if_splits)
  with c hashmap_create_ok [of ok n out m] show ?thesis
    by (simp add: is_pow2_iff)
qed

theorem hashmap_create_correct_witness:
  "fst (hashmap_create (\<lambda>_. True) 8 map8) = 0 \<and> hm_inv (snd (hashmap_create (\<lambda>_. True) 8 map8))"
proof -
  have "fst (hashmap_create (\<lambda>_. True) 8 map8) = 0"
    by (simp add: hashmap_create_def Let_def)
  with hashmap_create_correct [where ok = "\<lambda>_. True" and n = 8 and out = map8] show ?thesis
    by (simp add: case_prod_beta)
qed

end
