(* ===== verification/Wire.thy ===== *)
theory Wire
  imports Prelude "HOL-Library.Monad_Syntax"
begin

text \<open>
  Bytes on the wire: the big-endian accessors of include/nanomq.h and bounds-checked reads.
\<close>

definition NNI_PUT16 :: "u16 \<Rightarrow> bytes" where
  "NNI_PUT16 u = [ucast (drop_bit 8 u), ucast u]"

definition NNI_PUT32 :: "u32 \<Rightarrow> bytes" where
  "NNI_PUT32 u = [ucast (drop_bit 24 u), ucast (drop_bit 16 u), ucast (drop_bit 8 u), ucast u]"

definition NNI_PUT64 :: "u64 \<Rightarrow> bytes" where
  "NNI_PUT64 u = [ucast (drop_bit 56 u), ucast (drop_bit 48 u), ucast (drop_bit 40 u),
     ucast (drop_bit 32 u), ucast (drop_bit 24 u), ucast (drop_bit 16 u), ucast (drop_bit 8 u), ucast u]"

definition read_bytes :: "bytes \<Rightarrow> nat \<Rightarrow> nat \<Rightarrow> bytes option" where
  "read_bytes buf p n = (if p + n \<le> length buf then Some (take n (drop p buf)) else None)"

definition NNI_GET16 :: "bytes \<Rightarrow> nat \<Rightarrow> u16 option" where
  "NNI_GET16 buf p = (if p + 2 \<le> length buf
     then Some (push_bit 8 (ucast (buf ! p)) + ucast (buf ! (p + 1))) else None)"

definition NNI_GET32 :: "bytes \<Rightarrow> nat \<Rightarrow> u32 option" where
  "NNI_GET32 buf p = (if p + 4 \<le> length buf
     then Some (push_bit 24 (ucast (buf ! p)) + push_bit 16 (ucast (buf ! (p + 1)))
       + push_bit 8 (ucast (buf ! (p + 2))) + ucast (buf ! (p + 3))) else None)"

definition NNI_GET64 :: "bytes \<Rightarrow> nat \<Rightarrow> u64 option" where
  "NNI_GET64 buf p = (if p + 8 \<le> length buf
     then Some (push_bit 56 (ucast (buf ! p)) + push_bit 48 (ucast (buf ! (p + 1)))
       + push_bit 40 (ucast (buf ! (p + 2))) + push_bit 32 (ucast (buf ! (p + 3)))
       + push_bit 24 (ucast (buf ! (p + 4))) + push_bit 16 (ucast (buf ! (p + 5)))
       + push_bit 8 (ucast (buf ! (p + 6))) + ucast (buf ! (p + 7))) else None)"

lemma byte_join:
  fixes u :: "'a::len word"
  shows "push_bit k (take_bit 8 (drop_bit k u)) + take_bit k u = take_bit (k + 8) u"
proof -
  have "push_bit k (take_bit 8 (drop_bit k u)) + take_bit k u
      = push_bit k (take_bit 8 (drop_bit k u)) OR take_bit k u"
    by (rule disjunctive_add) (auto simp: bit_simps)
  also have "\<dots> = take_bit (k + 8) u"
    by (rule bit_word_eqI) (auto simp: bit_simps le_imp_diff_is_add)
  finally show ?thesis .
qed

lemma byte_low:
  fixes u :: "'a::len word"
  assumes "8 \<le> LENGTH('a)"
  shows "ucast (ucast u :: u8) = take_bit 8 u"
  by (rule bit_word_eqI) (auto simp: bit_simps)

lemma take_bit_full: "LENGTH('a) \<le> k \<Longrightarrow> take_bit k (u :: 'a::len word) = u"
  by (rule bit_word_eqI) (auto simp: bit_simps)

lemma join16: "push_bit 8 (ucast (ucast (drop_bit 8 u) :: u8)) + ucast (ucast u :: u8) = (u :: u16)"
  by (simp add: byte_low byte_join take_bit_full)

lemma join32:
  "push_bit 24 (ucast (ucast (drop_bit 24 u) :: u8)) + push_bit 16 (ucast (ucast (drop_bit 16 u) :: u8))
   + push_bit 8 (ucast (ucast (drop_bit 8 u) :: u8)) + ucast (ucast u :: u8) = (u :: u32)"
  by (simp add: byte_low byte_join take_bit_full add.assoc)

lemma join64:
  "push_bit 56 (ucast (ucast (drop_bit 56 u) :: u8)) + push_bit 48 (ucast (ucast (drop_bit 48 u) :: u8))
   + push_bit 40 (ucast (ucast (drop_bit 40 u) :: u8)) + push_bit 32 (ucast (ucast (drop_bit 32 u) :: u8))
   + push_bit 24 (ucast (ucast (drop_bit 24 u) :: u8)) + push_bit 16 (ucast (ucast (drop_bit 16 u) :: u8))
   + push_bit 8 (ucast (ucast (drop_bit 8 u) :: u8)) + ucast (ucast u :: u8) = (u :: u64)"
  by (simp add: byte_low byte_join take_bit_full add.assoc)

lemma NNI_PUT_length [simp]:
  "length (NNI_PUT16 a) = 2" "length (NNI_PUT32 b) = 4" "length (NNI_PUT64 c) = 8"
  by (simp_all add: NNI_PUT16_def NNI_PUT32_def NNI_PUT64_def)

text \<open>Reading past a prefix is reading the rest; reading what was put gives it back.\<close>

lemma NNI_GET_skip [wire_simps]:
  "length xs \<le> p \<Longrightarrow> NNI_GET16 (xs @ ys) p = NNI_GET16 ys (p - length xs)"
  "length xs \<le> p \<Longrightarrow> NNI_GET32 (xs @ ys) p = NNI_GET32 ys (p - length xs)"
  "length xs \<le> p \<Longrightarrow> NNI_GET64 (xs @ ys) p = NNI_GET64 ys (p - length xs)"
  by (auto simp: NNI_GET16_def NNI_GET32_def NNI_GET64_def nth_append Suc_diff_le)

lemma read_bytes_skip [wire_simps]:
  "length xs \<le> p \<Longrightarrow> read_bytes (xs @ ys) p n = read_bytes ys (p - length xs) n"
  by (auto simp: read_bytes_def)

lemma NNI_GET16_PUT [wire_simps]: "NNI_GET16 (NNI_PUT16 u @ post) 0 = Some u"
  by (simp add: NNI_GET16_def NNI_PUT16_def join16)

lemma NNI_GET32_PUT [wire_simps]: "NNI_GET32 (NNI_PUT32 u @ post) 0 = Some u"
  by (simp add: NNI_GET32_def NNI_PUT32_def join32)

lemma NNI_GET64_PUT [wire_simps]: "NNI_GET64 (NNI_PUT64 u @ post) 0 = Some u"
  by (simp add: NNI_GET64_def NNI_PUT64_def join64)

lemma read_bytes_here [wire_simps]: "n = length xs \<Longrightarrow> read_bytes (xs @ post) 0 n = Some xs"
  by (simp add: read_bytes_def)

lemma byte_bit_le: "bit (a :: u8) n \<Longrightarrow> n < 8"
  using bit_imp_le_length [of a n] by simp

lemma NNI_PUT32_join:
  "NNI_PUT32 (push_bit 24 (ucast a) + push_bit 16 (ucast b) + push_bit 8 (ucast c) + ucast d) = [a, b, c, d]"
proof -
  have "push_bit 24 (ucast a) + push_bit 16 (ucast b) + push_bit 8 (ucast c) + ucast d
      = push_bit 24 (ucast a) OR push_bit 16 (ucast b) OR push_bit 8 (ucast c) OR (ucast d :: u32)"
    by (subst disjunctive_add, (auto simp: bit_simps dest!: byte_bit_le)[1])+ (simp add: or.assoc)
  moreover have "ucast (drop_bit 24 (push_bit 24 (ucast a) OR push_bit 16 (ucast b) OR push_bit 8 (ucast c) OR (ucast d :: u32))) = a"
    "ucast (drop_bit 16 (push_bit 24 (ucast a) OR push_bit 16 (ucast b) OR push_bit 8 (ucast c) OR (ucast d :: u32))) = b"
    "ucast (drop_bit 8 (push_bit 24 (ucast a) OR push_bit 16 (ucast b) OR push_bit 8 (ucast c) OR (ucast d :: u32))) = c"
    "ucast (push_bit 24 (ucast a) OR push_bit 16 (ucast b) OR push_bit 8 (ucast c) OR (ucast d :: u32)) = d"
    by (rule bit_word_eqI; auto simp: bit_simps dest: byte_bit_le)+
  ultimately show ?thesis
    by (simp add: NNI_PUT32_def)
qed

lemma four_bytes:
  assumes "p + 4 \<le> length buf"
  shows "take 4 (drop p buf) = [buf ! p, buf ! (p + 1), buf ! (p + 2), buf ! (p + 3)]"
  using assms by (auto simp: list_eq_iff_nth_eq less_Suc_eq numeral_eq_Suc nth_Cons')

lemma NNI_GET32_SomeD:
  assumes "NNI_GET32 buf p = Some u"
  shows "p + 4 \<le> length buf" "take 4 (drop p buf) = NNI_PUT32 u"
  using assms by (auto simp: NNI_GET32_def four_bytes NNI_PUT32_join split: if_splits)

lemma read_bytes_SomeD:
  "read_bytes buf p n = Some xs \<Longrightarrow> p + n \<le> length buf \<and> xs = take n (drop p buf)"
  by (auto simp: read_bytes_def split: if_splits)

end
