(* ===== verification/Nng.thy ===== *)
theory Nng
  imports Wire
begin

text \<open>
  The part of the nng message interface (a library outside this repository) that the
  broker calls, as a record of operations passed to every definition that uses it, and the
  documented behaviour of those operations as predicates the theorems name as hypotheses.
\<close>

section \<open>C strings\<close>

definition cstr :: "bytes \<Rightarrow> bytes" where
  "cstr buf = takeWhile (\<lambda>b. b \<noteq> 0) buf"

lemma cstr_no_nul [simp]: "0 \<notin> set bs \<Longrightarrow> cstr bs = bs"
  by (auto simp: cstr_def takeWhile_eq_all_conv)

lemma cstr_append_nul [simp]: "cstr (bs @ 0 # r) = cstr bs"
  by (induction bs) (auto simp: cstr_def)

lemma nul_notin_cstr [simp]: "0 \<notin> set (cstr bs)"
  by (auto simp: cstr_def dest: set_takeWhileD)

lemma cstr_idem [simp]: "cstr (cstr bs) = cstr bs"
  by simp

section \<open>Messages\<close>

record 'm nng_msg_ops =
  nng_msg_alloc :: "int + 'm"
  nng_msg_header :: "'m \<Rightarrow> bytes"
  nng_msg_body :: "'m \<Rightarrow> bytes"
  nng_msg_header_append :: "bytes \<Rightarrow> 'm \<Rightarrow> 'm option"
  nng_msg_append :: "bytes \<Rightarrow> 'm \<Rightarrow> 'm option"
  nng_msg_append_u32 :: "u32 \<Rightarrow> 'm \<Rightarrow> 'm option"
  nng_msg_header_clear :: "'m \<Rightarrow> 'm"
  nng_msg_clear :: "'m \<Rightarrow> 'm"

text \<open>A call whose return code is not looked at leaves the message as it was when it fails.\<close>

definition ignoring_rv :: "('m \<Rightarrow> 'm option) \<Rightarrow> 'm \<Rightarrow> 'm" where
  "ignoring_rv f m = (case f m of None \<Rightarrow> m | Some m' \<Rightarrow> m')"

definition nng_msg_laws :: "('m, 'e) nng_msg_ops_scheme \<Rightarrow> bool" where
  "nng_msg_laws N \<longleftrightarrow>
    (\<forall>m. nng_msg_alloc N = Inr m \<longrightarrow> nng_msg_header N m = [] \<and> nng_msg_body N m = []) \<and>
    (\<forall>bs m m'. nng_msg_header_append N bs m = Some m' \<longrightarrow>
       nng_msg_header N m' = nng_msg_header N m @ bs \<and> nng_msg_body N m' = nng_msg_body N m) \<and>
    (\<forall>bs m m'. nng_msg_append N bs m = Some m' \<longrightarrow>
       nng_msg_header N m' = nng_msg_header N m \<and> nng_msg_body N m' = nng_msg_body N m @ bs) \<and>
    (\<forall>u m m'. nng_msg_append_u32 N u m = Some m' \<longrightarrow>
       nng_msg_header N m' = nng_msg_header N m \<and> nng_msg_body N m' = nng_msg_body N m @ NNI_PUT32 u) \<and>
    (\<forall>m. nng_msg_header N (nng_msg_header_clear N m) = [] \<and>
       nng_msg_body N (nng_msg_header_clear N m) = nng_msg_body N m) \<and>
    (\<forall>m. nng_msg_body N (nng_msg_clear N m) = [] \<and>
       nng_msg_header N (nng_msg_clear N m) = nng_msg_header N m)"

definition nng_msg_memory :: "('m, 'e) nng_msg_ops_scheme \<Rightarrow> bool" where
  "nng_msg_memory N \<longleftrightarrow>
    (\<forall>bs m. nng_msg_header_append N bs m \<noteq> None \<and> nng_msg_append N bs m \<noteq> None) \<and>
    (\<forall>u m. nng_msg_append_u32 N u m \<noteq> None)"

lemma nng_msg_lawsD:
  assumes "nng_msg_laws N"
  shows "nng_msg_alloc N = Inr m \<Longrightarrow> nng_msg_header N m = []"
    and "nng_msg_alloc N = Inr m \<Longrightarrow> nng_msg_body N m = []"
    and "nng_msg_header_append N bs m = Some m' \<Longrightarrow> nng_msg_header N m' = nng_msg_header N m @ bs"
    and "nng_msg_header_append N bs m = Some m' \<Longrightarrow> nng_msg_body N m' = nng_msg_body N m"
    and "nng_msg_append N bs m = Some m' \<Longrightarrow> nng_msg_header N m' = nng_msg_header N m"
    and "nng_msg_append N bs m = Some m' \<Longrightarrow> nng_msg_body N m' = nng_msg_body N m @ bs"
    and "nng_msg_header N (nng_msg_header_clear N m) = []"
    and "nng_msg_body N (nng_msg_header_clear N m) = nng_msg_body N m"
    and "nng_msg_header N (nng_msg_clear N m) = nng_msg_header N m"
    and "nng_msg_body N (nng_msg_clear N m) = []"
  using assms unfolding nng_msg_laws_def by blast+

lemma ignoring_rv_append:
  assumes "nng_msg_laws N" "nng_msg_memory N"
  shows "nng_msg_header N (ignoring_rv (nng_msg_header_append N bs) m) = nng_msg_header N m @ bs"
    and "nng_msg_body N (ignoring_rv (nng_msg_header_append N bs) m) = nng_msg_body N m"
    and "nng_msg_header N (ignoring_rv (nng_msg_append N bs) m) = nng_msg_header N m"
    and "nng_msg_body N (ignoring_rv (nng_msg_append N bs) m) = nng_msg_body N m @ bs"
    and "nng_msg_header N (ignoring_rv (nng_msg_append_u32 N u) m) = nng_msg_header N m"
    and "nng_msg_body N (ignoring_rv (nng_msg_append_u32 N u) m) = nng_msg_body N m @ NNI_PUT32 u"
  using assms unfolding nng_msg_laws_def nng_msg_memory_def ignoring_rv_def
  by (auto split: option.splits)

section \<open>A message as its two byte strings\<close>

text \<open>An instance of the interface, for evaluating the model on concrete messages.\<close>

definition list_msg_ops :: "'x \<Rightarrow> (bytes \<times> bytes \<times> 'x) nng_msg_ops" where
  "list_msg_ops x = \<lparr> nng_msg_alloc = Inr ([], [], x),
     nng_msg_header = fst, nng_msg_body = (\<lambda>(_, b, _). b),
     nng_msg_header_append = (\<lambda>bs (h, r). Some (h @ bs, r)),
     nng_msg_append = (\<lambda>bs (h, b, r). Some (h, b @ bs, r)),
     nng_msg_append_u32 = (\<lambda>u (h, b, r). Some (h, b @ NNI_PUT32 u, r)),
     nng_msg_header_clear = (\<lambda>(h, r). ([], r)), nng_msg_clear = (\<lambda>(h, b, r). (h, [], r)) \<rparr>"

lemma list_msg_ops_simps [simp]:
  "nng_msg_alloc (list_msg_ops x) = Inr ([], [], x)"
  "nng_msg_header (list_msg_ops x) m = fst m"
  "nng_msg_body (list_msg_ops x) m = fst (snd m)"
  "nng_msg_header_append (list_msg_ops x) bs m = Some (fst m @ bs, snd m)"
  "nng_msg_append (list_msg_ops x) bs m = Some (fst m, fst (snd m) @ bs, snd (snd m))"
  "nng_msg_append_u32 (list_msg_ops x) u m = Some (fst m, fst (snd m) @ NNI_PUT32 u, snd (snd m))"
  "nng_msg_header_clear (list_msg_ops x) m = ([], snd m)"
  "nng_msg_clear (list_msg_ops x) m = (fst m, [], snd (snd m))"
  by (simp_all add: list_msg_ops_def split_beta)

end
