(* ===== verification/Packets.thy ===== *)
theory Packets
  imports Nng
begin

text \<open>
  The packet structures of include/pub_handler.h and include/sub_handler.h, and the names of
  the reason codes and control packets that the handlers use symbolically.
\<close>

section \<open>Names\<close>

datatype reason_code = SUCCESS | GRANTED_QOS_2 | UNSPECIFIED_ERROR | PROTOCOL_ERROR
  | TOPIC_FILTER_INVALID | PACKET_IDENTIFIER_IN_USE | NNG_ENOMEM | CODE int

datatype cmd_type = CMD_NONE | CMD_CONNECT | CMD_CONNACK | CMD_PUBLISH | CMD_PUBLISH_V5 | CMD_PUBACK | CMD_PUBREC
  | CMD_PUBREL | CMD_PUBCOMP | CMD_SUBSCRIBE | CMD_SUBACK | CMD_UNSUBSCRIBE | CMD_UNSUBACK
  | CMD_PINGREQ | CMD_PINGRESP | CMD_DISCONNECT | CMD_DISCONNECT_EV | CMD_OTHER nat

datatype packet_name = PUBLISH | PUBACK | PUBREC | PUBREL | PUBCOMP | OTHER_PACKET

section \<open>PUBLISH packets\<close>

record fixed_header =
  fh_retain :: "1 word"
  fh_qos :: "2 word"
  fh_dup :: "1 word"
  fh_packet_type :: "4 word"
  fh_remain_len :: u32

record mqtt_string =
  str_body :: "bytes option"
  str_len :: u32

datatype 'p variable_header =
    publish (vh_packet_id: u16) (vh_topic_name: mqtt_string) (vh_properties: "'p option") (vh_prop_len: u32)
  | pub_arrc (vh_packet_id: u16) (vh_reason_code: u8) (vh_properties: "'p option") (vh_prop_len: u32)

record mqtt_payload =
  pl_data :: "bytes option"
  pl_len :: u32

record 'p pub_packet_struct =
  pp_fixed_header :: fixed_header
  pp_var_header :: "'p variable_header"
  pp_payload :: mqtt_payload

text \<open>nng_zalloc returns the packet with every byte zero.\<close>

definition zero_packet :: "'p pub_packet_struct" where
  "zero_packet = \<lparr> pp_fixed_header = \<lparr> fh_retain = 0, fh_qos = 0, fh_dup = 0, fh_packet_type = 0, fh_remain_len = 0 \<rparr>,
     pp_var_header = publish 0 \<lparr> str_body = None, str_len = 0 \<rparr> None 0,
     pp_payload = \<lparr> pl_data = None, pl_len = 0 \<rparr> \<rparr>"

text \<open>The first byte of a fixed header: its bit fields from the least significant bit on.\<close>

definition header_byte :: "fixed_header \<Rightarrow> u8" where
  "header_byte h = ucast (fh_retain h) OR push_bit 1 (ucast (fh_qos h)) OR push_bit 3 (ucast (fh_dup h))
     OR push_bit 4 (ucast (fh_packet_type h))"

definition header_of_byte :: "u8 \<Rightarrow> u32 \<Rightarrow> fixed_header" where
  "header_of_byte b n = \<lparr> fh_retain = ucast b, fh_qos = ucast (drop_bit 1 b), fh_dup = ucast (drop_bit 3 b),
     fh_packet_type = ucast (drop_bit 4 b), fh_remain_len = n \<rparr>"

lemma header_byte_remain [simp]: "header_byte (h\<lparr>fh_remain_len := n\<rparr>) = header_byte h"
  by (simp add: header_byte_def)

lemma bit_header_byte:
  "bit (header_byte h) n \<longleftrightarrow> n = 0 \<and> bit (fh_retain h) 0 \<or> 1 \<le> n \<and> n < 3 \<and> bit (fh_qos h) (n - 1)
     \<or> n = 3 \<and> bit (fh_dup h) 0 \<or> 4 \<le> n \<and> n < 8 \<and> bit (fh_packet_type h) (n - 4)"
proof -
  have out: "1 \<le> i \<Longrightarrow> \<not> bit (r :: 1 word) i" "2 \<le> i \<Longrightarrow> \<not> bit (q :: 2 word) i"
    "4 \<le> i \<Longrightarrow> \<not> bit (t :: 4 word) i" "8 \<le> i \<Longrightarrow> \<not> bit (b :: u8) i" for i r q t b
    using bit_imp_le_length [of r i] bit_imp_le_length [of q i] bit_imp_le_length [of t i]
      bit_imp_le_length [of b i] by auto
  show ?thesis
  proof (cases "8 \<le> n")
    case False
    then consider "n = 0" | "n = 1" | "n = 2" | "n = 3" | "n = 4" | "n = 5" | "n = 6" | "n = 7"
      by linarith
    then show ?thesis
      unfolding header_byte_def bit_or_iff bit_push_bit_iff bit_unsigned_iff possible_bit_def
      by cases (simp_all add: out)
  qed (simp add: out)
qed

lemma header_of_header_byte [simp]:
  "header_of_byte (header_byte h) n = h\<lparr>fh_remain_len := n\<rparr>"
proof -
  have "ucast (header_byte h) = fh_retain h" "ucast (drop_bit 1 (header_byte h)) = fh_qos h"
    "ucast (drop_bit 3 (header_byte h)) = fh_dup h" "ucast (drop_bit 4 (header_byte h)) = fh_packet_type h"
    by (rule bit_word_eqI, auto simp: bit_header_byte bit_simps)+
  then show ?thesis by (simp add: header_of_byte_def)
qed

end
