(* ===== verification/PubCodec.thy ===== *)
theory PubCodec
  imports Packets
begin

text \<open>
  pub_handler.c, the codec: decode_pub_message fills a packet structure from a received
  message, encode_pub_message writes one back, free_pub_packet releases it, and
  check_msg_exp decides whether a message has expired.
\<close>

section \<open>The interface used\<close>

record ('m, 'p) pub_ops = "'m nng_msg_ops" +
  nng_msg_append_u16 :: "u16 \<Rightarrow> 'm \<Rightarrow> 'm option"
  nng_msg_remaining_len :: "'m \<Rightarrow> u32"
  nng_msg_set_remaining_len :: "u32 \<Rightarrow> 'm \<Rightarrow> 'm"
  nng_msg_cmd_type :: "'m \<Rightarrow> cmd_type"
  nng_msg_set_cmd_type :: "cmd_type \<Rightarrow> 'm \<Rightarrow> 'm"
  nng_msg_get_timestamp :: "'m \<Rightarrow> u64"
  put_var_integer :: "u32 \<Rightarrow> bytes"
  copyn_utf8_str :: "bytes \<Rightarrow> u32 \<Rightarrow> nat \<Rightarrow> bytes option \<times> u32 \<times> u32"
  decode_properties :: "'m \<Rightarrow> u32 \<Rightarrow> 'p option \<times> u32 \<times> u32"
  encode_properties :: "'p option \<Rightarrow> 'm \<Rightarrow> 'm option"
  check_properties :: "'p option \<Rightarrow> reason_code"
  has_subscription_identifier :: "'p option \<Rightarrow> bool"
  message_expiry_interval :: "'p option \<Rightarrow> u32 option"
  topic_alias :: "'p option \<Rightarrow> u16 option"
  packet_code :: "packet_name \<Rightarrow> 4 word"
  PROTOCOL_v5 :: u8
  PROTOCOL_v311 :: u8

section \<open>Decoding\<close>

text \<open>
  The outcome None is a read outside the message body (or a write outside the payload
  buffer); otherwise the reason code and the packet as far as it has been filled.
\<close>

definition decode_payload :: "bytes \<Rightarrow> u32 \<Rightarrow> 'p pub_packet_struct \<Rightarrow> (reason_code \<times> 'p pub_packet_struct) option" where
  "decode_payload msg_body pos pkt =
    (let msg_len = length msg_body in
     if unat pos > msg_len then Some (PROTOCOL_ERROR, pkt)
     else let used_pos = pos;
              plen = (word_of_nat (msg_len - unat used_pos) :: u32);
              pkt = pkt\<lparr>pp_payload := (pp_payload pkt)\<lparr>pl_len := plen\<rparr>\<rparr>
          in if plen > 0 then
               if plen + 1 = 0 then None
               else do {
                 data \<leftarrow> read_bytes msg_body (unat pos) (unat plen);
                 Some (SUCCESS, pkt\<lparr>pp_payload := \<lparr> pl_data = Some (data @ [0]), pl_len = plen \<rparr>\<rparr>) }
             else Some (SUCCESS, pkt))"

definition decode_publish ::
  "('m, 'p) pub_ops \<Rightarrow> 'm \<Rightarrow> u8 \<Rightarrow> 'p pub_packet_struct \<Rightarrow> (reason_code \<times> 'p pub_packet_struct) option" where
  "decode_publish N msg proto pkt =
    (let msg_body = nng_msg_body N msg; msg_len = length msg_body; pos = 0 in do {
       first_len \<leftarrow> NNI_GET16 msg_body (unat pos);
       let (body, pos, len) = copyn_utf8_str N msg_body pos msg_len;
       let topic = \<lparr> str_body = body, str_len = len \<rparr>;
       let pkt = pkt\<lparr>pp_var_header := publish (vh_packet_id (pp_var_header pkt)) topic
                    (vh_properties (pp_var_header pkt)) (vh_prop_len (pp_var_header pkt))\<rparr>;
       if len > 0 \<and> body \<noteq> None \<and> (0x2B \<in> set (cstr (the body)) \<or> 0x23 \<in> set (cstr (the body)))
       then Some (PROTOCOL_ERROR, pkt)
       else do {
         (packet_id, pos) \<leftarrow>
           (if fh_qos (pp_fixed_header pkt) > 0 then do {
              i \<leftarrow> NNI_GET16 msg_body (unat pos);
              Some (i, pos + 2) }
            else Some (vh_packet_id (pp_var_header pkt), pos));
         let pkt = pkt\<lparr>pp_var_header := publish packet_id topic
                    (vh_properties (pp_var_header pkt)) (vh_prop_len (pp_var_header pkt))\<rparr>;
         if proto = PROTOCOL_v5 N then
           (let (props, pos, plen) = decode_properties N msg pos;
                pkt = pkt\<lparr>pp_var_header := publish packet_id topic props plen\<rparr>
            in if props \<noteq> None \<and> (check_properties N props \<noteq> SUCCESS \<or> has_subscription_identifier N props)
               then Some (PROTOCOL_ERROR, pkt)
               else decode_payload msg_body pos pkt)
         else decode_payload msg_body pos pkt } })"

definition decode_pub_arrc ::
  "('m, 'p) pub_ops \<Rightarrow> 'm \<Rightarrow> u8 \<Rightarrow> 'p pub_packet_struct \<Rightarrow> (reason_code \<times> 'p pub_packet_struct) option" where
  "decode_pub_arrc N msg proto pkt =
    (let msg_body = nng_msg_body N msg in do {
       packet_id \<leftarrow> NNI_GET16 msg_body 0;
       if proto = PROTOCOL_v5 N then do {
         let pos = 2;
         reason \<leftarrow> (if pos < length msg_body then Some (msg_body ! pos) else None);
         let pos = pos + 1;
         let (props, pos', plen) = decode_properties N msg (word_of_nat pos);
         let pkt = pkt\<lparr>pp_var_header := pub_arrc packet_id reason props plen\<rparr>;
         Some (if check_properties N props \<noteq> SUCCESS then PROTOCOL_ERROR else SUCCESS, pkt) }
       else Some (SUCCESS, pkt\<lparr>pp_var_header := pub_arrc packet_id
              (case pp_var_header pkt of pub_arrc _ r _ _ \<Rightarrow> r | publish _ _ _ _ \<Rightarrow> 0) (vh_properties (pp_var_header pkt)) (vh_prop_len (pp_var_header pkt))\<rparr>) })"

text \<open>
  The source copies a whole struct fixed_header from the header of the message; only its first byte counts,
  since the remaining length is overwritten at once.
\<close>

definition decode_pub_message ::
  "('m, 'p) pub_ops \<Rightarrow> 'm \<Rightarrow> u8 \<Rightarrow> 'p pub_packet_struct \<Rightarrow> (reason_code \<times> 'p pub_packet_struct) option" where
  "decode_pub_message N msg proto pkt = do {
     b \<leftarrow> (case nng_msg_header N msg of [] \<Rightarrow> None | b # _ \<Rightarrow> Some b);
     let pkt = pkt\<lparr>pp_fixed_header := header_of_byte b (nng_msg_remaining_len N msg)\<rparr>;
     let ptype = fh_packet_type (pp_fixed_header pkt);
     if unat (fh_remain_len (pp_fixed_header pkt)) > length (nng_msg_body N msg) then Some (PROTOCOL_ERROR, pkt)
     else if ptype = packet_code N PUBLISH then decode_publish N msg proto pkt
     else if ptype \<in> set (map (packet_code N) [PUBACK, PUBREC, PUBREL, PUBCOMP]) then decode_pub_arrc N msg proto pkt
     else Some (SUCCESS, pkt) }"

section \<open>Encoding\<close>

definition append_bytes_with_type :: "('m, 'p) pub_ops \<Rightarrow> 'm \<Rightarrow> u8 \<Rightarrow> bytes \<Rightarrow> u32 \<Rightarrow> u32 \<times> 'm" where
  "append_bytes_with_type N msg type content len =
    (if len > 0 then
       (let msg = ignoring_rv (nng_msg_append N [type]) msg;
            msg = ignoring_rv (nng_msg_append_u16 N (ucast len)) msg;
            msg = ignoring_rv (nng_msg_append N (take (unat len) content)) msg
        in (0, msg))
     else (1, msg))"

text \<open>The bytes a pointer and a length denote, when the pointer has so many bytes behind it.\<close>

definition buffer :: "bytes option \<Rightarrow> u32 \<Rightarrow> bytes option" where
  "buffer b len = (case b of None \<Rightarrow> None | Some bs \<Rightarrow> read_bytes bs 0 (unat len))"

definition encode_publish ::
  "('m, 'p) pub_ops \<Rightarrow> u8 \<Rightarrow> 'm \<Rightarrow> 'p pub_packet_struct \<Rightarrow> (bool \<times> 'm \<times> 'p pub_packet_struct) option" where
  "encode_publish N proto dest pkt = do {
     let pkt = pkt\<lparr>pp_fixed_header := (pp_fixed_header pkt)\<lparr>fh_packet_type := packet_code N PUBLISH\<rparr>\<rparr>;
     let dest = ignoring_rv (nng_msg_header_append N [header_byte (pp_fixed_header pkt)]) dest;
     let topic = vh_topic_name (pp_var_header pkt);
     dest \<leftarrow> (if str_len topic > 0 then do {
         let dest = ignoring_rv (nng_msg_append_u16 N (ucast (str_len topic))) dest;
         name \<leftarrow> buffer (str_body topic) (str_len topic);
         Some (ignoring_rv (nng_msg_append N name) dest) }
       else Some dest);
     let dest = (if fh_qos (pp_fixed_header pkt) > 0
       then ignoring_rv (nng_msg_append_u16 N (vh_packet_id (pp_var_header pkt))) dest else dest);
     case (if proto = PROTOCOL_v5 N then encode_properties N (vh_properties (pp_var_header pkt)) dest else Some dest) of
       None \<Rightarrow> Some (False, dest, pkt)
     | Some dest \<Rightarrow> do {
         dest \<leftarrow> (if pl_len (pp_payload pkt) > 0 then do {
             data \<leftarrow> buffer (pl_data (pp_payload pkt)) (pl_len (pp_payload pkt));
             Some (ignoring_rv (nng_msg_append N data) dest) }
           else Some dest);
         let remain = word_of_nat (length (nng_msg_body N dest));
         let pkt = pkt\<lparr>pp_fixed_header := (pp_fixed_header pkt)\<lparr>fh_remain_len := remain\<rparr>\<rparr>;
         let dest = ignoring_rv (nng_msg_header_append N (put_var_integer N remain)) dest;
         let dest = nng_msg_set_remaining_len N remain dest;
         Some (True, dest, pkt) } }"

definition encode_pub_response ::
  "('m, 'p) pub_ops \<Rightarrow> packet_name \<Rightarrow> 'm \<Rightarrow> 'p pub_packet_struct \<Rightarrow> 'm" where
  "encode_pub_response N cmd dest pkt =
    (let dest = (if cmd = PUBREL then nng_msg_set_cmd_type N CMD_PUBREL dest else dest);
         dest = (if cmd \<in> {PUBREL, PUBACK} then nng_msg_set_cmd_type N CMD_PUBACK dest else dest);
         dest = (if cmd \<in> {PUBREL, PUBACK, PUBREC} then nng_msg_set_cmd_type N CMD_PUBREC dest else dest);
         dest = nng_msg_set_cmd_type N CMD_PUBCOMP dest;
         hdr = \<lparr> fh_retain = 0, fh_qos = 0, fh_dup = 0, fh_packet_type = packet_code N cmd, fh_remain_len = 2 \<rparr>;
         dest = ignoring_rv (nng_msg_header_append N [header_byte hdr]) dest;
         dest = ignoring_rv (nng_msg_header_append N (put_var_integer N (fh_remain_len hdr))) dest
     in ignoring_rv (nng_msg_append_u16 N (vh_packet_id (pp_var_header pkt))) dest)"

definition encode_pub_message ::
  "('m, 'p) pub_ops \<Rightarrow> 'm \<Rightarrow> 'p pub_packet_struct \<Rightarrow> packet_name \<Rightarrow> (bool \<times> 'm \<times> 'p pub_packet_struct) option" where
  "encode_pub_message N dest pkt cmd =
    (let dest = nng_msg_header_clear N (nng_msg_clear N dest);
         proto = (if nng_msg_cmd_type N dest = CMD_PUBLISH_V5 then PROTOCOL_v5 N
                  else if nng_msg_cmd_type N dest = CMD_PUBLISH then PROTOCOL_v311 N else 0)
     in if cmd = PUBLISH then encode_publish N proto dest pkt
        else if cmd \<in> {PUBREL, PUBACK, PUBREC, PUBCOMP} then Some (True, encode_pub_response N cmd dest pkt, pkt)
        else Some (True, dest, pkt))"

section \<open>Releasing and expiry\<close>

text \<open>What free_pub_packet hands back to the allocator: buffers with their sizes, and the packet.\<close>

datatype 'p release = Buffer bytes u32 | Properties "'p option" | Packet

definition free_pub_packet :: "('m, 'p) pub_ops \<Rightarrow> 'p pub_packet_struct option \<Rightarrow> 'p release list" where
  "free_pub_packet N pub_packet = (case pub_packet of None \<Rightarrow> []
    | Some pkt \<Rightarrow>
       (if fh_packet_type (pp_fixed_header pkt) = packet_code N PUBLISH then
          (let topic = vh_topic_name (pp_var_header pkt) in
           (case str_body topic of None \<Rightarrow> [] | Some b \<Rightarrow>
              if str_len topic > 0 then [Buffer b (str_len topic + 1)] else []))
          @ (if vh_prop_len (pp_var_header pkt) > 0 then [Properties (vh_properties (pp_var_header pkt))] else [])
          @ (case pl_data (pp_payload pkt) of None \<Rightarrow> [] | Some d \<Rightarrow>
              if pl_len (pp_payload pkt) > 0 then [Buffer d (pl_len (pp_payload pkt) + 1)] else [])
        else []) @ [Packet])"

definition check_msg_exp :: "('m, 'p) pub_ops \<Rightarrow> u64 \<Rightarrow> 'm \<Rightarrow> 'p option \<Rightarrow> bool" where
  "check_msg_exp N ntime msg prop =
    (if nng_msg_cmd_type N msg = CMD_PUBLISH_V5 then
       (let rtime = nng_msg_get_timestamp N msg in
        case message_expiry_interval N prop of
          Some v \<Rightarrow> \<not> (ntime > rtime + ucast (v * 1000))
        | None \<Rightarrow> True)
     else True)"

section \<open>Documented behaviour of the library\<close>

text \<open>
  utf8 says which topics the library's reader accepts, penc is the encoding of properties and
  plen the length it reports for them.
\<close>

definition pub_codec_laws ::
  "('m, 'p) pub_ops \<Rightarrow> (bytes \<Rightarrow> bool) \<Rightarrow> ('p option \<Rightarrow> bytes) \<Rightarrow> ('p option \<Rightarrow> u32) \<Rightarrow> bool" where
  "pub_codec_laws N utf8 penc plen \<longleftrightarrow> nng_msg_laws N \<and> nng_msg_memory N \<and>
    (\<forall>u m. \<exists>m'. nng_msg_append_u16 N u m = Some m' \<and> nng_msg_header N m' = nng_msg_header N m \<and>
       nng_msg_body N m' = nng_msg_body N m @ NNI_PUT16 u) \<and>
    (\<forall>n m. nng_msg_header N (nng_msg_set_remaining_len N n m) = nng_msg_header N m \<and>
       nng_msg_body N (nng_msg_set_remaining_len N n m) = nng_msg_body N m \<and>
       nng_msg_remaining_len N (nng_msg_set_remaining_len N n m) = n) \<and>
    (\<forall>c m. nng_msg_header N (nng_msg_set_cmd_type N c m) = nng_msg_header N m \<and>
       nng_msg_body N (nng_msg_set_cmd_type N c m) = nng_msg_body N m \<and>
       nng_msg_cmd_type N (nng_msg_set_cmd_type N c m) = c) \<and>
    (\<forall>m. nng_msg_cmd_type N (nng_msg_header_clear N m) = nng_msg_cmd_type N m \<and>
       nng_msg_cmd_type N (nng_msg_clear N m) = nng_msg_cmd_type N m) \<and>
    (\<forall>t r. utf8 t \<and> t \<noteq> [] \<and> length t < 2 ^ 16 \<longrightarrow>
       copyn_utf8_str N (NNI_PUT16 (word_of_nat (length t)) @ t @ r) 0 (2 + length t + length r)
         = (Some t, word_of_nat (2 + length t), word_of_nat (length t))) \<and>
    (\<forall>p m. \<exists>m'. encode_properties N p m = Some m' \<and> nng_msg_header N m' = nng_msg_header N m \<and>
       nng_msg_body N m' = nng_msg_body N m @ penc p) \<and>
    (\<forall>p m x r. nng_msg_body N m = x @ penc p @ r \<and> length (x @ penc p @ r) < 2 ^ 32 \<longrightarrow> decode_properties N m (word_of_nat (length x))
         = (p, word_of_nat (length x + length (penc p)), plen p))"

definition well_formed_publish ::
  "('m, 'p) pub_ops \<Rightarrow> (bytes \<Rightarrow> bool) \<Rightarrow> ('p option \<Rightarrow> u32) \<Rightarrow> u8 \<Rightarrow> 'p pub_packet_struct \<Rightarrow> bool" where
  "well_formed_publish N utf8 plen proto pkt \<longleftrightarrow>
    (\<exists>i t p l. pp_var_header pkt = publish i \<lparr> str_body = Some t, str_len = word_of_nat (length t) \<rparr> p l \<and>
       utf8 t \<and> t \<noteq> [] \<and> length t < 2 ^ 16 \<and> 0x2B \<notin> set (cstr t) \<and> 0x23 \<notin> set (cstr t) \<and>
       (fh_qos (pp_fixed_header pkt) = 0 \<longrightarrow> i = 0) \<and>
       (if proto = PROTOCOL_v5 N
        then l = plen p \<and> (p \<noteq> None \<longrightarrow> check_properties N p = SUCCESS \<and> \<not> has_subscription_identifier N p)
        else p = None \<and> l = 0)) \<and>
    (pp_payload pkt = \<lparr> pl_data = None, pl_len = 0 \<rparr> \<or>
     (\<exists>d. d \<noteq> [] \<and> length d < 2 ^ 32 - 1 \<and>
        pp_payload pkt = \<lparr> pl_data = Some (d @ [0]), pl_len = word_of_nat (length d) \<rparr>))"

definition wire_proto :: "('m, 'p) pub_ops \<Rightarrow> 'm \<Rightarrow> u8" where
  "wire_proto N m = (if nng_msg_cmd_type N m = CMD_PUBLISH_V5 then PROTOCOL_v5 N
     else if nng_msg_cmd_type N m = CMD_PUBLISH then PROTOCOL_v311 N else 0)"

section \<open>Encoding and decoding\<close>

lemma decode_payload_append:
  assumes "length (x @ d) < 2 ^ 32" "length d < 2 ^ 32 - 1" "pos = word_of_nat (length x)"
  shows "decode_payload (x @ d) pos pkt = Some (SUCCESS, pkt\<lparr>pp_payload :=
     if d = [] then (pp_payload pkt)\<lparr>pl_len := 0\<rparr> else \<lparr> pl_data = Some (d @ [0]), pl_len = word_of_nat (length d) \<rparr>\<rparr>)"
proof (cases "d = []")
  case False
  then show ?thesis
    using assms word_of_nat_Suc_nonzero [of "length d"] word_of_nat_pos [of "length d"]
    by (simp add: decode_payload_def Let_def unat_of_nat read_bytes_def)
qed (use assms in \<open>simp add: decode_payload_def unat_of_nat\<close>)

lemma pub_codec_lawsD:
  assumes "pub_codec_laws N utf8 penc plen"
  shows "nng_msg_laws N" "nng_msg_memory N"
    and "nng_msg_header N (ignoring_rv (nng_msg_append_u16 N u) m) = nng_msg_header N m"
    and "nng_msg_body N (ignoring_rv (nng_msg_append_u16 N u) m) = nng_msg_body N m @ NNI_PUT16 u"
    and "nng_msg_header N (nng_msg_set_remaining_len N n m) = nng_msg_header N m"
    and "nng_msg_body N (nng_msg_set_remaining_len N n m) = nng_msg_body N m"
    and "nng_msg_remaining_len N (nng_msg_set_remaining_len N n m) = n"
    and "nng_msg_header N (nng_msg_set_cmd_type N c m) = nng_msg_header N m"
    and "nng_msg_body N (nng_msg_set_cmd_type N c m) = nng_msg_body N m"
    and "nng_msg_cmd_type N (nng_msg_header_clear N m) = nng_msg_cmd_type N m"
    and "nng_msg_cmd_type N (nng_msg_clear N m) = nng_msg_cmd_type N m"
    and "\<exists>m'. encode_properties N p m = Some m' \<and> nng_msg_header N m' = nng_msg_header N m \<and>
       nng_msg_body N m' = nng_msg_body N m @ penc p"
    and "\<lbrakk>utf8 t; t \<noteq> []; length t < 2 ^ 16\<rbrakk> \<Longrightarrow>
       copyn_utf8_str N (NNI_PUT16 (word_of_nat (length t)) @ t @ r) 0 (2 + length t + length r)
         = (Some t, word_of_nat (2 + length t), word_of_nat (length t))"
    and "nng_msg_body N m = x @ penc p @ r \<Longrightarrow> length (x @ penc p @ r) < 2 ^ 32 \<Longrightarrow>
       decode_properties N m (word_of_nat (length x)) = (p, word_of_nat (length x + length (penc p)), plen p)"
proof -
  note L = assms [unfolded pub_codec_laws_def]
  show "nng_msg_laws N" "nng_msg_memory N"
    using L by simp_all
  obtain m' where "nng_msg_append_u16 N u m = Some m'" "nng_msg_header N m' = nng_msg_header N m"
    "nng_msg_body N m' = nng_msg_body N m @ NNI_PUT16 u"
    using L by blast
  then show "nng_msg_header N (ignoring_rv (nng_msg_append_u16 N u) m) = nng_msg_header N m"
    "nng_msg_body N (ignoring_rv (nng_msg_append_u16 N u) m) = nng_msg_body N m @ NNI_PUT16 u"
    by (simp_all add: ignoring_rv_def)
qed (use assms in \<open>simp add: pub_codec_laws_def\<close>)+

definition publish_body :: "bytes \<Rightarrow> bytes \<Rightarrow> bytes \<Rightarrow> bytes \<Rightarrow> bytes" where
  "publish_body t ids pr d = NNI_PUT16 (word_of_nat (length t)) @ t @ ids @ pr @ d"

lemma encode_publish_bytes:
  assumes L: "pub_codec_laws N utf8 penc plen"
    and v: "pp_var_header pkt = publish i \<lparr> str_body = Some t, str_len = word_of_nat (length t) \<rparr> p l"
    and t: "t \<noteq> []" "length t < 2 ^ 16"
    and d: "(d = [] \<and> pl_len (pp_payload pkt) = 0) \<or>
      (d \<noteq> [] \<and> length d < 2 ^ 32 - 1 \<and> pp_payload pkt = \<lparr> pl_data = Some (d @ [0]), pl_len = word_of_nat (length d) \<rparr>)"
    and e: "nng_msg_header N dest = []" "nng_msg_body N dest = []"
    and B: "B = publish_body t (if fh_qos (pp_fixed_header pkt) > 0 then NNI_PUT16 i else [])
       (if proto = PROTOCOL_v5 N then penc p else []) d"
    and h: "h = (pp_fixed_header pkt)\<lparr>fh_packet_type := packet_code N PUBLISH, fh_remain_len := word_of_nat (length B)\<rparr>"
  shows "\<exists>m. encode_publish N proto dest pkt = Some (True, m, pkt\<lparr>pp_fixed_header := h\<rparr>) \<and>
    nng_msg_header N m = header_byte h # put_var_integer N (word_of_nat (length B)) \<and>
    nng_msg_body N m = B \<and> nng_msg_remaining_len N m = word_of_nat (length B)"
proof -
  have tl: "(0 :: u32) < word_of_nat (length t)" "unat (word_of_nat (length t) :: u32) = length t"
    "ucast (word_of_nat (length t) :: u32) = (word_of_nat (length t) :: u16)"
    using t word_of_nat_pos [of "length t"] by (simp_all add: unat_of_nat unsigned_of_nat take_bit_nat_eq_self)
  note simps = pub_codec_lawsD(3-9) [OF L] ignoring_rv_append [OF pub_codec_lawsD(1,2) [OF L]]
  obtain q where q: "\<And>m. encode_properties N p m = Some (q m)"
    "\<And>m. nng_msg_header N (q m) = nng_msg_header N m"
    "\<And>m. nng_msg_body N (q m) = nng_msg_body N m @ penc p"
    using pub_codec_lawsD(12) [OF L, of p] by metis
  show ?thesis
    using d by (elim disjE conjE; cases "proto = PROTOCOL_v5 N"; cases "fh_qos (pp_fixed_header pkt) > 0")
      (simp_all add: encode_publish_def Let_def v tl buffer_def read_bytes_def q simps e word_of_nat_pos unat_word_of_nat32
        B publish_body_def h add.assoc)
qed

lemma decode_publish_bytes:
  assumes L: "pub_codec_laws N utf8 penc plen"
    and t: "utf8 t" "t \<noteq> []" "length t < 2 ^ 16" "0x2B \<notin> set (cstr t)" "0x23 \<notin> set (cstr t)"
    and d: "length d < 2 ^ 32 - 1"
    and q: "fh_qos (pp_fixed_header pkt) = 0 \<longrightarrow> i = 0"
    and p: "if proto = PROTOCOL_v5 N
       then l = plen p \<and> (p \<noteq> None \<longrightarrow> check_properties N p = SUCCESS \<and> \<not> has_subscription_identifier N p)
       else p = None \<and> l = 0"
    and z: "pp_var_header pkt = publish 0 z None 0"
    and B: "nng_msg_body N m = publish_body t (if fh_qos (pp_fixed_header pkt) > 0 then NNI_PUT16 i else [])
       (if proto = PROTOCOL_v5 N then penc p else []) d" (is "_ = publish_body t ?ids ?pr d")
    and len: "length (nng_msg_body N m) < 2 ^ 32"
  shows "decode_publish N m proto pkt = Some (SUCCESS, pkt
     \<lparr>pp_var_header := publish i \<lparr> str_body = Some t, str_len = word_of_nat (length t) \<rparr> p l,
      pp_payload := if d = [] then (pp_payload pkt)\<lparr>pl_len := 0\<rparr>
        else \<lparr> pl_data = Some (d @ [0]), pl_len = word_of_nat (length d) \<rparr>\<rparr>)"
proof -
  let ?x = "NNI_PUT16 (word_of_nat (length t)) @ t"
  have body: "nng_msg_body N m = ?x @ ?ids @ ?pr @ d"
    by (simp add: B publish_body_def)
  define P1 P2 P3 :: u32 where "P1 = word_of_nat (2 + length t)" and
    "P2 = word_of_nat (length (?x @ ?ids))" and "P3 = word_of_nat (length (?x @ ?ids @ ?pr))"
  have first: "NNI_GET16 (nng_msg_body N m) 0 = Some (word_of_nat (length t))"
    by (simp add: body wire_simps)
  have topic: "copyn_utf8_str N (nng_msg_body N m) 0 (length (nng_msg_body N m)) = (Some t, P1, word_of_nat (length t))"
    using pub_codec_lawsD(13) [OF L t(1-3), of "?ids @ ?pr @ d"] by (simp add: body add.assoc P1_def)
  have "unat P1 = 2 + length t"
    unfolding P1_def using t(3) by (intro unat_word_of_nat32) simp
  then have id1: "NNI_GET16 (nng_msg_body N m) (unat P1) = Some i" "P1 + 2 = P2" if "fh_qos (pp_fixed_header pkt) > 0"
    using that by (simp_all add: body wire_simps P1_def P2_def)
  have id0: "i = 0" "P1 = P2" if "\<not> fh_qos (pp_fixed_header pkt) > 0"
    using that q by (simp_all add: P1_def P2_def word_gt_0)
  have props: "decode_properties N m P2 = (p, P3, plen p)" if "proto = PROTOCOL_v5 N"
    using pub_codec_lawsD(14) [OF L, of m "?x @ ?ids" p d] that len by (simp add: body P2_def P3_def)
  have noprops: "P2 = P3" if "proto \<noteq> PROTOCOL_v5 N"
    using that by (simp add: P2_def P3_def)
  have "nng_msg_body N m = (?x @ ?ids @ ?pr) @ d"
    by (simp add: body)
  then have payload: "decode_payload (nng_msg_body N m) P3 pk = Some (SUCCESS,
     pk\<lparr>pp_payload := if d = [] then (pp_payload pk)\<lparr>pl_len := 0\<rparr>
        else \<lparr> pl_data = Some (d @ [0]), pl_len = word_of_nat (length d) \<rparr>\<rparr>)" for pk :: "'b pub_packet_struct"
    using len by (simp only: decode_payload_append [OF _ d refl] P3_def)
  show ?thesis
    unfolding decode_publish_def Let_def
    using t(4,5) p
    by (cases "proto = PROTOCOL_v5 N"; cases "fh_qos (pp_fixed_header pkt) > 0")
      (auto simp: first topic z id1 id0 props noprops payload)
qed

section \<open>An instance of the interface\<close>

definition list_copyn :: "bytes \<Rightarrow> u32 \<Rightarrow> nat \<Rightarrow> bytes option \<times> u32 \<times> u32" where
  "list_copyn src pos limit = (case NNI_GET16 src (unat pos) of None \<Rightarrow> (None, pos, - 1)
     | Some n \<Rightarrow> (case read_bytes src (unat pos + 2) (unat n) of None \<Rightarrow> (None, pos, - 1)
        | Some t \<Rightarrow> (Some t, pos + 2 + ucast n, ucast n)))"

definition list_pub_ops :: "(bytes \<times> bytes \<times> (u32 \<times> cmd_type), bool) pub_ops" where
  "list_pub_ops = nng_msg_ops.extend (list_msg_ops (0, CMD_PUBLISH))
     \<lparr> nng_msg_append_u16 = (\<lambda>u (h, b, r). Some (h, b @ NNI_PUT16 u, r)),
       nng_msg_remaining_len = (\<lambda>(h, b, n, c). n), nng_msg_set_remaining_len = (\<lambda>n (h, b, _, c). (h, b, n, c)),
       nng_msg_cmd_type = (\<lambda>(h, b, n, c). c), nng_msg_set_cmd_type = (\<lambda>c (h, b, n, _). (h, b, n, c)),
       nng_msg_get_timestamp = (\<lambda>m. 5000), put_var_integer = (\<lambda>n. [ucast n]),
       copyn_utf8_str = list_copyn,
       decode_properties = (\<lambda>(h, b, _) pos. (if b ! unat pos = 0 then None else Some (b ! unat pos = 2), pos + 1, 1)),
       encode_properties = (\<lambda>p (h, b, r). Some (h, b @ [case p of None \<Rightarrow> 0 | Some False \<Rightarrow> 1 | Some True \<Rightarrow> 2], r)),
       check_properties = (\<lambda>p. SUCCESS), has_subscription_identifier = (\<lambda>p. p = Some True),
       message_expiry_interval = (\<lambda>p. if p = Some True then Some 4294968 else None), topic_alias = (\<lambda>p. None),
       packet_code = (\<lambda>c. case c of PUBLISH \<Rightarrow> 3 | PUBACK \<Rightarrow> 4 | PUBREC \<Rightarrow> 5 | PUBREL \<Rightarrow> 6 | PUBCOMP \<Rightarrow> 7 | OTHER_PACKET \<Rightarrow> 0),
       PROTOCOL_v5 = 5, PROTOCOL_v311 = 4 \<rparr>"

lemmas list_pub_simps = list_pub_ops_def nng_msg_ops.defs list_msg_ops_def

definition list_penc :: "bool option \<Rightarrow> bytes" where
  "list_penc p = [case p of None \<Rightarrow> 0 | Some False \<Rightarrow> 1 | Some True \<Rightarrow> 2]"

lemma list_copyn_law:
  assumes "t \<noteq> []" "length t < 2 ^ 16"
  shows "list_copyn (NNI_PUT16 (word_of_nat (length t)) @ t @ r) 0 n
     = (Some t, word_of_nat (2 + length t), word_of_nat (length t))"
  using assms
  by (simp add: list_copyn_def wire_simps unat_of_nat unsigned_of_nat take_bit_nat_eq_self)

lemma list_pub_laws: "pub_codec_laws list_pub_ops (\<lambda>t. True) list_penc (\<lambda>p. 1)"
proof -
  have dec: "decode_properties list_pub_ops (h, x @ list_penc p @ r, y) (word_of_nat (length x))
      = (p, word_of_nat (length x + length (list_penc p)), 1)" if "length (x @ list_penc p @ r) < 2 ^ 32" for h x p r y
    using that by (cases p) (auto simp: list_pub_simps list_penc_def unat_word_of_nat32 nth_append add.commute split: bool.splits)
  have props: "\<forall>p m x r. nng_msg_body list_pub_ops m = x @ list_penc p @ r \<and> length (x @ list_penc p @ r) < 2 ^ 32 \<longrightarrow>
      decode_properties list_pub_ops m (word_of_nat (length x)) = (p, word_of_nat (length x + length (list_penc p)), 1)"
  proof (intro allI impI, elim conjE)
    fix p r x and m :: "bytes \<times> bytes \<times> (u32 \<times> cmd_type)"
    assume "nng_msg_body list_pub_ops m = x @ list_penc p @ r" "length (x @ list_penc p @ r) < 2 ^ 32"
    then show "decode_properties list_pub_ops m (word_of_nat (length x)) = (p, word_of_nat (length x + length (list_penc p)), 1)"
      using dec [of x p r "fst m" "snd (snd m)"] by (cases m) (simp add: list_pub_simps)
  qed
  show ?thesis
    unfolding pub_codec_laws_def
    by (intro conjI props)
      (auto simp: list_pub_simps list_penc_def nng_msg_laws_def nng_msg_memory_def list_copyn_law)
qed

lemma publish_wire_roundtrip:
  assumes L: "pub_codec_laws N utf8 penc plen"
    and wf: "well_formed_publish N utf8 plen (wire_proto N dest) pkt"
  shows "\<exists>m pkt'. encode_pub_message N dest pkt PUBLISH = Some (True, m, pkt') \<and>
    pkt' = pkt\<lparr>pp_fixed_header := (pp_fixed_header pkt)\<lparr>fh_packet_type := packet_code N PUBLISH,
       fh_remain_len := word_of_nat (length (nng_msg_body N m))\<rparr>\<rparr> \<and>
    (length (nng_msg_body N m) < 2 ^ 32 \<longrightarrow>
      decode_pub_message N m (wire_proto N dest) zero_packet = Some (SUCCESS, pkt'))"
proof -
  from wf obtain i t p l where
    v: "pp_var_header pkt = publish i \<lparr> str_body = Some t, str_len = word_of_nat (length t) \<rparr> p l" and
    t: "utf8 t" "t \<noteq> []" "length t < 2 ^ 16" "0x2B \<notin> set (cstr t)" "0x23 \<notin> set (cstr t)" and
    i: "fh_qos (pp_fixed_header pkt) = 0 \<longrightarrow> i = 0" and
    p: "if wire_proto N dest = PROTOCOL_v5 N
        then l = plen p \<and> (p \<noteq> None \<longrightarrow> check_properties N p = SUCCESS \<and> \<not> has_subscription_identifier N p)
        else p = None \<and> l = 0"
    unfolding well_formed_publish_def by blast
  obtain d where d: "length d < 2 ^ 32 - 1" "pp_payload pkt = (if d = [] then \<lparr> pl_data = None, pl_len = 0 \<rparr>
       else \<lparr> pl_data = Some (d @ [0]), pl_len = word_of_nat (length d) \<rparr>)"
  proof -
    have "pp_payload pkt = \<lparr> pl_data = None, pl_len = 0 \<rparr> \<or> (\<exists>d. d \<noteq> [] \<and> length d < 2 ^ 32 - 1 \<and>
        pp_payload pkt = \<lparr> pl_data = Some (d @ [0]), pl_len = word_of_nat (length d) \<rparr>)"
      using wf unfolding well_formed_publish_def by blast
    then show thesis
      using that [of "[]"] that by (elim disjE exE conjE) simp_all
  qed
  let ?m0 = "nng_msg_header_clear N (nng_msg_clear N dest)"
  let ?B = "publish_body t (if fh_qos (pp_fixed_header pkt) > 0 then NNI_PUT16 i else [])
       (if wire_proto N dest = PROTOCOL_v5 N then penc p else []) d"
  let ?h = "(pp_fixed_header pkt)\<lparr>fh_packet_type := packet_code N PUBLISH, fh_remain_len := word_of_nat (length ?B)\<rparr>"
  note N = pub_codec_lawsD(1,2) [OF L]
  have e: "nng_msg_header N ?m0 = []" "nng_msg_body N ?m0 = []" "wire_proto N ?m0 = wire_proto N dest"
    by (simp_all add: nng_msg_lawsD [OF N(1)] wire_proto_def pub_codec_lawsD(10,11) [OF L])
  obtain m where m: "encode_publish N (wire_proto N dest) ?m0 pkt = Some (True, m, pkt\<lparr>pp_fixed_header := ?h\<rparr>)"
    "nng_msg_header N m = header_byte ?h # put_var_integer N (word_of_nat (length ?B))"
    "nng_msg_body N m = ?B" "nng_msg_remaining_len N m = word_of_nat (length ?B)"
    using encode_publish_bytes [OF L v t(2,3) _ e(1,2) refl refl, of d] d by (cases "d = []") auto
  have enc: "encode_pub_message N dest pkt PUBLISH = Some (True, m, pkt\<lparr>pp_fixed_header := ?h\<rparr>)"
    using m(1) e(3) by (simp add: encode_pub_message_def Let_def wire_proto_def)
  moreover have "decode_pub_message N m (wire_proto N dest) zero_packet = Some (SUCCESS, pkt\<lparr>pp_fixed_header := ?h\<rparr>)"
    if len: "length (nng_msg_body N m) < 2 ^ 32"
  proof -
    let ?z = "zero_packet\<lparr>pp_fixed_header := ?h\<rparr>"
    have "decode_pub_message N m (wire_proto N dest) zero_packet = decode_publish N m (wire_proto N dest) ?z"
      using len unat_word_of_nat32 [of "length ?B"] unfolding decode_pub_message_def m
      by (simp add: Let_def m)
    also have "\<dots> = Some (SUCCESS, pkt\<lparr>pp_fixed_header := ?h\<rparr>)"
      using decode_publish_bytes [OF L t d(1) _ p, of ?z i] i m(3) len d(2) v
      by (simp add: zero_packet_def)
    finally show ?thesis .
  qed
  ultimately show ?thesis
    using m(3) by auto
qed

section \<open>Properties\<close>

text \<open>
  C14: A PUBLISH packet survives the wire: encode_pub_message writes a well-formed packet
  (nonempty topic without wildcards, packet id only above QoS 0, properties only for MQTT 5)
  without failing, and decode_pub_message reads back exactly the packet that was written,
  with the type and the remaining length the encoder has filled in.
\<close>
theorem pub_message_roundtrip:
  assumes L: "pub_codec_laws N utf8 penc plen"
    and wf: "well_formed_publish N utf8 plen (wire_proto N dest) pkt"
  shows "\<exists>m pkt'. encode_pub_message N dest pkt PUBLISH = Some (True, m, pkt') \<and>
    pkt' = pkt\<lparr>pp_fixed_header := (pp_fixed_header pkt)\<lparr>fh_packet_type := packet_code N PUBLISH,
       fh_remain_len := word_of_nat (length (nng_msg_body N m))\<rparr>\<rparr> \<and>
    (length (nng_msg_body N m) < 2 ^ 32 \<longrightarrow>
      decode_pub_message N m (wire_proto N dest) zero_packet = Some (SUCCESS, pkt'))"
  by (rule publish_wire_roundtrip [OF L wf])

definition sample_packet :: "bool pub_packet_struct" where
  "sample_packet = \<lparr> pp_fixed_header = \<lparr> fh_retain = 1, fh_qos = 1, fh_dup = 0, fh_packet_type = 0, fh_remain_len = 0 \<rparr>,
     pp_var_header = publish 7 \<lparr> str_body = Some [97, 98], str_len = 2 \<rparr> None 0,
     pp_payload = \<lparr> pl_data = Some ([104, 105] @ [0]), pl_len = 2 \<rparr> \<rparr>"

lemma sample_well_formed:
  "well_formed_publish list_pub_ops (\<lambda>t. True) (\<lambda>p. 1) (wire_proto list_pub_ops ([], [], 0, CMD_PUBLISH)) sample_packet"
  unfolding well_formed_publish_def
  by (intro conjI disjI2 exI [of _ "[104, 105]"] exI [of _ 7] exI [of _ "[97, 98]"] exI [of _ None] exI [of _ 0])
    (simp_all add: sample_packet_def wire_proto_def list_pub_simps cstr_def)

theorem pub_message_roundtrip_witness:
  "\<exists>m pkt'. encode_pub_message list_pub_ops ([], [], 0, CMD_PUBLISH) sample_packet PUBLISH = Some (True, m, pkt') \<and>
    fh_packet_type (pp_fixed_header pkt') = 3 \<and>
    (length (nng_msg_body list_pub_ops m) < 2 ^ 32 \<longrightarrow>
      decode_pub_message list_pub_ops m 4 zero_packet = Some (SUCCESS, pkt'))"
  using pub_message_roundtrip [OF list_pub_laws sample_well_formed]
  by (auto simp: wire_proto_def list_pub_simps)

text \<open>
  C18: The acknowledgements: for PUBREL, PUBACK, PUBREC and PUBCOMP encode_pub_message writes the
  fixed header of exactly that packet type with remaining length two and the packet id as body.
  The command type recorded in the message is CMD_PUBCOMP for all four, because the first
  three cases of the switch fall through.
\<close>
theorem encode_pub_response_correct:
  assumes L: "pub_codec_laws N utf8 penc plen" and c: "cmd \<in> {PUBREL, PUBACK, PUBREC, PUBCOMP}"
    and keep: "\<And>m bs u. nng_msg_cmd_type N (ignoring_rv (nng_msg_header_append N bs) m) = nng_msg_cmd_type N m"
      "\<And>m u. nng_msg_cmd_type N (ignoring_rv (nng_msg_append_u16 N u) m) = nng_msg_cmd_type N m"
      "\<And>m t. nng_msg_cmd_type N (nng_msg_set_cmd_type N t m) = t"
  shows "\<exists>m. encode_pub_message N dest pkt cmd = Some (True, m, pkt) \<and>
    nng_msg_header N m = header_byte \<lparr> fh_retain = 0, fh_qos = 0, fh_dup = 0, fh_packet_type = packet_code N cmd,
       fh_remain_len = 2 \<rparr> # put_var_integer N 2 \<and>
    nng_msg_body N m = NNI_PUT16 (vh_packet_id (pp_var_header pkt)) \<and>
    nng_msg_cmd_type N m = CMD_PUBCOMP"
proof -
  note N = pub_codec_lawsD(1,2) [OF L]
  show ?thesis
    using c by (auto simp: encode_pub_message_def encode_pub_response_def Let_def keep pub_codec_lawsD(3-9) [OF L]
        ignoring_rv_append [OF N] nng_msg_lawsD [OF N(1)])
qed

theorem encode_pub_response_correct_witness:
  "\<exists>m. encode_pub_message list_pub_ops ([], [], 0, CMD_PUBLISH) sample_packet PUBACK = Some (True, m, sample_packet) \<and>
    nng_msg_header list_pub_ops m = [0x40, 2] \<and> nng_msg_body list_pub_ops m = [0, 7] \<and>
    nng_msg_cmd_type list_pub_ops m = CMD_PUBCOMP"
  using encode_pub_response_correct [OF list_pub_laws, of PUBACK "([], [], 0, CMD_PUBLISH)" sample_packet]
  by (auto simp: list_pub_simps ignoring_rv_def header_byte_def sample_packet_def NNI_PUT16_def split: option.splits)

text \<open>
  C19: Message expiry: as long as the interval in milliseconds fits 32 bits and the deadline
  64 bits, check_msg_exp lets an MQTT 5 message through exactly until its receive time plus
  the interval; messages without an interval and messages of other protocols never expire.
\<close>
theorem check_msg_exp_correct:
  assumes "\<And>v. message_expiry_interval N prop = Some v \<Longrightarrow> unat v * 1000 < 2 ^ 32 \<and>
     unat (nng_msg_get_timestamp N msg) + unat v * 1000 < 2 ^ 64"
  shows "check_msg_exp N ntime msg prop \<longleftrightarrow>
    (\<forall>v. nng_msg_cmd_type N msg = CMD_PUBLISH_V5 \<and> message_expiry_interval N prop = Some v \<longrightarrow>
       unat ntime \<le> unat (nng_msg_get_timestamp N msg) + unat v * 1000)"
proof (cases "message_expiry_interval N prop")
  case (Some v)
  have "unat (ucast (v * 1000) :: u64) = unat v * 1000"
    using assms [OF Some] by (simp add: unsigned_ucast_eq unat_word_ariths take_bit_nat_eq_self)
  then have "unat (nng_msg_get_timestamp N msg + ucast (v * 1000)) = unat (nng_msg_get_timestamp N msg) + unat v * 1000"
    using assms [OF Some] by (simp add: unat_word_ariths)
  then show ?thesis
    using Some by (auto simp: check_msg_exp_def word_less_nat_alt)
qed (simp add: check_msg_exp_def)

theorem check_msg_exp_correct_witness:
  "check_msg_exp (list_pub_ops\<lparr>message_expiry_interval := (\<lambda>_. Some 60)\<rparr>) 65000 ([], [], 0, CMD_PUBLISH_V5) None
   \<and> \<not> check_msg_exp (list_pub_ops\<lparr>message_expiry_interval := (\<lambda>_. Some 60)\<rparr>) 65001 ([], [], 0, CMD_PUBLISH_V5) None"
  using check_msg_exp_correct [of "list_pub_ops\<lparr>message_expiry_interval := (\<lambda>_. Some 60)\<rparr>" None "([], [], 0, CMD_PUBLISH_V5)" 65000]
    check_msg_exp_correct [of "list_pub_ops\<lparr>message_expiry_interval := (\<lambda>_. Some 60)\<rparr>" None "([], [], 0, CMD_PUBLISH_V5)" 65001]
  by (simp add: list_pub_simps)

text \<open>
  Beyond that the product of the interval and 1000 wraps at 32 bits before it is widened: a
  message that should live 4294968 seconds is dropped 705 milliseconds after it was received.
\<close>

lemma check_msg_exp_wraps:
  assumes "nng_msg_cmd_type N msg = CMD_PUBLISH_V5" "message_expiry_interval N prop = Some 4294968"
    "unat (nng_msg_get_timestamp N msg) < 2 ^ 63"
  shows "\<not> check_msg_exp N (nng_msg_get_timestamp N msg + 705) msg prop"
  using assms by (simp add: check_msg_exp_def word_less_nat_alt unat_word_ariths)

end
