(* ===== verification/RuleEngine.thy ===== *)
theory RuleEngine
  imports PubCodec
begin

text \<open>
  pub_handler.c, the rule engine: comparing numbers and strings with the values of a rule,
  filtering by fields of a JSON payload, and deciding whether a message matches a rule.
\<close>

section \<open>Comparisons\<close>

datatype rule_cmp_type = RULE_CMP_EQUAL | RULE_CMP_UNEQUAL | RULE_CMP_GREATER | RULE_CMP_LESS
  | RULE_CMP_GREATER_AND_EQUAL | RULE_CMP_LESS_AND_EQUAL | RULE_CMP_OTHER

fun cmp_int :: "int \<Rightarrow> int \<Rightarrow> rule_cmp_type \<Rightarrow> bool" where
  "cmp_int checked seted RULE_CMP_EQUAL = (if checked \<noteq> seted then False else True)"
| "cmp_int checked seted RULE_CMP_UNEQUAL = (if checked = seted then False else True)"
| "cmp_int checked seted RULE_CMP_GREATER = (if checked \<le> seted then False else True)"
| "cmp_int checked seted RULE_CMP_LESS = (if checked \<ge> seted then False else True)"
| "cmp_int checked seted RULE_CMP_GREATER_AND_EQUAL = (if checked < seted then False else True)"
| "cmp_int checked seted RULE_CMP_LESS_AND_EQUAL = (if checked > seted then False else True)"
| "cmp_int checked seted RULE_CMP_OTHER = True"

text \<open>strncmp of two C strings is zero when their first n characters agree.\<close>

definition strncmp_zero :: "bytes \<Rightarrow> bytes \<Rightarrow> nat \<Rightarrow> bool" where
  "strncmp_zero a b n \<longleftrightarrow> take n (cstr a) = take n (cstr b)"

definition cmp_str :: "bytes option \<Rightarrow> nat \<Rightarrow> bytes \<Rightarrow> rule_cmp_type \<Rightarrow> bool" where
  "cmp_str checked len seted type = (case checked of None \<Rightarrow> False
     | Some v \<Rightarrow> (case type of
          RULE_CMP_EQUAL \<Rightarrow> if \<not> strncmp_zero v seted len then False else True
        | RULE_CMP_UNEQUAL \<Rightarrow> if strncmp_zero v seted len then False else True
        | _ \<Rightarrow> True))"

text \<open>atoi for values in the range of int; a word is converted to int the way the call does.\<close>

fun digits_int :: "bytes \<Rightarrow> int \<Rightarrow> int" where
  "digits_int [] n = n"
| "digits_int (c # cs) n = (if 48 \<le> c \<and> c \<le> 57 then digits_int cs (10 * n + (uint c - 48)) else n)"

definition atoi :: "bytes \<Rightarrow> int" where
  "atoi s = (let s = dropWhile (\<lambda>c. c = 32 \<or> 9 \<le> c \<and> c \<le> 13) (cstr s) in
     case s of [] \<Rightarrow> 0
     | c # cs \<Rightarrow> if c = 45 then - digits_int cs 0 else if c = 43 then digits_int cs 0 else digits_int (c # cs) 0)"

definition to_int :: "u64 \<Rightarrow> int" where
  "to_int n = sint (ucast n :: u32)"

section \<open>Payload fields\<close>

datatype json_view = View_number u64 | View_string bytes | View_object | View_other

datatype 'j json_stored = Stored_none | Stored_number u64 | Stored_string bytes | Stored_object 'j

text \<open>The cJSON functions used; a null result is None.\<close>

record 'j cjson_ops =
  cJSON_ParseWithLength :: "bytes \<Rightarrow> 'j option"
  cJSON_Parse :: "bytes option \<Rightarrow> 'j option"
  cJSON_GetObjectItem :: "'j \<Rightarrow> bytes \<Rightarrow> 'j option"
  cJSON_view :: "'j \<Rightarrow> json_view"
  cJSON_Compare :: "'j \<Rightarrow> 'j \<Rightarrow> bool"

record 'j rule_payload =
  rp_psa :: "bytes list"
  rp_filter :: "bytes option"
  rp_cmp_type :: rule_cmp_type
  rp_is_store :: bool
  rp_value :: "'j json_stored"

fun json_path :: "'j cjson_ops \<Rightarrow> 'j option \<Rightarrow> bytes list \<Rightarrow> 'j option" where
  "json_path J jp [] = jp"
| "json_path J jp (k # ks) = (case jp of None \<Rightarrow> None | Some j \<Rightarrow> json_path J (cJSON_GetObjectItem J j k) ks)"

definition payload_field :: "'j cjson_ops \<Rightarrow> 'j \<Rightarrow> 'j rule_payload \<Rightarrow> bool \<times> 'j rule_payload" where
  "payload_field J jp p = (case cJSON_view J jp of
     View_number num \<Rightarrow>
       if rp_filter p \<noteq> None \<and> \<not> cmp_int (to_int num) (atoi (the (rp_filter p))) (rp_cmp_type p) then (False, p)
       else (True, p\<lparr>rp_value := Stored_number num\<rparr>)
   | View_string str \<Rightarrow>
       if rp_filter p \<noteq> None \<and> \<not> cmp_str (Some str) (length (cstr str)) (the (rp_filter p)) (rp_cmp_type p) then (False, p)
       else (True, p\<lparr>rp_value := Stored_string (cstr str)\<rparr>)
   | View_object \<Rightarrow>
      (case cJSON_Parse J (rp_filter p) of
         Some f \<Rightarrow> if \<not> rp_is_store p \<and> \<not> cJSON_Compare J jp f then (True, p) else (True, p\<lparr>rp_value := Stored_object jp\<rparr>)
       | None \<Rightarrow> (True, p\<lparr>rp_value := Stored_object jp\<rparr>))
   | View_other \<Rightarrow> (True, p))"

fun payload_loop :: "'j cjson_ops \<Rightarrow> 'j option \<Rightarrow> bool \<Rightarrow> 'j rule_payload list \<Rightarrow> bool \<times> 'j rule_payload list" where
  "payload_loop J jp_reset flt [] = (flt, [])"
| "payload_loop J jp_reset flt (p # ps) = (case json_path J jp_reset (rp_psa p) of
     None \<Rightarrow> (False, p # ps)
   | Some jp \<Rightarrow>
      if \<not> flt then (False, p # ps)
      else let (flt, p) = payload_field J jp p; (flt, ps) = payload_loop J jp_reset flt ps
           in (flt, p # ps))"

definition payload_filter :: "'j cjson_ops \<Rightarrow> mqtt_payload \<Rightarrow> 'j rule_payload list \<Rightarrow> bool \<times> 'j rule_payload list" where
  "payload_filter J pl ps =
    payload_loop J (cJSON_ParseWithLength J (take (unat (pl_len pl)) (the (pl_data pl)))) True ps"

section \<open>Rules\<close>

datatype rule_field = RULE_QOS | RULE_ID | RULE_TOPIC | RULE_CLIENTID | RULE_USERNAME | RULE_PASSWORD
  | RULE_TIMESTAMP | RULE_PAYLOAD_ALL | RULE_PAYLOAD_FIELD | RULE_NO_FIELD

record 'j rule_info =
  ri_topic :: bytes
  ri_repub_clientid :: "bytes option"
  ri_forward_repub :: bool
  ri_filter :: "bytes option list option"
  ri_cmp_type :: "nat \<Rightarrow> rule_cmp_type"
  ri_payload :: "'j rule_payload list"

record rule_ops =
  topic_filter_matches :: "bytes \<Rightarrow> bytes option \<Rightarrow> bool"
  rule_field_at :: "nat \<Rightarrow> rule_field"
  time_now :: u64

record rule_conn =
  rc_clientid :: "bytes option"
  rc_username :: "bytes option"
  rc_password :: "bytes option"

text \<open>
  The comparison of a connection string takes its length first: None is the strlen of a null
  pointer.
\<close>

definition cmp_conn_str :: "bytes option \<Rightarrow> bytes \<Rightarrow> rule_cmp_type \<Rightarrow> bool option" where
  "cmp_conn_str v seted type = (case v of None \<Rightarrow> None | Some s \<Rightarrow> Some (cmp_str v (length (cstr s)) seted type))"

definition rule_check ::
  "rule_ops \<Rightarrow> 'j cjson_ops \<Rightarrow> 'p pub_packet_struct \<Rightarrow> rule_conn \<Rightarrow> 'j rule_info \<Rightarrow> nat \<Rightarrow> bytes option
    \<Rightarrow> (bool \<times> 'j rule_info) option" where
  "rule_check R J pp cp info j val =
    (let type = ri_cmp_type info j; v = the val;
         topic = str_body (vh_topic_name (pp_var_header pp)); pl = pp_payload pp;
         none = pl_data pl = None \<or> pl_len pl = 0 in
     case rule_field_at R j of
       RULE_QOS \<Rightarrow> Some (cmp_int (uint (fh_qos (pp_fixed_header pp))) (atoi v) type, info)
     | RULE_ID \<Rightarrow> Some (cmp_int (uint (vh_packet_id (pp_var_header pp))) (atoi v) type, info)
     | RULE_TOPIC \<Rightarrow> map_option (\<lambda>b. (b, info)) (cmp_conn_str topic v type)
     | RULE_CLIENTID \<Rightarrow> map_option (\<lambda>b. (b, info)) (cmp_conn_str (rc_clientid cp) v type)
     | RULE_USERNAME \<Rightarrow> map_option (\<lambda>b. (b, info)) (cmp_conn_str (rc_username cp) v type)
     | RULE_PASSWORD \<Rightarrow> map_option (\<lambda>b. (b, info)) (cmp_conn_str (rc_password cp) v type)
     | RULE_TIMESTAMP \<Rightarrow> Some (cmp_int (to_int (time_now R)) (atoi v) type, info)
     | RULE_PAYLOAD_ALL \<Rightarrow>
         if none then Some (False, info)
         else Some (case val of None \<Rightarrow> True | Some s \<Rightarrow> cmp_str (pl_data pl) (unat (pl_len pl)) s type, info)
     | RULE_PAYLOAD_FIELD \<Rightarrow>
         if none then Some (False, info)
         else (let (b, ps) = payload_filter J pl (ri_payload info) in Some (b, info\<lparr>ri_payload := ps\<rparr>))
     | RULE_NO_FIELD \<Rightarrow> Some (True, info))"

text \<open>The loop over the nine fields from j on; entries 0 to 7 have a value in the rule.\<close>

fun rule_loop ::
  "nat list \<Rightarrow> rule_ops \<Rightarrow> 'j cjson_ops \<Rightarrow> 'p pub_packet_struct \<Rightarrow> rule_conn \<Rightarrow> bytes option list \<Rightarrow> 'j rule_info
    \<Rightarrow> (bool \<times> 'j rule_info) option" where
  "rule_loop [] R J pp cp fs info = Some (True, info)"
| "rule_loop (j # js) R J pp cp fs info =
    (let val = (if j < 8 then fs ! j else None) in
     if val \<noteq> None \<or> rule_field_at R j = RULE_PAYLOAD_FIELD then do {
       (b, info) \<leftarrow> rule_check R J pp cp info j val;
       if b = False then Some (False, info) else rule_loop js R J pp cp fs info }
     else rule_loop js R J pp cp fs info)"

definition rule_engine_filter ::
  "rule_ops \<Rightarrow> 'j cjson_ops \<Rightarrow> 'p pub_packet_struct \<Rightarrow> rule_conn \<Rightarrow> 'j rule_info \<Rightarrow> (bool \<times> 'j rule_info) option" where
  "rule_engine_filter R J pp cp info = do {
     own \<leftarrow> (if ri_forward_repub info
        then (case ri_repub_clientid info of None \<Rightarrow> Some False
              | Some c \<Rightarrow> cmp_conn_str (rc_clientid cp) c RULE_CMP_EQUAL)
        else Some False);
     if own then Some (False, info)
     else if topic_filter_matches R (ri_topic info) (str_body (vh_topic_name (pp_var_header pp))) then
       (case ri_filter info of None \<Rightarrow> Some (True, info)
        | Some fs \<Rightarrow> rule_loop [0..<9] R J pp cp fs info)
     else Some (False, info) }"

section \<open>What a rule accepts\<close>

lemma cmp_str_prefix:
  "cmp_str (Some v) (length (cstr v)) s RULE_CMP_EQUAL \<longleftrightarrow> take (length (cstr v)) (cstr s) = cstr v"
  by (auto simp: cmp_str_def strncmp_zero_def)

text \<open>So a string is taken to be equal to every longer setting that it starts.\<close>

lemma cmp_str_accepts_prefix:
  "cmp_str (Some [97, 98]) (length (cstr [97, 98])) [97, 98, 99] RULE_CMP_EQUAL"
  unfolding cmp_str_prefix by (simp add: cstr_def)

text \<open>
  What the code accepts, without the code: numbers are compared by the orders of the integers, strings by
  whether the string of the message is a prefix of the setting, and the other kinds of comparison accept every string.
\<close>

fun compares :: "rule_cmp_type \<Rightarrow> int \<Rightarrow> int \<Rightarrow> bool" where
  "compares RULE_CMP_EQUAL a b \<longleftrightarrow> a = b"
| "compares RULE_CMP_UNEQUAL a b \<longleftrightarrow> a \<noteq> b"
| "compares RULE_CMP_GREATER a b \<longleftrightarrow> b < a"
| "compares RULE_CMP_LESS a b \<longleftrightarrow> a < b"
| "compares RULE_CMP_GREATER_AND_EQUAL a b \<longleftrightarrow> b \<le> a"
| "compares RULE_CMP_LESS_AND_EQUAL a b \<longleftrightarrow> a \<le> b"
| "compares RULE_CMP_OTHER a b \<longleftrightarrow> True"

definition string_ok :: "rule_cmp_type \<Rightarrow> bool \<Rightarrow> bool" where
  "string_ok t same \<longleftrightarrow> (t = RULE_CMP_EQUAL \<longrightarrow> same) \<and> (t = RULE_CMP_UNEQUAL \<longrightarrow> \<not> same)"

definition starts :: "bytes \<Rightarrow> bytes \<Rightarrow> bool" where
  "starts v s \<longleftrightarrow> (\<exists>r. cstr s = cstr v @ r)"

definition field_holds ::
  "rule_ops \<Rightarrow> 'p pub_packet_struct \<Rightarrow> rule_conn \<Rightarrow> 'j rule_info \<Rightarrow> nat \<Rightarrow> bytes \<Rightarrow> bool" where
  "field_holds R pp cp info j v \<longleftrightarrow>
    (let t = ri_cmp_type info j; str = (\<lambda>s. \<exists>x. s = Some x \<and> string_ok t (starts x v)); pl = pp_payload pp in
     case rule_field_at R j of
       RULE_QOS \<Rightarrow> compares t (uint (fh_qos (pp_fixed_header pp))) (atoi v)
     | RULE_ID \<Rightarrow> compares t (uint (vh_packet_id (pp_var_header pp))) (atoi v)
     | RULE_TOPIC \<Rightarrow> str (str_body (vh_topic_name (pp_var_header pp)))
     | RULE_CLIENTID \<Rightarrow> str (rc_clientid cp)
     | RULE_USERNAME \<Rightarrow> str (rc_username cp)
     | RULE_PASSWORD \<Rightarrow> str (rc_password cp)
     | RULE_TIMESTAMP \<Rightarrow> compares t (to_int (time_now R)) (atoi v)
     | RULE_PAYLOAD_ALL \<Rightarrow> pl_len pl \<noteq> 0 \<and>
         (\<exists>x. pl_data pl = Some x \<and> string_ok t (take (unat (pl_len pl)) (cstr x) = take (unat (pl_len pl)) (cstr v)))
     | _ \<Rightarrow> True)"

text \<open>
  A field of the payload: the value its path leads to in the parsed payload.  A number is compared by
  size, a string by prefix; an object and every other value is accepted, whatever the setting.
\<close>

definition value_at :: "'j cjson_ops \<Rightarrow> 'j option \<Rightarrow> bytes list \<Rightarrow> 'j option" where
  "value_at J doc path = foldl (\<lambda>j k. Option.bind j (\<lambda>x. cJSON_GetObjectItem J x k)) doc path"

definition value_holds :: "'j cjson_ops \<Rightarrow> 'j rule_payload \<Rightarrow> 'j \<Rightarrow> bool" where
  "value_holds J p x \<longleftrightarrow> (\<forall>f. rp_filter p = Some f \<longrightarrow>
     (\<forall>n. cJSON_view J x = View_number n \<longrightarrow> compares (rp_cmp_type p) (to_int n) (atoi f)) \<and>
     (\<forall>s. cJSON_view J x = View_string s \<longrightarrow> string_ok (rp_cmp_type p) (starts s f)))"

definition payload_holds :: "'j cjson_ops \<Rightarrow> 'p pub_packet_struct \<Rightarrow> 'j rule_info \<Rightarrow> bool" where
  "payload_holds J pp info \<longleftrightarrow> pl_len (pp_payload pp) \<noteq> 0 \<and> (\<exists>d. pl_data (pp_payload pp) = Some d \<and>
     (\<forall>p \<in> set (ri_payload info). \<exists>x.
        value_at J (cJSON_ParseWithLength J (take (unat (pl_len (pp_payload pp))) d)) (rp_psa p) = Some x \<and> value_holds J p x))"

lemma cmp_int_compares: "cmp_int a b t = compares t a b"
  by (cases t) auto

lemma cmp_str_ok: "cmp_str (Some v) n s t = string_ok t (take n (cstr v) = take n (cstr s))"
  by (cases t) (simp_all add: cmp_str_def strncmp_zero_def string_ok_def)

lemma starts_take: "cstr v = take (length (cstr v)) (cstr s) \<longleftrightarrow> starts v s"
  by (auto simp: starts_def) (metis append_take_drop_id)

lemma json_path_value: "json_path J doc path = value_at J doc path"
proof (induction path arbitrary: doc)
  case (Cons k ks)
  have "foldl (\<lambda>j k. Option.bind j (\<lambda>x. cJSON_GetObjectItem J x k)) None ks = None" by (induction ks) simp_all
  then show ?case using Cons by (cases doc) (simp_all add: value_at_def)
qed (simp add: value_at_def)

lemma payload_field_holds: "fst (payload_field J x p) = value_holds J p x"
  by (auto simp: payload_field_def value_holds_def cmp_int_compares cmp_str_ok starts_take split: json_view.split option.split)

lemma payload_loop_rejects: "\<not> fst (payload_loop J doc False ps)"
  by (cases ps) (simp_all split: option.split)

lemma payload_loop_holds:
  "fst (payload_loop J doc True ps) = (\<forall>p \<in> set ps. \<exists>x. value_at J doc (rp_psa p) = Some x \<and> value_holds J p x)"
proof (induction ps)
  case (Cons p ps)
  show ?case
  proof (cases "value_at J doc (rp_psa p)")
    case (Some x)
    then show ?thesis
      using Cons payload_field_holds [of J x p] payload_loop_rejects [of J doc ps]
      by (cases "fst (payload_field J x p)") (simp_all add: json_path_value split_beta)
  qed (simp add: json_path_value)
qed simp

text \<open>The client has sent every string a rule may ask for, and field 8 alone is the payload fields.\<close>

definition rule_setup :: "rule_ops \<Rightarrow> 'p pub_packet_struct \<Rightarrow> rule_conn \<Rightarrow> bool" where
  "rule_setup R pp cp \<longleftrightarrow> rc_clientid cp \<noteq> None \<and> rc_username cp \<noteq> None \<and> rc_password cp \<noteq> None \<and>
     str_body (vh_topic_name (pp_var_header pp)) \<noteq> None \<and> (\<forall>j < 9. rule_field_at R j = RULE_PAYLOAD_FIELD \<longleftrightarrow> j = 8)"

lemma rule_check_field:
  assumes "rule_setup R pp cp" "j < 8"
  shows "rule_check R J pp cp info j (Some v) = Some (field_holds R pp cp info j v, info)"
  using assms
  by (auto simp: rule_check_def field_holds_def rule_setup_def cmp_conn_str_def Let_def cmp_int_compares cmp_str_ok starts_take
      split: rule_field.splits)

lemma rule_check_payload:
  assumes "rule_field_at R j = RULE_PAYLOAD_FIELD"
  shows "\<exists>info'. rule_check R J pp cp info j v = Some (payload_holds J pp info, info')"
  using assms payload_loop_holds [of J _ "ri_payload info"]
  by (auto simp: rule_check_def payload_holds_def payload_filter_def Let_def split_beta)

lemma rule_loop_fields:
  assumes "rule_setup R pp cp" "\<forall>j \<in> set js. j < 8"
  shows "rule_loop (js @ ks) R J pp cp fs info =
    (if \<forall>j \<in> set js. \<forall>v. fs ! j = Some v \<longrightarrow> field_holds R pp cp info j v
     then rule_loop ks R J pp cp fs info else Some (False, info))"
  using assms(2)
proof (induction js)
  case (Cons j js)
  then show ?case
    using assms(1) by (auto simp: Let_def rule_check_field [OF assms(1)] rule_setup_def)
qed simp

section \<open>Properties\<close>


definition prefix_json :: "bytes cjson_ops" where
  "prefix_json = \<lparr> cJSON_ParseWithLength = Some, cJSON_Parse = (\<lambda>s. s),
     cJSON_GetObjectItem = (\<lambda>j k. if take (length k) j = k then Some (drop (length k) j) else None),
     cJSON_view = View_string, cJSON_Compare = (=) \<rparr>"

definition sample_rules :: rule_ops where
  "sample_rules = \<lparr> topic_filter_matches = (\<lambda>f t. t = Some f),
     rule_field_at = (\<lambda>j. [RULE_QOS, RULE_ID, RULE_TOPIC, RULE_CLIENTID, RULE_USERNAME, RULE_PASSWORD,
       RULE_TIMESTAMP, RULE_PAYLOAD_ALL, RULE_PAYLOAD_FIELD] ! j), time_now = 0 \<rparr>"

definition sample_rule :: "bytes rule_info" where
  "sample_rule = \<lparr> ri_topic = [97, 98], ri_repub_clientid = None, ri_forward_repub = False,
     ri_filter = Some (Some [49] # replicate 7 None), ri_cmp_type = (\<lambda>_. RULE_CMP_EQUAL),
     ri_payload = [\<lparr> rp_psa = [[104]], rp_filter = Some [105], rp_cmp_type = RULE_CMP_EQUAL, rp_is_store = False,
       rp_value = Stored_none \<rparr>] \<rparr>"


end
