(* ===== verification/SubHandler.thy ===== *)
theory SubHandler
  imports PubCodec
begin

text \<open>
  sub_handler.c: decoding a SUBSCRIBE into topic nodes, answering it with a SUBACK, entering
  the topics into the subscription tables with their retained messages, and removing them.
\<close>

section \<open>Interface and state\<close>

text \<open>
  The options byte of a topic node is read through the accessors of its bit fields.  copy_utf8_str
  returns the copied string (None for a null pointer), the new position and the length.
\<close>

record ('m, 'p) sub_ops = "('m, 'p) pub_ops" +
  nng_msg_payload :: "'m \<Rightarrow> bytes"
  copy_utf8_str :: "bytes \<Rightarrow> u32 \<Rightarrow> bytes option \<times> u32 \<times> u32"
  opt_qos :: "u8 \<Rightarrow> nat"
  opt_no_local :: "u8 \<Rightarrow> bool"
  opt_retain_handling :: "u8 \<Rightarrow> nat"
  reason_byte :: "reason_code \<Rightarrow> u8"
  cmd_byte :: "cmd_type \<Rightarrow> u8"
  MQTT_VERSION_V5 :: u8
  node_alloc :: "nat \<Rightarrow> bool"

record topic_node =
  tn_options :: u8
  tn_reason_code :: reason_code
  tn_topic :: mqtt_string

record 'p packet_subscribe =
  sp_packet_id :: u16
  sp_properties :: "'p option"
  sp_prop_len :: u32
  sp_node :: "topic_node list"

text \<open>The outcome of a loop over a message: a value, an access out of bounds, or out of fuel.\<close>

datatype 'a outcome = Ret 'a | Fault | Out_of_fuel

section \<open>decode_sub_msg\<close>

definition share_prefix :: bytes where
  "share_prefix = map of_char ''$share/''"

text \<open>bpos and vpos are ints compared with size_t values, so they are sign extended.\<close>

definition more_topics :: "u32 \<Rightarrow> u64 \<Rightarrow> u32 \<Rightarrow> bool" where
  "more_topics bpos remaining_len vpos = (scast bpos < remaining_len - scast vpos)"

definition zero_node :: topic_node where
  "zero_node = \<lparr> tn_options = 0, tn_reason_code = SUCCESS, tn_topic = \<lparr> str_body = None, str_len = 0 \<rparr> \<rparr>"

text \<open>One topic: the node, the new position, and whether decoding stops with a protocol error.\<close>

definition decode_sub_topic ::
  "('m, 'p) sub_ops \<Rightarrow> u8 \<Rightarrow> bytes \<Rightarrow> u32 \<Rightarrow> (topic_node \<times> u32 \<times> bool) option" where
  "decode_sub_topic N proto_ver payload bpos =
    (let tn = zero_node\<lparr>tn_reason_code := GRANTED_QOS_2\<rparr>;
         (body, bpos, len) = copy_utf8_str N payload bpos;
         tn = tn\<lparr>tn_topic := \<lparr> str_body = body, str_len = len \<rparr>\<rparr>
     in if len < 1 \<or> body = None then
          Some (tn\<lparr>tn_reason_code := if proto_ver = PROTOCOL_v5 N then TOPIC_FILTER_INVALID else UNSPECIFIED_ERROR\<rparr>,
                bpos + 1, False)
        else do {
          b \<leftarrow> (if unat bpos < length payload then Some (payload ! unat bpos) else None);
          let tn = tn\<lparr>tn_options := b\<rparr>;
          if opt_retain_handling N b > 2 then Some (tn\<lparr>tn_reason_code := UNSPECIFIED_ERROR\<rparr>, bpos, True)
          else let bpos = bpos + 1 in
            if proto_ver = MQTT_VERSION_V5 N \<and> take (length share_prefix) (cstr (the body)) = share_prefix \<and> opt_no_local N b
            then Some (tn\<lparr>tn_reason_code := UNSPECIFIED_ERROR\<rparr>, bpos, True)
            else Some (tn, bpos, False) })"

fun decode_sub_loop ::
  "nat \<Rightarrow> ('m, 'p) sub_ops \<Rightarrow> u8 \<Rightarrow> bytes \<Rightarrow> u64 \<Rightarrow> u32 \<Rightarrow> u32 \<Rightarrow> topic_node list \<Rightarrow> (reason_code \<times> topic_node list) outcome" where
  "decode_sub_loop 0 N proto_ver payload remaining_len vpos bpos nodes = Out_of_fuel"
| "decode_sub_loop (Suc fuel) N proto_ver payload remaining_len vpos bpos nodes =
    (case decode_sub_topic N proto_ver payload bpos of
       None \<Rightarrow> Fault
     | Some (tn, bpos, stop) \<Rightarrow>
        if stop then Ret (PROTOCOL_ERROR, nodes @ [tn])
        else if more_topics bpos remaining_len vpos then
          if \<not> node_alloc N (Suc (length nodes)) then Ret (NNG_ENOMEM, nodes @ [tn])
          else decode_sub_loop fuel N proto_ver payload remaining_len vpos bpos (nodes @ [tn])
        else Ret (SUCCESS, nodes @ [tn]))"

definition decode_sub_msg ::
  "nat \<Rightarrow> ('m, 'p) sub_ops \<Rightarrow> 'm \<Rightarrow> u8 \<Rightarrow> (reason_code \<times> 'p packet_subscribe) outcome" where
  "decode_sub_msg fuel N msg proto_ver = (case NNI_GET16 (nng_msg_body N msg) 0 of
     None \<Rightarrow> Fault
   | Some packet_id \<Rightarrow>
      (let pkt = \<lparr> sp_packet_id = packet_id, sp_properties = None, sp_prop_len = 0, sp_node = [] \<rparr> in
       if packet_id = 0 then Ret (PROTOCOL_ERROR, pkt)
       else let vpos = 2;
                (props, vpos, plen) = (if proto_ver = PROTOCOL_v5 N then decode_properties N msg vpos else (None, vpos, 0));
                pkt = pkt\<lparr>sp_properties := props, sp_prop_len := plen\<rparr>
            in if proto_ver = PROTOCOL_v5 N \<and> check_properties N props \<noteq> SUCCESS then Ret (PROTOCOL_ERROR, pkt)
               else if \<not> node_alloc N 0 then Ret (NNG_ENOMEM, pkt)
               else case decode_sub_loop fuel N proto_ver (nng_msg_payload N msg)
                           (ucast (nng_msg_remaining_len N msg)) vpos 0 [] of
                 Ret (r, nodes) \<Rightarrow> Ret (r, pkt\<lparr>sp_node := nodes\<rparr>)
               | Fault \<Rightarrow> Fault | Out_of_fuel \<Rightarrow> Out_of_fuel))"

section \<open>encode_suback_msg\<close>

text \<open>
  The appends are checked: the first one that fails ends the encoder, and the message stays as
  far as it has been built.
\<close>

definition append_step :: "('m \<Rightarrow> 'm option) \<Rightarrow> bool \<times> 'm \<Rightarrow> bool \<times> 'm" where
  "append_step f = (\<lambda>(ok, msg). if ok then (case f msg of None \<Rightarrow> (False, msg) | Some msg' \<Rightarrow> (True, msg')) else (False, msg))"

fun append_reasons :: "('m, 'p) sub_ops \<Rightarrow> topic_node list \<Rightarrow> bool \<times> 'm \<Rightarrow> bool \<times> 'm" where
  "append_reasons N [] s = s"
| "append_reasons N (tn # tns) s = append_reasons N tns (append_step (nng_msg_append N [reason_byte N (tn_reason_code tn)]) s)"

definition encode_suback_msg ::
  "('m, 'p) sub_ops \<Rightarrow> u8 \<Rightarrow> 'p packet_subscribe option \<Rightarrow> 'm \<Rightarrow> (reason_code \<times> 'm)" where
  "encode_suback_msg N proto_ver sub_pkt msg =
    (let msg = nng_msg_clear N (nng_msg_header_clear N msg) in
     case sub_pkt of None \<Rightarrow> (CODE (- 1), msg)
     | Some pkt \<Rightarrow>
      (let s = append_step (nng_msg_append N (NNI_PUT16 (sp_packet_id pkt))) (True, msg);
           s = (if fst s \<and> proto_ver = PROTOCOL_v5 N then (True, ignoring_rv (encode_properties N None) (snd s)) else s);
           s = (if sp_packet_id pkt = 0 then append_step (nng_msg_append N [reason_byte N PACKET_IDENTIFIER_IN_USE]) s else s);
           s = append_reasons N (sp_node pkt) s;
           s = (if sp_node pkt = [] \<and> sp_packet_id pkt \<noteq> 0 then append_step (nng_msg_append N [reason_byte N UNSPECIFIED_ERROR]) s
                else s);
           s = append_step (nng_msg_header_append N [cmd_byte N CMD_SUBACK]) s;
           s = append_step (\<lambda>m. nng_msg_header_append N (put_var_integer N (word_of_nat (length (nng_msg_body N m)))) m) s
       in (if fst s then SUCCESS else PROTOCOL_ERROR, snd s)))"

section \<open>Subscription tables\<close>

text \<open>
  The tables of nanolib: the subscription tree 'd, the topics of each pipe 'h and the retained
  messages 'r.  dbtree_find_retain returns a vector of pointers (None for a null vector); an
  element is None for a null pointer.
\<close>

record ('m, 'd, 'h, 'r) subdb_ops =
  dbhash_check_topic :: "u32 \<Rightarrow> bytes \<Rightarrow> 'h \<Rightarrow> bool"
  dbhash_insert_topic :: "u32 \<Rightarrow> bytes \<Rightarrow> nat \<Rightarrow> 'h \<Rightarrow> 'h"
  dbhash_del_topic :: "u32 \<Rightarrow> bytes \<Rightarrow> 'h \<Rightarrow> 'h"
  dbhash_del_topic_queue :: "u32 \<Rightarrow> 'h \<Rightarrow> bytes list \<times> 'h"
  dbtree_insert_client :: "bytes \<Rightarrow> u32 \<Rightarrow> 'd \<Rightarrow> 'd"
  dbtree_delete_client :: "bytes \<Rightarrow> u32 \<Rightarrow> 'd \<Rightarrow> 'd"
  dbtree_find_retain :: "bytes \<Rightarrow> 'r \<Rightarrow> 'm option list option"

record ('m, 'd, 'h, 'r) sub_work =
  sw_pid :: u32
  sw_db :: 'd
  sw_dbhash :: 'h
  sw_db_ret :: 'r
  sw_msg_ret :: "'m list"

text \<open>
  The local variable r of sub_ctx_handle: a null pointer, a live vector, or the address of a
  vector that cvector_free has released.
\<close>

datatype 'm retain_ptr = Null | Vector "'m option list" | Released

text \<open>One round of the loop over the topic nodes; None is a use of the released vector.\<close>

definition sub_ctx_topic ::
  "('m, 'p) sub_ops \<Rightarrow> ('m, 'd, 'h, 'r) subdb_ops \<Rightarrow> topic_node \<Rightarrow> 'm retain_ptr
    \<Rightarrow> ('m, 'd, 'h, 'r) sub_work \<Rightarrow> ('m retain_ptr \<times> ('m, 'd, 'h, 'r) sub_work) option" where
  "sub_ctx_topic N D tn r w = (case str_body (tn_topic tn) of
     None \<Rightarrow> Some (r, w)
   | Some body \<Rightarrow>
      (let topic_str = cstr body;
           topic_exist = dbhash_check_topic D (sw_pid w) topic_str (sw_dbhash w);
           w = (if \<not> topic_exist
                then w\<lparr>sw_db := dbtree_insert_client D topic_str (sw_pid w) (sw_db w),
                       sw_dbhash := dbhash_insert_topic D (sw_pid w) topic_str (opt_qos N (tn_options tn)) (sw_dbhash w)\<rparr>
                else w);
           rh = opt_retain_handling N (tn_options tn);
           r = (if rh = 0 \<or> rh = 1 \<and> \<not> topic_exist
                then case dbtree_find_retain D topic_str (sw_db_ret w) of None \<Rightarrow> Null | Some v \<Rightarrow> Vector v
                else r)
       in case r of
            Null \<Rightarrow> Some (r, w)
          | Released \<Rightarrow> None
          | Vector v \<Rightarrow> Some (Released,
              w\<lparr>sw_msg_ret := sw_msg_ret w @ map the (filter (\<lambda>m. m \<noteq> None) v)\<rparr>)))"

fun sub_ctx_loop ::
  "('m, 'p) sub_ops \<Rightarrow> ('m, 'd, 'h, 'r) subdb_ops \<Rightarrow> topic_node list \<Rightarrow> 'm retain_ptr
    \<Rightarrow> ('m, 'd, 'h, 'r) sub_work \<Rightarrow> ('m, 'd, 'h, 'r) sub_work option" where
  "sub_ctx_loop N D [] r w = Some w"
| "sub_ctx_loop N D (tn # tns) r w = do {
     (r, w) \<leftarrow> sub_ctx_topic N D tn r w;
     sub_ctx_loop N D tns r w }"

definition sub_ctx_handle ::
  "('m, 'p) sub_ops \<Rightarrow> ('m, 'd, 'h, 'r) subdb_ops \<Rightarrow> 'p packet_subscribe option
    \<Rightarrow> ('m, 'd, 'h, 'r) sub_work \<Rightarrow> (int \<times> ('m, 'd, 'h, 'r) sub_work) option" where
  "sub_ctx_handle N D sub_pkt w = (case sub_pkt of
     None \<Rightarrow> Some (- 1, w)
   | Some pkt \<Rightarrow>
      if sp_node pkt = [] then Some (- 1, w)
      else if sp_packet_id pkt = 0 then Some (- 2, w)
      else map_option (\<lambda>w. (0, w)) (sub_ctx_loop N D (sp_node pkt) Null w))"

definition sub_ctx_del ::
  "('m, 'd, 'h, 'r) subdb_ops \<Rightarrow> bytes \<Rightarrow> u32 \<Rightarrow> ('m, 'd, 'h, 'r) sub_work \<Rightarrow> int \<times> ('m, 'd, 'h, 'r) sub_work" where
  "sub_ctx_del D topic pid w =
    (let w = w\<lparr>sw_db := dbtree_delete_client D topic pid (sw_db w)\<rparr>;
         w = w\<lparr>sw_dbhash := dbhash_del_topic D pid topic (sw_dbhash w)\<rparr>
     in (0, w))"

definition destroy_sub_client_cb ::
  "('m, 'd, 'h, 'r) subdb_ops \<Rightarrow> u32 \<Rightarrow> bytes \<Rightarrow> ('m, 'd, 'h, 'r) sub_work \<Rightarrow> ('m, 'd, 'h, 'r) sub_work" where
  "destroy_sub_client_cb D pid topic w = w\<lparr>sw_db := dbtree_delete_client D topic pid (sw_db w)\<rparr>"

definition destroy_sub_client ::
  "('m, 'd, 'h, 'r) subdb_ops \<Rightarrow> u32 \<Rightarrow> ('m, 'd, 'h, 'r) sub_work \<Rightarrow> ('m, 'd, 'h, 'r) sub_work" where
  "destroy_sub_client D pid w =
    (let (topics, h) = dbhash_del_topic_queue D pid (sw_dbhash w)
     in fold (destroy_sub_client_cb D pid) topics (w\<lparr>sw_dbhash := h\<rparr>))"

text \<open>What sub_pkt_free returns to the allocator.\<close>

datatype 'p sub_release = Topic_body "bytes option" u32 | Topic_node | Sub_properties "'p option" | Sub_packet

definition sub_pkt_free :: "'p packet_subscribe option \<Rightarrow> 'p sub_release list" where
  "sub_pkt_free sub_pkt = (case sub_pkt of None \<Rightarrow> []
    | Some pkt \<Rightarrow> concat (map (\<lambda>tn. [Topic_body (str_body (tn_topic tn)) (str_len (tn_topic tn)), Topic_node]) (sp_node pkt))
        @ (if sp_prop_len pkt > 0 then [Sub_properties (sp_properties pkt)] else []) @ [Sub_packet])"

section \<open>Decoding a well-formed SUBSCRIBE\<close>

definition topic_bytes :: "bytes \<times> u8 \<Rightarrow> bytes" where
  "topic_bytes = (\<lambda>(t, opt). NNI_PUT16 (word_of_nat (length t)) @ t @ [opt])"

definition topic_ok :: "('m, 'p) sub_ops \<Rightarrow> (bytes \<Rightarrow> bool) \<Rightarrow> u8 \<Rightarrow> bytes \<times> u8 \<Rightarrow> bool" where
  "topic_ok N utf8 proto_ver = (\<lambda>(t, opt). utf8 t \<and> t \<noteq> [] \<and> length t < 2 ^ 16 \<and> opt_retain_handling N opt \<le> 2 \<and>
     \<not> (proto_ver = MQTT_VERSION_V5 N \<and> take (length share_prefix) (cstr t) = share_prefix \<and> opt_no_local N opt))"

definition granted_node :: "bytes \<times> u8 \<Rightarrow> topic_node" where
  "granted_node = (\<lambda>(t, opt). \<lparr> tn_options = opt, tn_reason_code = GRANTED_QOS_2,
     tn_topic = \<lparr> str_body = Some t, str_len = word_of_nat (length t) \<rparr> \<rparr>)"

text \<open>Documented behaviour of copy_utf8_str on a length-prefixed valid string.\<close>

definition utf8_laws :: "('m, 'p) sub_ops \<Rightarrow> (bytes \<Rightarrow> bool) \<Rightarrow> bool" where
  "utf8_laws N utf8 \<longleftrightarrow> (\<forall>x t r. utf8 t \<and> length t < 2 ^ 16 \<and> length x + 2 + length t < 2 ^ 32 \<longrightarrow>
     copy_utf8_str N (x @ NNI_PUT16 (word_of_nat (length t)) @ t @ r) (word_of_nat (length x))
       = (Some t, word_of_nat (length x + 2 + length t), word_of_nat (length t)))"

lemma decode_sub_topic_ok:
  assumes U: "utf8_laws N utf8" and ok: "topic_ok N utf8 pv (t, opt)"
    and len: "length x + 3 + length t < 2 ^ 32"
  shows "decode_sub_topic N pv (x @ topic_bytes (t, opt) @ r) (word_of_nat (length x))
    = Some (granted_node (t, opt), word_of_nat (length (x @ topic_bytes (t, opt))), False)"
proof -
  have t: "utf8 t" "length t < 2 ^ 16" "t \<noteq> []"
    using ok by (auto simp: topic_ok_def)
  define B p1 p2 L where "B = x @ topic_bytes (t, opt) @ r" and "p1 = (word_of_nat (length x + 2 + length t) :: u32)"
    and "p2 = (word_of_nat (length (x @ topic_bytes (t, opt))) :: u32)" and "L = (word_of_nat (length t) :: u32)"
  have cp: "copy_utf8_str N B (word_of_nat (length x)) = (Some t, p1, L)"
    using U [unfolded utf8_laws_def, rule_format, of t x "opt # r"] t len
    by (simp add: topic_bytes_def B_def p1_def L_def)
  have pos: "\<not> L < 1"
    using t by (simp add: word_less_nat_alt unat_of_nat Suc_le_eq L_def)
  have "unat p1 = length x + 2 + length t"
    using len unfolding p1_def by (intro unat_word_of_nat32) simp
  then have at: "unat p1 < length B" "B ! unat p1 = opt"
    by (simp_all add: B_def topic_bytes_def nth_append)
  have next_pos: "p1 + 1 = p2"
    by (simp add: topic_bytes_def algebra_simps p1_def p2_def)
  have node: "granted_node (t, opt) = zero_node\<lparr>tn_reason_code := GRANTED_QOS_2,
      tn_topic := \<lparr> str_body = Some t, str_len = L \<rparr>, tn_options := opt\<rparr>"
    by (simp add: granted_node_def zero_node_def L_def)
  have "decode_sub_topic N pv B (word_of_nat (length x)) = Some (granted_node (t, opt), p2, False)"
    using ok pos unfolding decode_sub_topic_def Let_def cp node
    by (auto simp: at next_pos topic_ok_def)
  then show ?thesis by (simp add: B_def p2_def)
qed

lemma more_topics_iff:
  assumes "n < 2 ^ 31" "v < 2 ^ 31" "m < 2 ^ 32" "v \<le> m"
  shows "more_topics (word_of_nat n) (word_of_nat m) (word_of_nat v) \<longleftrightarrow> n < m - v"
proof -
  have s: "scast (word_of_nat k :: u32) = (word_of_nat k :: u64)" if "k < 2 ^ 31" for k
    using that by (simp add: signed_of_nat signed_take_bit_eq_if_positive bit_iff_odd take_bit_int_eq_self)
  have "unat (word_of_nat m - word_of_nat v :: u64) = m - v"
    using assms by (simp add: unat_sub_if' unat_of_nat word_le_nat_alt)
  then show ?thesis
    using assms s by (simp add: more_topics_def word_less_nat_alt unat_of_nat)
qed

lemma length_topic_bytes: "length (topic_bytes (t, opt)) = length t + 3"
  by (simp add: topic_bytes_def)

lemma decode_sub_loop_ok:
  assumes "utf8_laws N utf8" "\<forall>x \<in> set ts. topic_ok N utf8 pv x" "ts \<noteq> []" "\<forall>n. node_alloc N n" "length ts \<le> fuel"
    and "length (x @ concat (map topic_bytes ts)) < 2 ^ 31" "v < 2 ^ 31"
  shows "decode_sub_loop fuel N pv (x @ concat (map topic_bytes ts)) (word_of_nat (v + length (x @ concat (map topic_bytes ts))))
     (word_of_nat v) (word_of_nat (length x)) nodes = Ret (SUCCESS, nodes @ map granted_node ts)"
  using assms
proof (induction ts arbitrary: fuel x nodes)
  case (Cons a ts)
  obtain t opt where a: "a = (t, opt)" by (cases a)
  obtain f where f: "fuel = Suc f" using Cons.prems(5) by (cases fuel) auto
  let ?x = "x @ topic_bytes a"
  have len: "length ?x \<le> length (x @ concat (map topic_bytes (a # ts)))" by simp
  have topic: "decode_sub_topic N pv (x @ topic_bytes a @ concat (map topic_bytes ts)) (word_of_nat (length x))
      = Some (granted_node a, word_of_nat (length ?x), False)"
    using decode_sub_topic_ok [OF Cons.prems(1), of pv t opt x "concat (map topic_bytes ts)"] Cons.prems(2,6) a
    by (simp add: length_topic_bytes)
  have more: "more_topics (word_of_nat (length ?x)) (word_of_nat (v + length (x @ concat (map topic_bytes (a # ts))))) (word_of_nat v)
      \<longleftrightarrow> ts \<noteq> []"
  proof -
    have "length ?x < length (x @ concat (map topic_bytes (a # ts))) \<longleftrightarrow> ts \<noteq> []"
      by (cases ts) (auto simp: topic_bytes_def split_beta)
    moreover have "length ?x < 2 ^ 31"
      using Cons.prems(6) len by linarith
    ultimately show ?thesis
      using more_topics_iff [of "length ?x" v "v + length (x @ concat (map topic_bytes (a # ts)))"] Cons.prems(6,7)
      by (simp only: diff_add_inverse) simp
  qed
  show ?case
  proof (cases "ts = []")
    case True
    then show ?thesis
      using topic more f by simp
  next
    case False
    have "decode_sub_loop f N pv (?x @ concat (map topic_bytes ts)) (word_of_nat (v + length (?x @ concat (map topic_bytes ts))))
       (word_of_nat v) (word_of_nat (length ?x)) (nodes @ [granted_node a]) = Ret (SUCCESS, (nodes @ [granted_node a]) @ map granted_node ts)"
      by (rule Cons.IH) (use Cons.prems False f in auto)
    then show ?thesis
      using topic more False f Cons.prems(4) by (simp add: add.assoc)
  qed
qed simp

section \<open>The SUBACK\<close>

text \<open>Documented behaviour of encode_properties on a packet without properties: pb are its bytes.\<close>

definition empty_properties :: "('m, 'p, 'e) pub_ops_scheme \<Rightarrow> bytes \<Rightarrow> bool" where
  "empty_properties N pb \<longleftrightarrow> (\<forall>m. \<exists>m'. encode_properties N None m = Some m' \<and> nng_msg_header N m' = nng_msg_header N m \<and>
     nng_msg_body N m' = nng_msg_body N m @ pb)"

lemma append_step_bytes:
  assumes "nng_msg_laws N" "nng_msg_memory N"
  shows "\<exists>m'. append_step (nng_msg_append N bs) (True, m) = (True, m') \<and> nng_msg_header N m' = nng_msg_header N m \<and>
      nng_msg_body N m' = nng_msg_body N m @ bs"
    and "\<exists>m'. append_step (\<lambda>m. nng_msg_header_append N (f m) m) (True, m) = (True, m') \<and>
      nng_msg_header N m' = nng_msg_header N m @ f m \<and> nng_msg_body N m' = nng_msg_body N m"
proof -
  obtain m' where "nng_msg_append N bs m = Some m'" using assms(2) unfolding nng_msg_memory_def by blast
  then show "\<exists>m'. append_step (nng_msg_append N bs) (True, m) = (True, m') \<and> nng_msg_header N m' = nng_msg_header N m \<and>
      nng_msg_body N m' = nng_msg_body N m @ bs"
    using nng_msg_lawsD(5,6) [OF assms(1)] by (auto simp: append_step_def)
  obtain m' where "nng_msg_header_append N (f m) m = Some m'" using assms(2) unfolding nng_msg_memory_def by blast
  then show "\<exists>m'. append_step (\<lambda>m. nng_msg_header_append N (f m) m) (True, m) = (True, m') \<and>
      nng_msg_header N m' = nng_msg_header N m @ f m \<and> nng_msg_body N m' = nng_msg_body N m"
    using nng_msg_lawsD(3,4) [OF assms(1)] by (auto simp: append_step_def)
qed

lemma append_reasons_bytes:
  assumes "nng_msg_laws N" "nng_msg_memory N"
  shows "\<exists>m'. append_reasons N tns (True, m) = (True, m') \<and> nng_msg_header N m' = nng_msg_header N m \<and>
    nng_msg_body N m' = nng_msg_body N m @ map (\<lambda>tn. reason_byte N (tn_reason_code tn)) tns"
proof (induction tns arbitrary: m)
  case (Cons tn tns)
  obtain m1 where m1: "append_step (nng_msg_append N [reason_byte N (tn_reason_code tn)]) (True, m) = (True, m1)"
    "nng_msg_header N m1 = nng_msg_header N m" "nng_msg_body N m1 = nng_msg_body N m @ [reason_byte N (tn_reason_code tn)]"
    using append_step_bytes(1) [OF assms] by blast
  then show ?case using Cons.IH [of m1] by auto
qed simp

definition suback_reasons :: "'p packet_subscribe \<Rightarrow> reason_code list" where
  "suback_reasons pkt = (if sp_packet_id pkt = 0 then PACKET_IDENTIFIER_IN_USE # map tn_reason_code (sp_node pkt)
     else if sp_node pkt = [] then [UNSPECIFIED_ERROR] else map tn_reason_code (sp_node pkt))"

text \<open>The two appends that end every acknowledgement.\<close>

lemma append_fixed_header:
  assumes L: "nng_msg_laws N" "nng_msg_memory N" and m: "nng_msg_header N m = []" "nng_msg_body N m = B"
  shows "\<exists>m'. append_step (\<lambda>m. nng_msg_header_append N (put_var_integer N' (word_of_nat (length (nng_msg_body N m)))) m)
      (append_step (nng_msg_header_append N [c]) (True, m)) = (True, m') \<and>
    nng_msg_header N m' = c # put_var_integer N' (word_of_nat (length B)) \<and> nng_msg_body N m' = B"
proof -
  obtain m1 where "append_step (nng_msg_header_append N [c]) (True, m) = (True, m1)" "nng_msg_header N m1 = [c]" "nng_msg_body N m1 = B"
    using append_step_bytes(2) [OF L, of "\<lambda>_. [c]" m] m by auto
  then show ?thesis
    using append_step_bytes(2) [OF L, of "\<lambda>m. put_var_integer N' (word_of_nat (length (nng_msg_body N m)))" m1] by auto
qed

lemma encode_suback_bytes:
  assumes L: "nng_msg_laws N" "nng_msg_memory N" and p: "proto_ver = PROTOCOL_v5 N \<longrightarrow> empty_properties N pb"
    and B: "B = NNI_PUT16 (sp_packet_id pkt) @ (if proto_ver = PROTOCOL_v5 N then pb else []) @ map (reason_byte N) (suback_reasons pkt)"
  shows "\<exists>m. encode_suback_msg N proto_ver (Some pkt) msg = (SUCCESS, m) \<and> nng_msg_body N m = B \<and>
    nng_msg_header N m = cmd_byte N CMD_SUBACK # put_var_integer N (word_of_nat (length B))"
proof -
  note app = append_step_bytes(1) [OF L]
  let ?m0 = "nng_msg_clear N (nng_msg_header_clear N msg)"
  have m0: "nng_msg_header N ?m0 = []" "nng_msg_body N ?m0 = []"
    by (simp_all add: nng_msg_lawsD(7-10) [OF L(1)])
  obtain m1 where m1: "append_step (nng_msg_append N (NNI_PUT16 (sp_packet_id pkt))) (True, ?m0) = (True, m1)" "nng_msg_header N m1 = []"
    "nng_msg_body N m1 = NNI_PUT16 (sp_packet_id pkt)"
    using app [of "NNI_PUT16 (sp_packet_id pkt)" ?m0] m0 by auto
  define m2 where "m2 = (if proto_ver = PROTOCOL_v5 N then ignoring_rv (encode_properties N None) m1 else m1)"
  have m2: "nng_msg_header N m2 = []" "nng_msg_body N m2 = nng_msg_body N m1 @ (if proto_ver = PROTOCOL_v5 N then pb else [])"
  proof -
    show "nng_msg_header N m2 = []" "nng_msg_body N m2 = nng_msg_body N m1 @ (if proto_ver = PROTOCOL_v5 N then pb else [])"
    proof (atomize (full), cases "proto_ver = PROTOCOL_v5 N")
      case True
      then obtain m' where "encode_properties N None m1 = Some m'" "nng_msg_header N m' = nng_msg_header N m1"
        "nng_msg_body N m' = nng_msg_body N m1 @ pb"
        using p unfolding empty_properties_def by blast
      then show "nng_msg_header N m2 = [] \<and> nng_msg_body N m2 = nng_msg_body N m1 @ (if proto_ver = PROTOCOL_v5 N then pb else [])"
        using True m1(2) by (simp add: m2_def ignoring_rv_def)
    qed (simp add: m2_def m1(2))
  qed
  obtain m3 where m3: "(if sp_packet_id pkt = 0 then append_step (nng_msg_append N [reason_byte N PACKET_IDENTIFIER_IN_USE]) (True, m2)
      else (True, m2)) = (True, m3)" "nng_msg_header N m3 = []"
    "nng_msg_body N m3 = nng_msg_body N m2 @ (if sp_packet_id pkt = 0 then [reason_byte N PACKET_IDENTIFIER_IN_USE] else [])"
    using app [of "[reason_byte N PACKET_IDENTIFIER_IN_USE]" m2] m2(1) by (cases "sp_packet_id pkt = 0") auto
  obtain m4 where m4: "append_reasons N (sp_node pkt) (True, m3) = (True, m4)" "nng_msg_header N m4 = []"
    "nng_msg_body N m4 = nng_msg_body N m3 @ map (\<lambda>tn. reason_byte N (tn_reason_code tn)) (sp_node pkt)"
    using append_reasons_bytes [OF L, of "sp_node pkt" m3] m3(2) by auto
  obtain m5 where m5: "(if sp_node pkt = [] \<and> sp_packet_id pkt \<noteq> 0 then append_step (nng_msg_append N [reason_byte N UNSPECIFIED_ERROR]) (True, m4)
       else (True, m4)) = (True, m5)" "nng_msg_header N m5 = []"
    "nng_msg_body N m5 = nng_msg_body N m4 @ (if sp_node pkt = [] \<and> sp_packet_id pkt \<noteq> 0 then [reason_byte N UNSPECIFIED_ERROR] else [])"
    using app [of "[reason_byte N UNSPECIFIED_ERROR]" m4] m4(2) by (cases "sp_node pkt = [] \<and> sp_packet_id pkt \<noteq> 0") auto
  have body: "nng_msg_body N m5 = B"
    using m1(3) m2(2) m3(3) m4(3) m5(3) by (auto simp: B suback_reasons_def)
  have props: "(if fst (True, m1) \<and> proto_ver = PROTOCOL_v5 N then (True, ignoring_rv (encode_properties N None) (snd (True, m1)))
      else (True, m1)) = (True, m2)"
    by (simp add: m2_def)
  obtain m where "append_step (\<lambda>m. nng_msg_header_append N (put_var_integer N (word_of_nat (length (nng_msg_body N m)))) m)
      (append_step (nng_msg_header_append N [cmd_byte N CMD_SUBACK]) (True, m5)) = (True, m)"
    "nng_msg_header N m = cmd_byte N CMD_SUBACK # put_var_integer N (word_of_nat (length B))" "nng_msg_body N m = B"
    using append_fixed_header [OF L m5(2) body] by blast
  then show ?thesis
    unfolding encode_suback_msg_def Let_def by (simp only: option.case m1(1) props m3(1) m4(1) m5(1)) simp
qed

section \<open>The tables\<close>

text \<open>
  Documented behaviour of the tables: subs is the set of topics a pipe has in the hash table,
  tree the set of clients entered at a topic of the tree.
\<close>

definition subdb_laws ::
  "('m, 'd, 'h, 'r) subdb_ops \<Rightarrow> ('d \<Rightarrow> (bytes \<times> u32) set) \<Rightarrow> ('h \<Rightarrow> (u32 \<times> bytes) set) \<Rightarrow> bool" where
  "subdb_laws D tree subs \<longleftrightarrow>
    (\<forall>pid t h. dbhash_check_topic D pid t h \<longleftrightarrow> (pid, t) \<in> subs h) \<and>
    (\<forall>pid t q h. subs (dbhash_insert_topic D pid t q h) = insert (pid, t) (subs h)) \<and>
    (\<forall>pid t h. subs (dbhash_del_topic D pid t h) = subs h - {(pid, t)}) \<and>
    (\<forall>pid h. set (fst (dbhash_del_topic_queue D pid h)) = {t. (pid, t) \<in> subs h} \<and>
       subs (snd (dbhash_del_topic_queue D pid h)) = {(p, t) \<in> subs h. p \<noteq> pid}) \<and>
    (\<forall>t pid d. tree (dbtree_insert_client D t pid d) = insert (t, pid) (tree d)) \<and>
    (\<forall>t pid d. tree (dbtree_delete_client D t pid d) = tree d - {(t, pid)})"

lemma subdb_lawsD:
  assumes "subdb_laws D tree subs"
  shows "dbhash_check_topic D pid t h \<longleftrightarrow> (pid, t) \<in> subs h"
    and "subs (dbhash_insert_topic D pid t q h) = insert (pid, t) (subs h)"
    and "subs (dbhash_del_topic D pid t h) = subs h - {(pid, t)}"
    and "set (fst (dbhash_del_topic_queue D pid h)) = {t. (pid, t) \<in> subs h}"
    and "subs (snd (dbhash_del_topic_queue D pid h)) = {(p, t) \<in> subs h. p \<noteq> pid}"
    and "tree (dbtree_insert_client D t pid d) = insert (t, pid) (tree d)"
    and "tree (dbtree_delete_client D t pid d) = tree d - {(t, pid)}"
proof -
  note L = assms [unfolded subdb_laws_def]
  show "dbhash_check_topic D pid t h \<longleftrightarrow> (pid, t) \<in> subs h"
    by (rule L [THEN conjunct1, rule_format])
  note L = L [THEN conjunct2]
  show "subs (dbhash_insert_topic D pid t q h) = insert (pid, t) (subs h)"
    by (rule L [THEN conjunct1, rule_format])
  note L = L [THEN conjunct2]
  show "subs (dbhash_del_topic D pid t h) = subs h - {(pid, t)}"
    by (rule L [THEN conjunct1, rule_format])
  note L = L [THEN conjunct2]
  show "set (fst (dbhash_del_topic_queue D pid h)) = {t. (pid, t) \<in> subs h}"
    by (rule L [THEN conjunct1, rule_format, THEN conjunct1])
  show "subs (snd (dbhash_del_topic_queue D pid h)) = {(p, t) \<in> subs h. p \<noteq> pid}"
    by (rule L [THEN conjunct1, rule_format, THEN conjunct2])
  note L = L [THEN conjunct2]
  show "tree (dbtree_insert_client D t pid d) = insert (t, pid) (tree d)"
    by (rule L [THEN conjunct1, rule_format])
  show "tree (dbtree_delete_client D t pid d) = tree d - {(t, pid)}"
    by (rule L [THEN conjunct2, rule_format])
qed

definition tables_agree :: "('d \<Rightarrow> (bytes \<times> u32) set) \<Rightarrow> ('h \<Rightarrow> (u32 \<times> bytes) set) \<Rightarrow> ('m, 'd, 'h, 'r) sub_work \<Rightarrow> bool" where
  "tables_agree tree subs w \<longleftrightarrow> tree (sw_db w) = (subs (sw_dbhash w))\<inverse>"

fun node_topics :: "topic_node list \<Rightarrow> bytes set" where
  "node_topics [] = {}"
| "node_topics (tn # tns) = (case str_body (tn_topic tn) of None \<Rightarrow> {} | Some b \<Rightarrow> {cstr b}) \<union> node_topics tns"

lemma sub_ctx_topic_tables:
  assumes L: "subdb_laws D tree subs" and r: "sub_ctx_topic N D tn r w = Some (r', w')" and a: "tables_agree tree subs w"
  shows "tables_agree tree subs w' \<and> subs (sw_dbhash w') = subs (sw_dbhash w) \<union> {sw_pid w} \<times> node_topics [tn] \<and>
    sw_pid w' = sw_pid w \<and> sw_db_ret w' = sw_db_ret w"
proof (cases "str_body (tn_topic tn)")
  case None
  then show ?thesis using r a by (simp add: sub_ctx_topic_def)
next
  case (Some body)
  let ?t = "cstr body"
  define e where "e = dbhash_check_topic D (sw_pid w) ?t (sw_dbhash w)"
  define w1 where "w1 = (if \<not> e then w\<lparr>sw_db := dbtree_insert_client D ?t (sw_pid w) (sw_db w),
      sw_dbhash := dbhash_insert_topic D (sw_pid w) ?t (opt_qos N (tn_options tn)) (sw_dbhash w)\<rparr> else w)"
  define q where "q = (if opt_retain_handling N (tn_options tn) = 0 \<or> opt_retain_handling N (tn_options tn) = 1 \<and> \<not> e
       then case dbtree_find_retain D ?t (sw_db_ret w1) of None \<Rightarrow> Null | Some v \<Rightarrow> Vector v else r)"
  have eq: "sub_ctx_topic N D tn r w = (case q of Null \<Rightarrow> Some (q, w1) | Released \<Rightarrow> None
   | Vector v \<Rightarrow> Some (Released, w1\<lparr>sw_msg_ret := sw_msg_ret w1 @ map the (filter (\<lambda>m. m \<noteq> None) v)\<rparr>))"
    unfolding sub_ctx_topic_def q_def e_def w1_def Let_def by (simp add: Some)
  have w': "w' = w1 \<or> (\<exists>v. w' = w1\<lparr>sw_msg_ret := v\<rparr>)"
    using r unfolding eq by (auto split: retain_ptr.splits)
  have e: "e \<longleftrightarrow> (sw_pid w, ?t) \<in> subs (sw_dbhash w)"
    by (simp add: e_def subdb_lawsD(1) [OF L])
  have w1: "tree (sw_db w1) = insert (?t, sw_pid w) (tree (sw_db w))" "sw_pid w1 = sw_pid w" "sw_db_ret w1 = sw_db_ret w"
    "subs (sw_dbhash w1) = insert (sw_pid w, ?t) (subs (sw_dbhash w))"
    using a e by (cases e; auto simp: w1_def subdb_lawsD(2,6) [OF L] tables_agree_def)+
  have "tables_agree tree subs w1"
    using a by (auto simp: tables_agree_def w1)
  then show ?thesis
    using w' Some w1 by (auto simp: tables_agree_def)
qed

lemma sub_ctx_loop_tables:
  assumes L: "subdb_laws D tree subs" and r: "sub_ctx_loop N D tns r w = Some w'" and a: "tables_agree tree subs w"
  shows "tables_agree tree subs w' \<and> subs (sw_dbhash w') = subs (sw_dbhash w) \<union> {sw_pid w} \<times> node_topics tns \<and>
    sw_pid w' = sw_pid w \<and> sw_db_ret w' = sw_db_ret w"
  using r a
proof (induction tns arbitrary: r w)
  case (Cons tn tns)
  then obtain r1 w1 where s: "sub_ctx_topic N D tn r w = Some (r1, w1)" "sub_ctx_loop N D tns r1 w1 = Some w'"
    by (auto simp: bind_eq_Some_conv)
  from sub_ctx_topic_tables [OF L s(1) Cons.prems(2)] Cons.IH [OF s(2)] show ?case
    by (auto split: option.splits)
qed simp

lemma destroy_fold_tree:
  assumes L: "subdb_laws D tree subs"
  shows "tree (sw_db (fold (destroy_sub_client_cb D pid) ts w)) = tree (sw_db w) - (set ts \<times> {pid})"
proof (induction ts arbitrary: w)
  case (Cons t ts)
  then show ?case
    by (simp add: destroy_sub_client_cb_def subdb_lawsD(7) [OF L]) blast
qed simp

lemma destroy_fold_hash: "sw_dbhash (fold (destroy_sub_client_cb D pid) ts w) = sw_dbhash w"
  by (induction ts arbitrary: w) (simp_all add: destroy_sub_client_cb_def)

text \<open>
  What the broker does to the tables over time: subscriptions, single deletions and the removal
  of a client, each for any pipe.
\<close>

inductive table_step ::
  "('m, 'p) sub_ops \<Rightarrow> ('m, 'd, 'h, 'r) subdb_ops \<Rightarrow> ('m, 'd, 'h, 'r) sub_work \<Rightarrow> ('m, 'd, 'h, 'r) sub_work \<Rightarrow> bool"
  for N D where
  subscribe: "sub_ctx_handle N D pkt (w\<lparr>sw_pid := pid\<rparr>) = Some (rv, w') \<Longrightarrow> table_step N D w w'"
| unsubscribe: "sub_ctx_del D topic pid w = (rv, w') \<Longrightarrow> table_step N D w w'"
| disconnect: "table_step N D w (destroy_sub_client D pid w)"

inductive_cases table_stepE: "table_step N D w w'"

lemma table_step_agree:
  assumes L: "subdb_laws D tree subs" and s: "table_step N D w w'" and a: "tables_agree tree subs w"
  shows "tables_agree tree subs w'"
  using s
proof cases
  case (subscribe pkt pid rv)
  have a': "tables_agree tree subs (w\<lparr>sw_pid := pid\<rparr>)"
    using a by (simp add: tables_agree_def)
  show ?thesis
    using subscribe sub_ctx_loop_tables [OF L _ a'] a'
    by (auto simp: sub_ctx_handle_def split: option.splits if_splits)
next
  case (unsubscribe topic pid rv)
  then show ?thesis
    using a subdb_lawsD(3,7) [OF L] by (auto simp: sub_ctx_del_def tables_agree_def Let_def)
next
  case (disconnect pid)
  then show ?thesis
    using a by (auto simp: destroy_sub_client_def tables_agree_def split_beta destroy_fold_tree [OF L] destroy_fold_hash
        subdb_lawsD(4,5) [OF L])
qed

section \<open>Retained messages of a subscription\<close>

definition retained_for :: "('m, 'd, 'h, 'r) subdb_ops \<Rightarrow> 'r \<Rightarrow> topic_node list \<Rightarrow> 'm list" where
  "retained_for D r tns = concat (map (\<lambda>tn. case str_body (tn_topic tn) of None \<Rightarrow> []
     | Some b \<Rightarrow> (case dbtree_find_retain D (cstr b) r of None \<Rightarrow> []
        | Some v \<Rightarrow> map the (filter (\<lambda>m. m \<noteq> None) v))) tns)"

lemma sub_ctx_topic_rh0:
  assumes "opt_retain_handling N (tn_options tn) = 0"
  shows "\<exists>r' w'. sub_ctx_topic N D tn r w = Some (r', w') \<and> sw_msg_ret w' = sw_msg_ret w @ retained_for D (sw_db_ret w) [tn] \<and>
    sw_db_ret w' = sw_db_ret w"
  using assms by (auto simp: sub_ctx_topic_def retained_for_def Let_def split: option.splits)

lemma sub_ctx_loop_rh0:
  assumes "\<forall>tn \<in> set tns. opt_retain_handling N (tn_options tn) = 0"
  shows "\<exists>w'. sub_ctx_loop N D tns r w = Some w' \<and> sw_msg_ret w' = sw_msg_ret w @ retained_for D (sw_db_ret w) tns"
  using assms
proof (induction tns arbitrary: r w)
  case (Cons tn tns)
  obtain r1 w1 where 1: "sub_ctx_topic N D tn r w = Some (r1, w1)" "sw_db_ret w1 = sw_db_ret w"
    "sw_msg_ret w1 = sw_msg_ret w @ retained_for D (sw_db_ret w) [tn]"
    using sub_ctx_topic_rh0 Cons.prems by (metis list.set_intros(1))
  obtain w' where "sub_ctx_loop N D tns r1 w1 = Some w'" "sw_msg_ret w' = sw_msg_ret w1 @ retained_for D (sw_db_ret w1) tns"
    using Cons by (metis list.set_intros(2))
  then show ?case using 1 by (simp add: retained_for_def)
qed (simp add: retained_for_def)

text \<open>The pointer is also in order when there is just one topic.\<close>

lemma sub_ctx_loop_one: "\<exists>w'. sub_ctx_loop N D [tn] Null w = Some w'"
  by (auto simp: sub_ctx_topic_def Let_def split: option.splits)

lemma sub_ctx_loop_total:
  assumes "length tns = 1 \<or> (\<forall>tn \<in> set tns. opt_retain_handling N (tn_options tn) = 0)"
  shows "\<exists>w'. sub_ctx_loop N D tns Null w = Some w'"
proof (cases "length tns = 1")
  case True
  then obtain tn where "tns = [tn]" by (auto simp: length_Suc_conv)
  then show ?thesis using sub_ctx_loop_one by blast
next
  case False
  then show ?thesis using assms sub_ctx_loop_rh0 by blast
qed

section \<open>Whole SUBSCRIBE packets\<close>

lemma decode_sub_msg_ok:
  assumes "utf8_laws N utf8" "\<forall>n. node_alloc N n"
    and "(if proto_ver = PROTOCOL_v5 N then decode_properties N msg 2 else (None, 2, 0)) = (props, vpos, plen)"
    and "proto_ver = PROTOCOL_v5 N \<longrightarrow> check_properties N props = SUCCESS"
    and "NNI_GET16 (nng_msg_body N msg) 0 = Some packet_id" "packet_id \<noteq> 0"
    and "nng_msg_payload N msg = concat (map topic_bytes ts)"
    and "nng_msg_remaining_len N msg = word_of_nat (unat vpos + length (concat (map topic_bytes ts)))"
    and "unat vpos < 2 ^ 31" "length (concat (map topic_bytes ts)) < 2 ^ 31"
    and "ts \<noteq> []" "\<forall>x \<in> set ts. topic_ok N utf8 proto_ver x" "length ts \<le> fuel"
  shows "decode_sub_msg fuel N msg proto_ver = Ret (SUCCESS,
    \<lparr> sp_packet_id = packet_id, sp_properties = props, sp_prop_len = plen, sp_node = map granted_node ts \<rparr>)"
proof -
  let ?n = "unat vpos + length (concat (map topic_bytes ts))"
  have len: "ucast (word_of_nat ?n :: u32) = (word_of_nat ?n :: u64)"
    using assms(9,10) by (simp only: unsigned_of_nat) (simp add: take_bit_nat_eq_self)
  have "decode_sub_loop fuel N proto_ver (concat (map topic_bytes ts)) (word_of_nat ?n) vpos 0 [] = Ret (SUCCESS, map granted_node ts)"
    using decode_sub_loop_ok [OF assms(1,12,11,2,13), of "[]" "unat vpos" "[]"] assms(9,10) by simp
  then show ?thesis
    using assms(2-8) len unfolding decode_sub_msg_def Let_def by simp
qed

section \<open>An instance of the interface\<close>

definition list_sub_ops :: "(bytes \<times> bytes \<times> (u32 \<times> cmd_type), bool) sub_ops" where
  "list_sub_ops = pub_ops.extend list_pub_ops
     \<lparr> nng_msg_payload = (\<lambda>(h, b, r). drop 2 b), copy_utf8_str = (\<lambda>src pos. list_copyn src pos 0),
       opt_qos = (\<lambda>b. unat (b AND 3)), opt_no_local = (\<lambda>b. bit b 2), opt_retain_handling = (\<lambda>b. unat (drop_bit 4 b AND 3)),
       reason_byte = (\<lambda>c. case c of SUCCESS \<Rightarrow> 0 | GRANTED_QOS_2 \<Rightarrow> 2 | _ \<Rightarrow> 0x80), cmd_byte = (\<lambda>c. 0x90),
       MQTT_VERSION_V5 = 5, node_alloc = (\<lambda>n. True) \<rparr>"

lemmas list_sub_simps = list_sub_ops_def pub_ops.defs list_pub_simps

lemma list_utf8_laws: "utf8_laws list_sub_ops (\<lambda>t. True)"
proof -
  have "list_copyn (x @ NNI_PUT16 (word_of_nat (length t)) @ t @ r) (word_of_nat (length x)) 0
      = (Some t, word_of_nat (length x + 2 + length t), word_of_nat (length t))"
    if "length t < 2 ^ 16" "length x + 2 + length t < 2 ^ 32" for x t r
    using that unat_word_of_nat32 [of "length x"]
    by (simp add: list_copyn_def wire_simps unat_of_nat unsigned_of_nat take_bit_nat_eq_self)
  then show ?thesis
    by (simp add: utf8_laws_def list_sub_simps)
qed

definition set_subdb_ops :: "('m, (bytes \<times> u32) list, (u32 \<times> bytes) list, bytes \<rightharpoonup> 'm) subdb_ops" where
  "set_subdb_ops = \<lparr> dbhash_check_topic = (\<lambda>pid t h. (pid, t) \<in> set h),
     dbhash_insert_topic = (\<lambda>pid t q h. (pid, t) # h),
     dbhash_del_topic = (\<lambda>pid t h. filter (\<lambda>x. x \<noteq> (pid, t)) h),
     dbhash_del_topic_queue = (\<lambda>pid h. (map snd (filter (\<lambda>x. fst x = pid) h), filter (\<lambda>x. fst x \<noteq> pid) h)),
     dbtree_insert_client = (\<lambda>t pid d. (t, pid) # d),
     dbtree_delete_client = (\<lambda>t pid d. filter (\<lambda>x. x \<noteq> (t, pid)) d),
     dbtree_find_retain = (\<lambda>t r. case r t of None \<Rightarrow> None | Some m \<Rightarrow> Some [Some m, None]) \<rparr>"

lemma set_subdb_laws: "subdb_laws set_subdb_ops set set"
  by (force simp: subdb_laws_def set_subdb_ops_def)

type_synonym list_msg = "bytes \<times> bytes \<times> (u32 \<times> cmd_type)"

definition hello_msg :: list_msg where
  "hello_msg = ([0x31, 5], [0, 1, 97, 104, 105], 5, CMD_PUBLISH)"

definition sample_sub_work :: "(list_msg, (bytes \<times> u32) list, (u32 \<times> bytes) list, bytes \<rightharpoonup> list_msg) sub_work" where
  "sample_sub_work = \<lparr> sw_pid = 7, sw_db = [], sw_dbhash = [], sw_db_ret = [[97] \<mapsto> hello_msg], sw_msg_ret = [] \<rparr>"

section \<open>Properties\<close>

text \<open>
  C23: decode_sub_msg reads every SUBSCRIBE whose topics are valid, of MQTT 3.1.1 as well as of MQTT 5:
  for a packet id other than zero, in MQTT 5 properties that pass check_properties,
  and a nonempty list of topics with their option bytes behind them, it returns success after as many
  rounds as there are topics, with the properties and one node per topic, in order, each granted by default.
\<close>
theorem decode_sub_msg_correct:
  assumes "utf8_laws N utf8" "\<forall>n. node_alloc N n"
    and "(if proto_ver = PROTOCOL_v5 N then decode_properties N msg 2 else (None, 2, 0)) = (props, vpos, plen)"
    and "proto_ver = PROTOCOL_v5 N \<longrightarrow> check_properties N props = SUCCESS"
    and "NNI_GET16 (nng_msg_body N msg) 0 = Some packet_id" "packet_id \<noteq> 0"
    and "nng_msg_payload N msg = concat (map topic_bytes ts)"
    and "nng_msg_remaining_len N msg = word_of_nat (unat vpos + length (concat (map topic_bytes ts)))"
    and "unat vpos < 2 ^ 31" "length (concat (map topic_bytes ts)) < 2 ^ 31"
    and "ts \<noteq> []" "\<forall>x \<in> set ts. topic_ok N utf8 proto_ver x" "length ts \<le> fuel"
  shows "decode_sub_msg fuel N msg proto_ver = Ret (SUCCESS,
    \<lparr> sp_packet_id = packet_id, sp_properties = props, sp_prop_len = plen, sp_node = map granted_node ts \<rparr>)"
  using assms by (rule decode_sub_msg_ok)

definition list_sub_ops_v5 :: "(bytes \<times> bytes \<times> (u32 \<times> cmd_type), bool) sub_ops" where
  "list_sub_ops_v5 = list_sub_ops\<lparr>nng_msg_payload := (\<lambda>(h, b, r). drop 3 b)\<rparr>"

theorem decode_sub_msg_correct_witness:
  "decode_sub_msg 2 list_sub_ops ([0x82, 10], [0, 9, 0, 1, 97, 0, 0, 1, 98, 1], 10, CMD_SUBSCRIBE) 4
   = Ret (SUCCESS, \<lparr> sp_packet_id = 9, sp_properties = None, sp_prop_len = 0,
       sp_node = map granted_node [([97], 0), ([98], 1)] \<rparr>) \<and>
   decode_sub_msg 2 list_sub_ops_v5 ([0x82, 11], [0, 9, 1, 0, 1, 97, 0, 0, 1, 98, 1], 11, CMD_SUBSCRIBE) 5
   = Ret (SUCCESS, \<lparr> sp_packet_id = 9, sp_properties = Some False, sp_prop_len = 1,
       sp_node = map granted_node [([97], 0), ([98], 1)] \<rparr>)"
proof
  show "decode_sub_msg 2 list_sub_ops ([0x82, 10], [0, 9, 0, 1, 97, 0, 0, 1, 98, 1], 10, CMD_SUBSCRIBE) 4
     = Ret (SUCCESS, \<lparr> sp_packet_id = 9, sp_properties = None, sp_prop_len = 0, sp_node = map granted_node [([97], 0), ([98], 1)] \<rparr>)"
    by (rule decode_sub_msg_correct [OF list_utf8_laws, where vpos = 2])
      (simp_all add: list_sub_simps NNI_GET16_def topic_bytes_def NNI_PUT16_def topic_ok_def)
  have "utf8_laws list_sub_ops_v5 (\<lambda>t. True)"
    using list_utf8_laws by (simp add: utf8_laws_def list_sub_ops_v5_def)
  then show "decode_sub_msg 2 list_sub_ops_v5 ([0x82, 11], [0, 9, 1, 0, 1, 97, 0, 0, 1, 98, 1], 11, CMD_SUBSCRIBE) 5
     = Ret (SUCCESS, \<lparr> sp_packet_id = 9, sp_properties = Some False, sp_prop_len = 1, sp_node = map granted_node [([97], 0), ([98], 1)] \<rparr>)"
    by (rule decode_sub_msg_correct [where vpos = 3])
      (simp_all add: list_sub_ops_v5_def list_sub_simps NNI_GET16_def topic_bytes_def NNI_PUT16_def topic_ok_def share_prefix_def cstr_def)
qed

text \<open>
  C24: encode_suback_msg answers with the packet id and one reason byte per topic node, in
  order; a packet without topics gets a single error byte, and packet id zero is answered by
  the code for a packet id in use.  In MQTT 5 the bytes of an empty property list, as encode_properties writes
  them, stand between the packet id and the reasons.  The fixed header is that of a SUBACK with the length of
  the body.  The appends to the message are assumed to find memory.
\<close>
theorem encode_suback_correct:
  assumes "nng_msg_laws N" "nng_msg_memory N" "proto_ver = PROTOCOL_v5 N \<longrightarrow> empty_properties N pb"
  shows "\<exists>m. encode_suback_msg N proto_ver (Some pkt) msg = (SUCCESS, m) \<and>
    nng_msg_body N m = NNI_PUT16 (sp_packet_id pkt) @ (if proto_ver = PROTOCOL_v5 N then pb else []) @ map (reason_byte N) (suback_reasons pkt) \<and>
    nng_msg_header N m = cmd_byte N CMD_SUBACK # put_var_integer N
      (word_of_nat (2 + (if proto_ver = PROTOCOL_v5 N then length pb else 0) + length (suback_reasons pkt)))"
  using encode_suback_bytes [OF assms refl, of pkt msg] by (cases "proto_ver = PROTOCOL_v5 N") (auto simp: add.assoc)

lemma list_sub_msg_laws: "nng_msg_laws list_sub_ops" "nng_msg_memory list_sub_ops"
  by (auto simp: nng_msg_laws_def nng_msg_memory_def list_sub_simps)

theorem encode_suback_correct_witness:
  "\<exists>m. encode_suback_msg list_sub_ops 5 (Some \<lparr> sp_packet_id = 9, sp_properties = None, sp_prop_len = 0,
       sp_node = map granted_node [([97], 0), ([98], 1)] \<rparr>) ([], [], 0, CMD_NONE) = (SUCCESS, m) \<and>
     nng_msg_body list_sub_ops m = [0, 9, 0, 2, 2] \<and> nng_msg_header list_sub_ops m = [0x90, 5]"
proof -
  have "(5 :: u8) = PROTOCOL_v5 list_sub_ops \<longrightarrow> empty_properties list_sub_ops [0]"
    by (auto simp: empty_properties_def list_sub_simps)
  from encode_suback_correct [OF list_sub_msg_laws this, of "\<lparr> sp_packet_id = 9, sp_properties = None, sp_prop_len = 0,
       sp_node = map granted_node [([97], 0), ([98], 1)] \<rparr>" "([], [], 0, CMD_NONE)"]
  show ?thesis by (auto simp: list_sub_simps suback_reasons_def granted_node_def NNI_PUT16_def)
qed

text \<open>
  C21: The subscription tree and the table of topics per pipe never disagree: in every sequence
  of subscriptions, deletions of a topic and disconnects of clients, a client is entered at a
  topic of the tree exactly when the topic is listed for its pipe.
\<close>
theorem subscription_tables_agree:
  assumes "subdb_laws D tree subs" "(table_step N D)\<^sup>*\<^sup>* w w'" "tables_agree tree subs w"
  shows "tables_agree tree subs w'"
  using assms(2,3)
  by (induction rule: rtranclp_induct) (auto intro: table_step_agree [OF assms(1)])

theorem subscription_tables_agree_witness:
  "tables_agree set set (destroy_sub_client set_subdb_ops 7 (snd (sub_ctx_del set_subdb_ops [97] 7 sample_sub_work)))"
proof -
  let ?w = "snd (sub_ctx_del set_subdb_ops [97] 7 sample_sub_work)"
  have "table_step list_sub_ops set_subdb_ops sample_sub_work ?w"
    by (rule table_step.unsubscribe [of _ "[97]" 7 _ "fst (sub_ctx_del set_subdb_ops [97] 7 sample_sub_work)"]) simp
  moreover have "table_step list_sub_ops set_subdb_ops ?w (destroy_sub_client set_subdb_ops 7 ?w)"
    by (rule table_step.disconnect)
  ultimately have run: "(table_step list_sub_ops set_subdb_ops)\<^sup>*\<^sup>* sample_sub_work (destroy_sub_client set_subdb_ops 7 ?w)"
    by simp
  show ?thesis
    by (rule subscription_tables_agree [OF set_subdb_laws run]) (simp add: tables_agree_def sample_sub_work_def)
qed

text \<open>
  C22: A subscription whose topics all ask for retained messages (retain handling 0) is entered
  completely: afterwards the pipe has its old topics and the topics of the packet, and the
  retained messages of these topics are queued for it in order.  A disconnect then
  removes every topic of the pipe and leaves those of all others.
\<close>
theorem subscribe_and_disconnect:
  assumes L: "subdb_laws D tree subs" "tables_agree tree subs w"
    and p: "sp_packet_id pkt \<noteq> 0" "sp_node pkt \<noteq> []"
    and r: "\<forall>tn \<in> set (sp_node pkt). opt_retain_handling N (tn_options tn) = 0"
  shows "\<exists>w'. sub_ctx_handle N D (Some pkt) w = Some (0, w') \<and>
    subs (sw_dbhash w') = subs (sw_dbhash w) \<union> {sw_pid w} \<times> node_topics (sp_node pkt) \<and>
    sw_msg_ret w' = sw_msg_ret w @ retained_for D (sw_db_ret w) (sp_node pkt) \<and>
    subs (sw_dbhash (destroy_sub_client D (sw_pid w) w')) = {(q, t) \<in> subs (sw_dbhash w). q \<noteq> sw_pid w} \<and>
    tree (sw_db (destroy_sub_client D (sw_pid w) w')) = {(t, q) \<in> tree (sw_db w). q \<noteq> sw_pid w}"
proof -
  obtain w' where w': "sub_ctx_loop N D (sp_node pkt) Null w = Some w'"
    "sw_msg_ret w' = sw_msg_ret w @ retained_for D (sw_db_ret w) (sp_node pkt)"
    using sub_ctx_loop_rh0 [OF r] by blast
  have t: "tables_agree tree subs w'" "subs (sw_dbhash w') = subs (sw_dbhash w) \<union> {sw_pid w} \<times> node_topics (sp_node pkt)"
    using sub_ctx_loop_tables [OF L(1) w'(1) L(2)] by simp_all
  have h: "subs (sw_dbhash (destroy_sub_client D (sw_pid w) w')) = {(q, t) \<in> subs (sw_dbhash w). q \<noteq> sw_pid w}"
    by (auto simp: destroy_sub_client_def split_beta destroy_fold_hash subdb_lawsD(5) [OF L(1)] t(2))
  have "tables_agree tree subs (destroy_sub_client D (sw_pid w) w')"
    by (rule table_step_agree [OF L(1) table_step.disconnect t(1)])
  then have "tree (sw_db (destroy_sub_client D (sw_pid w) w')) = {(t, q) \<in> tree (sw_db w). q \<noteq> sw_pid w}"
    using L(2) h by (auto simp: tables_agree_def)
  then show ?thesis
    using w' t h p by (auto simp: sub_ctx_handle_def)
qed

theorem subscribe_and_disconnect_witness:
  "\<exists>w'. sub_ctx_handle list_sub_ops set_subdb_ops (Some \<lparr> sp_packet_id = 9, sp_properties = None, sp_prop_len = 0,
       sp_node = map granted_node [([97], 0)] \<rparr>) sample_sub_work = Some (0, w') \<and>
     set (sw_dbhash w') = {(7, [97])} \<and> sw_msg_ret w' = [hello_msg]"
proof -
  have "tables_agree set set sample_sub_work"
    by (simp add: tables_agree_def sample_sub_work_def)
  moreover have "opt_retain_handling list_sub_ops 0 = 0"
    by (simp add: list_sub_simps)
  moreover have "node_topics (map granted_node [([97], 0)]) = {[97]}"
    "retained_for set_subdb_ops (sw_db_ret sample_sub_work) (map granted_node [([97], 0)]) = [hello_msg]"
    by (simp_all add: granted_node_def cstr_def retained_for_def set_subdb_ops_def sample_sub_work_def hello_msg_def)
  moreover have "sw_dbhash sample_sub_work = []" "sw_pid sample_sub_work = 7" "sw_msg_ret sample_sub_work = []"
    by (simp_all add: sample_sub_work_def)
  ultimately show ?thesis
    using subscribe_and_disconnect [OF set_subdb_laws, of sample_sub_work "\<lparr> sp_packet_id = 9, sp_properties = None,
        sp_prop_len = 0, sp_node = map granted_node [([97], 0)] \<rparr>" list_sub_ops]
    by (auto simp: granted_node_def)
qed

text \<open>
  The pointer r is not reset between topics: when a topic with retained messages is followed by
  one that asks for none (retain handling 2), the released vector is read and freed again.
\<close>

lemma sub_ctx_handle_use_after_free:
  "sub_ctx_handle list_sub_ops set_subdb_ops (Some \<lparr> sp_packet_id = 9, sp_properties = None, sp_prop_len = 0,
     sp_node = map granted_node [([97], 0), ([98], 0x20)] \<rparr>) sample_sub_work = None"
  by (simp add: sub_ctx_handle_def sub_ctx_topic_def granted_node_def list_sub_simps sample_sub_work_def set_subdb_ops_def
      cstr_def Let_def)

end
