(* ===== verification/UnsubHandler.thy ===== *)
theory UnsubHandler
  imports SubHandler
begin

text \<open>
  unsub_handler.c: decoding an UNSUBSCRIBE, removing the topics from the subscription tables
  and answering with an UNSUBACK.
\<close>

section \<open>Packets\<close>

text \<open>
  The nodes come from nng_alloc, so their reason code is indeterminate (None) until it is set.
  get_utf8_str does not copy: the topic is the part of the payload it points to.  It returns
  the topic, the new position and the length, which is - 1 for an invalid string.
\<close>

record unsub_node =
  un_reason_code :: "u8 option"
  un_topic :: mqtt_string

record 'p packet_unsubscribe =
  up_packet_id :: u16
  up_properties :: "'p option"
  up_prop_len :: u32
  up_node :: "unsub_node list option"

record ('m, 'p) unsub_ops = "('m, 'p) sub_ops" +
  get_utf8_str :: "bytes \<Rightarrow> u32 \<Rightarrow> bytes \<times> u32 \<times> u32"

section \<open>decode_unsub_msg\<close>

text \<open>
  bpos and vpos are uint32_t here, so they are zero extended.  The length of an invalid topic stays
  indeterminate in the code; it is 0 here, and nothing reads it, since unsub_ctx_handle is not called then.
\<close>

definition more_unsub_topics :: "u32 \<Rightarrow> u64 \<Rightarrow> u32 \<Rightarrow> bool" where
  "more_unsub_topics bpos remaining_len vpos = (ucast bpos < remaining_len - ucast vpos)"

fun decode_unsub_loop ::
  "nat \<Rightarrow> ('m, 'p) unsub_ops \<Rightarrow> bytes \<Rightarrow> u64 \<Rightarrow> u32 \<Rightarrow> u32 \<Rightarrow> unsub_node list \<Rightarrow> (reason_code \<times> unsub_node list) outcome" where
  "decode_unsub_loop 0 N payload remaining_len vpos bpos nodes = Out_of_fuel"
| "decode_unsub_loop (Suc fuel) N payload remaining_len vpos bpos nodes =
    (let (body, bpos, len_of_topic) = get_utf8_str N payload bpos in
     if len_of_topic \<noteq> - 1 then
       (let tn = \<lparr> un_reason_code = None, un_topic = \<lparr> str_body = Some body, str_len = len_of_topic \<rparr> \<rparr> in
        if more_unsub_topics bpos remaining_len vpos then
          if \<not> node_alloc N (Suc (length nodes)) then Ret (NNG_ENOMEM, nodes @ [tn])
          else decode_unsub_loop fuel N payload remaining_len vpos bpos (nodes @ [tn])
        else Ret (SUCCESS, nodes @ [tn]))
     else Ret (PROTOCOL_ERROR, nodes @ [\<lparr> un_reason_code = Some (reason_byte N UNSPECIFIED_ERROR),
            un_topic = \<lparr> str_body = Some body, str_len = 0 \<rparr> \<rparr>]))"

definition decode_unsub_msg ::
  "nat \<Rightarrow> ('m, 'p) unsub_ops \<Rightarrow> 'm \<Rightarrow> u8 \<Rightarrow> 'p packet_unsubscribe \<Rightarrow> (reason_code \<times> 'p packet_unsubscribe) outcome" where
  "decode_unsub_msg fuel N msg proto_ver pkt = (case NNI_GET16 (nng_msg_body N msg) 0 of
     None \<Rightarrow> Fault
   | Some packet_id \<Rightarrow>
      (let vpos = 2;
           (props, vpos, plen) = (if proto_ver = PROTOCOL_v5 N then decode_properties N msg vpos else (None, vpos, 0));
           pkt = pkt\<lparr>up_packet_id := packet_id, up_properties := props, up_prop_len := plen\<rparr>
       in if proto_ver = PROTOCOL_v5 N \<and> check_properties N props \<noteq> SUCCESS then Ret (PROTOCOL_ERROR, pkt)
          else if \<not> node_alloc N 0 then Ret (NNG_ENOMEM, pkt)
          else case decode_unsub_loop fuel N (nng_msg_payload N msg) (ucast (nng_msg_remaining_len N msg)) vpos 0 [] of
                 Ret (r, nodes) \<Rightarrow> Ret (r, pkt\<lparr>up_node := Some nodes\<rparr>)
               | Fault \<Rightarrow> Fault | Out_of_fuel \<Rightarrow> Out_of_fuel))"

section \<open>unsub_ctx_handle\<close>

fun unsub_ctx_loop ::
  "('m, 'd, 'h, 'r) subdb_ops \<Rightarrow> unsub_node list \<Rightarrow> ('m, 'd, 'h, 'r) sub_work \<Rightarrow> unsub_node list \<times> ('m, 'd, 'h, 'r) sub_work" where
  "unsub_ctx_loop D [] w = ([], w)"
| "unsub_ctx_loop D (tn # tns) w =
    (if str_len (un_topic tn) = 0 then
       (let (tns, w) = unsub_ctx_loop D tns w in (tn # tns, w))
     else
       (let topic_str = cstr (take (unat (str_len (un_topic tn))) (the (str_body (un_topic tn))));
            (rv, w) = sub_ctx_del D topic_str (sw_pid w) w;
            tn = tn\<lparr>un_reason_code := Some (if rv = 0 then 0x00 else 0x11)\<rparr>;
            (tns, w) = unsub_ctx_loop D tns w
        in (tn # tns, w)))"

definition unsub_ctx_handle ::
  "('m, 'd, 'h, 'r) subdb_ops \<Rightarrow> 'p packet_unsubscribe \<Rightarrow> ('m, 'd, 'h, 'r) sub_work
    \<Rightarrow> int \<times> 'p packet_unsubscribe \<times> ('m, 'd, 'h, 'r) sub_work" where
  "unsub_ctx_handle D pkt w = (case up_node pkt of
     None \<Rightarrow> (0, pkt, w)
   | Some nodes \<Rightarrow> (let (nodes, w) = unsub_ctx_loop D nodes w in (0, pkt\<lparr>up_node := Some nodes\<rparr>, w)))"

section \<open>encode_unsuback_msg\<close>

text \<open>An indeterminate reason code is sent as whatever byte the memory holds.\<close>

fun append_unsub_reasons :: "('m, 'p) unsub_ops \<Rightarrow> u8 \<Rightarrow> unsub_node list \<Rightarrow> bool \<times> 'm \<Rightarrow> bool \<times> 'm" where
  "append_unsub_reasons N garbage [] s = s"
| "append_unsub_reasons N garbage (tn # tns) s =
    append_unsub_reasons N garbage tns (append_step (nng_msg_append N [case un_reason_code tn of None \<Rightarrow> garbage | Some r \<Rightarrow> r]) s)"

definition encode_unsuback_msg ::
  "('m, 'p) unsub_ops \<Rightarrow> u8 \<Rightarrow> u8 \<Rightarrow> 'p packet_unsubscribe \<Rightarrow> 'm \<Rightarrow> reason_code \<times> 'm" where
  "encode_unsuback_msg N garbage proto_ver pkt msg =
    (let msg = nng_msg_clear N (nng_msg_header_clear N msg);
         s = append_step (nng_msg_append N (NNI_PUT16 (up_packet_id pkt))) (True, msg);
         s = (if fst s \<and> proto_ver = PROTOCOL_v5 N then (True, ignoring_rv (encode_properties N None) (snd s)) else s);
         s = (if proto_ver = PROTOCOL_v5 N
              then append_unsub_reasons N garbage (case up_node pkt of None \<Rightarrow> [] | Some ns \<Rightarrow> ns) s else s);
         s = append_step (nng_msg_header_append N [cmd_byte N CMD_UNSUBACK]) s;
         s = append_step (\<lambda>m. nng_msg_header_append N (put_var_integer N (word_of_nat (length (nng_msg_body N m)))) m) s
     in (if fst s then SUCCESS else PROTOCOL_ERROR, snd s))"

section \<open>unsub_pkt_free\<close>

datatype 'p unsub_release = Unsub_properties "'p option" | Unsub_node | Unsub_packet

text \<open>Without nodes the packet itself is not released.\<close>

definition unsub_pkt_free :: "'p packet_unsubscribe option \<Rightarrow> 'p unsub_release list" where
  "unsub_pkt_free unsub_pkt = (case unsub_pkt of None \<Rightarrow> []
    | Some pkt \<Rightarrow> (case up_node pkt of None \<Rightarrow> []
       | Some nodes \<Rightarrow> (if up_prop_len pkt \<noteq> 0 then [Unsub_properties (up_properties pkt)] else [])
           @ map (\<lambda>_. Unsub_node) nodes @ [Unsub_packet]))"

section \<open>The UNSUBACK\<close>

lemma append_unsub_reasons_bytes:
  assumes "nng_msg_laws N" "nng_msg_memory N"
  shows "\<exists>m'. append_unsub_reasons N g tns (True, m) = (True, m') \<and> nng_msg_header N m' = nng_msg_header N m \<and>
    nng_msg_body N m' = nng_msg_body N m @ map (\<lambda>tn. case un_reason_code tn of None \<Rightarrow> g | Some r \<Rightarrow> r) tns"
proof (induction tns arbitrary: m)
  case (Cons tn tns)
  let ?b = "case un_reason_code tn of None \<Rightarrow> g | Some r \<Rightarrow> r"
  obtain m1 where "append_step (nng_msg_append N [?b]) (True, m) = (True, m1)"
    "nng_msg_header N m1 = nng_msg_header N m" "nng_msg_body N m1 = nng_msg_body N m @ [?b]"
    using append_step_bytes(1) [OF assms] by blast
  then show ?case using Cons.IH [of m1] by auto
qed simp

text \<open>
  The UNSUBACK: the packet id, in MQTT 5 followed by an empty property list and one reason byte
  per topic, under the fixed header of an UNSUBACK with the length of the body.
\<close>

lemma encode_unsuback_bytes:
  assumes L: "nng_msg_laws N" "nng_msg_memory N" and p: "proto_ver = PROTOCOL_v5 N \<longrightarrow> empty_properties N pb"
    and B: "B = NNI_PUT16 (up_packet_id pkt) @ (if proto_ver = PROTOCOL_v5 N then pb @ map (\<lambda>tn. case un_reason_code tn of None \<Rightarrow> g | Some r \<Rightarrow> r)
       (case up_node pkt of None \<Rightarrow> [] | Some ns \<Rightarrow> ns) else [])"
  shows "\<exists>m. encode_unsuback_msg N g proto_ver pkt msg = (SUCCESS, m) \<and> nng_msg_body N m = B \<and>
    nng_msg_header N m = cmd_byte N CMD_UNSUBACK # put_var_integer N (word_of_nat (length B))"
proof -
  let ?m0 = "nng_msg_clear N (nng_msg_header_clear N msg)" and ?ns = "case up_node pkt of None \<Rightarrow> [] | Some ns \<Rightarrow> ns"
  obtain m1 where m1: "append_step (nng_msg_append N (NNI_PUT16 (up_packet_id pkt))) (True, ?m0) = (True, m1)" "nng_msg_header N m1 = []"
    "nng_msg_body N m1 = NNI_PUT16 (up_packet_id pkt)"
    using append_step_bytes(1) [OF L, of "NNI_PUT16 (up_packet_id pkt)" ?m0] nng_msg_lawsD(7-10) [OF L(1)] by auto
  obtain m2 where m2: "(if proto_ver = PROTOCOL_v5 N then append_unsub_reasons N g ?ns (True, ignoring_rv (encode_properties N None) m1)
      else (True, m1)) = (True, m2)" "nng_msg_header N m2 = []" "nng_msg_body N m2 = B"
  proof (cases "proto_ver = PROTOCOL_v5 N")
    case True
    obtain m' where "encode_properties N None m1 = Some m'" "nng_msg_header N m' = []" "nng_msg_body N m' = nng_msg_body N m1 @ pb"
      using p True m1(2) unfolding empty_properties_def by metis
    then show thesis
      using append_unsub_reasons_bytes [OF L, of g ?ns m'] True m1(3) that by (auto simp: ignoring_rv_def B)
  qed (use m1 that in \<open>simp add: B\<close>)
  have s2: "(if proto_ver = PROTOCOL_v5 N then append_unsub_reasons N g ?ns
      (if fst (True, m1) \<and> proto_ver = PROTOCOL_v5 N then (True, ignoring_rv (encode_properties N None) (snd (True, m1))) else (True, m1))
      else (if fst (True, m1) \<and> proto_ver = PROTOCOL_v5 N then (True, ignoring_rv (encode_properties N None) (snd (True, m1))) else (True, m1)))
      = (True, m2)"
    using m2(1) by (auto split: if_splits)
  show ?thesis
    using append_fixed_header [OF L m2(2,3), of N "cmd_byte N CMD_UNSUBACK"] unfolding encode_unsuback_msg_def Let_def m1(1) s2 by auto
qed

section \<open>Effect on the tables\<close>

fun unsub_topics :: "unsub_node list \<Rightarrow> bytes set" where
  "unsub_topics [] = {}"
| "unsub_topics (tn # tns) = (if str_len (un_topic tn) = 0 then {}
     else {cstr (take (unat (str_len (un_topic tn))) (the (str_body (un_topic tn))))}) \<union> unsub_topics tns"

lemma unsub_ctx_loop_effect:
  assumes L: "subdb_laws D tree subs" and r: "unsub_ctx_loop D tns w = (tns', w')"
  shows "subs (sw_dbhash w') = subs (sw_dbhash w) - {sw_pid w} \<times> unsub_topics tns"
    and "tree (sw_db w') = tree (sw_db w) - unsub_topics tns \<times> {sw_pid w}"
    and "sw_pid w' = sw_pid w"
    and "map un_topic tns' = map un_topic tns"
    and "map un_reason_code tns' = map (\<lambda>tn. if str_len (un_topic tn) = 0 then un_reason_code tn else Some 0) tns"
proof -
  have "subs (sw_dbhash w') = subs (sw_dbhash w) - {sw_pid w} \<times> unsub_topics tns \<and>
    tree (sw_db w') = tree (sw_db w) - unsub_topics tns \<times> {sw_pid w} \<and> sw_pid w' = sw_pid w \<and>
    map un_topic tns' = map un_topic tns \<and>
    map un_reason_code tns' = map (\<lambda>tn. if str_len (un_topic tn) = 0 then un_reason_code tn else Some 0) tns"
    using r
  proof (induction tns arbitrary: tns' w w')
    case (Cons tn tns)
    show ?case
    proof (cases "str_len (un_topic tn) = 0")
      case True
      obtain ts v where l: "unsub_ctx_loop D tns w = (ts, v)" by fastforce
      then have "tns' = tn # ts" "w' = v"
        using Cons.prems True by auto
      then show ?thesis using Cons.IH [OF l] True by auto
    next
      case False
      let ?t = "cstr (take (unat (str_len (un_topic tn))) (the (str_body (un_topic tn))))"
      let ?w = "snd (sub_ctx_del D ?t (sw_pid w) w)"
      have w: "subs (sw_dbhash ?w) = subs (sw_dbhash w) - {(sw_pid w, ?t)}" "tree (sw_db ?w) = tree (sw_db w) - {(?t, sw_pid w)}"
        "sw_pid ?w = sw_pid w" "fst (sub_ctx_del D ?t (sw_pid w) w) = 0"
        by (simp_all add: sub_ctx_del_def Let_def subdb_lawsD(3,7) [OF L])
      obtain ts v where l: "unsub_ctx_loop D tns ?w = (ts, v)" by fastforce
      have r: "tns' = tn\<lparr>un_reason_code := Some 0\<rparr> # ts" "w' = v"
        using Cons.prems False l w(4) by (auto simp: split_beta Let_def)
      show ?thesis
        using Cons.IH [OF l] w False r by auto
    qed
  qed simp
  then show "subs (sw_dbhash w') = subs (sw_dbhash w) - {sw_pid w} \<times> unsub_topics tns"
    "tree (sw_db w') = tree (sw_db w) - unsub_topics tns \<times> {sw_pid w}" "sw_pid w' = sw_pid w"
    "map un_topic tns' = map un_topic tns"
    "map un_reason_code tns' = map (\<lambda>tn. if str_len (un_topic tn) = 0 then un_reason_code tn else Some 0) tns"
    by blast+
qed

section \<open>Properties\<close>

text \<open>
  C25: unsub_ctx_handle removes exactly the topics named in the packet from the topics of the
  pipe, keeps the two tables in agreement and those of other pipes unchanged, and acknowledges
  every nonempty topic with reason code 0, whether or not the pipe had subscribed to it.
\<close>
theorem unsub_ctx_handle_correct:
  assumes L: "subdb_laws D tree subs" "tables_agree tree subs w"
    and p: "up_node pkt = Some nodes"
  shows "\<exists>pkt' nodes' w'. unsub_ctx_handle D pkt w = (0, pkt', w') \<and> up_node pkt' = Some nodes' \<and>
    subs (sw_dbhash w') = subs (sw_dbhash w) - {sw_pid w} \<times> unsub_topics nodes \<and> tables_agree tree subs w' \<and>
    map un_topic nodes' = map un_topic nodes \<and>
    map un_reason_code nodes' = map (\<lambda>tn. if str_len (un_topic tn) = 0 then un_reason_code tn else Some 0) nodes"
proof -
  obtain nodes' w' where l: "unsub_ctx_loop D nodes w = (nodes', w')" by fastforce
  note e = unsub_ctx_loop_effect [OF L(1) l]
  have "tables_agree tree subs w'"
    using L(2) by (auto simp: tables_agree_def e)
  then show ?thesis
    using l p e by (auto simp: unsub_ctx_handle_def)
qed

theorem unsub_ctx_handle_correct_witness:
  "\<exists>pkt' nodes' w'. unsub_ctx_handle set_subdb_ops (\<lparr> up_packet_id = 3, up_properties = None, up_prop_len = 0,
       up_node = Some [\<lparr> un_reason_code = None, un_topic = \<lparr> str_body = Some [97, 0, 1], str_len = 1 \<rparr> \<rparr>] \<rparr> :: bool packet_unsubscribe)
       (sample_sub_work\<lparr>sw_db := [([97], 7), ([98], 7)], sw_dbhash := [(7, [97]), (7, [98])]\<rparr>) = (0, pkt', w') \<and>
     up_node pkt' = Some nodes' \<and> set (sw_dbhash w') = {(7, [98])} \<and> map un_reason_code nodes' = [Some 0]"
proof -
  let ?w = "sample_sub_work\<lparr>sw_db := [([97], 7), ([98], 7)], sw_dbhash := [(7, [97]), (7, [98])]\<rparr>"
  let ?n = "[\<lparr> un_reason_code = None, un_topic = \<lparr> str_body = Some [97, 0, 1], str_len = 1 \<rparr> \<rparr>]"
  let ?p = "\<lparr> up_packet_id = 3, up_properties = None, up_prop_len = 0, up_node = Some ?n \<rparr> :: bool packet_unsubscribe"
  have "tables_agree set set ?w"
    by (auto simp: tables_agree_def)
  moreover have "unsub_topics ?n = {[97]}"
    by (simp add: cstr_def)
  moreover have "sw_pid sample_sub_work = 7"
    by (simp add: sample_sub_work_def)
  ultimately show ?thesis
    using unsub_ctx_handle_correct [OF set_subdb_laws, of ?w ?p ?n] by fastforce
qed

end
