(* ===== verification/PubHandler.thy ===== *)
theory PubHandler
  imports PubCodec
begin

text \<open>
  pub_handler.c, routing: handle_pub decodes a PUBLISH, resolves its topic alias, collects the
  pipes of the subscribers and keeps the retained messages and the message counters.
\<close>

section \<open>State and interface\<close>

record msg_statistics =
  st_initialed :: bool
  st_msg_in :: u64
  st_msg_out :: u64
  st_msg_drop :: u64

record 'm retain_msg =
  rt_qos :: "2 word"
  rt_message :: 'm

datatype 'm msg_event = Clone 'm | FreeMsg 'm

text \<open>
  The tables of nanolib: subscription tree (looked up only), topic aliases 'h, retained
  messages 'r.  Lookups return None for a null pointer.
\<close>

record ('m, 'p, 'h, 'r) db_ops =
  dbtree_find_clients :: "bytes \<Rightarrow> u32 list option"
  dbtree_find_shared_clients :: "bytes \<Rightarrow> u32 list option"
  dbhash_insert_atpair :: "u32 \<Rightarrow> u16 \<Rightarrow> bytes \<Rightarrow> 'h \<Rightarrow> 'h"
  dbhash_find_atpair :: "u32 \<Rightarrow> u16 \<Rightarrow> 'h \<Rightarrow> bytes option"
  dbtree_insert_retain :: "bytes \<Rightarrow> 'm retain_msg \<Rightarrow> 'r \<Rightarrow> 'm retain_msg option \<times> 'r"
  dbtree_delete_retain :: "bytes \<Rightarrow> 'r \<Rightarrow> 'm retain_msg option \<times> 'r"
  nng_msg_proto_set_property :: "'p option \<Rightarrow> 'm \<Rightarrow> 'm"
  retain_alloc :: bool

record ('m, 'p, 'h, 'r) pub_work =
  pw_pid :: u32
  pw_proto_ver :: u8
  pw_msg :: 'm
  pw_packet :: "'p pub_packet_struct option"
  pw_msg_infos :: "u32 list"
  pw_stats :: msg_statistics
  pw_atpairs :: 'h
  pw_db_ret :: 'r
  pw_events :: "'m msg_event list"

section \<open>Counters\<close>

definition msg_statistics_init :: "msg_statistics \<Rightarrow> msg_statistics" where
  "msg_statistics_init m = \<lparr> st_initialed = True, st_msg_in = 0, st_msg_out = 0, st_msg_drop = 0 \<rparr>"

definition nanomq_get_message_in :: "msg_statistics \<Rightarrow> u64" where
  "nanomq_get_message_in g = (if st_initialed g then st_msg_in g else 0)"

definition nanomq_get_message_out :: "msg_statistics \<Rightarrow> u64" where
  "nanomq_get_message_out g = (if st_initialed g then st_msg_out g else 0)"

definition nanomq_get_message_drop :: "msg_statistics \<Rightarrow> u64" where
  "nanomq_get_message_drop g = (if st_initialed g then st_msg_drop g else 0)"

section \<open>Handling a PUBLISH\<close>

definition init_pipe_content :: "('m, 'p, 'h, 'r) pub_work \<Rightarrow> ('m, 'p, 'h, 'r) pub_work" where
  "init_pipe_content w = w\<lparr>pw_msg_infos := []\<rparr>"

fun foreach_client :: "u32 list \<Rightarrow> ('m, 'p, 'h, 'r) pub_work \<Rightarrow> ('m, 'p, 'h, 'r) pub_work" where
  "foreach_client [] w = w"
| "foreach_client (pids # ctxs) w =
    (let w = w\<lparr>pw_stats := (pw_stats w)\<lparr>st_msg_out := st_msg_out (pw_stats w) + 1\<rparr>\<rparr>
     in if pids = 0 then foreach_client ctxs w
        else foreach_client ctxs (w\<lparr>pw_msg_infos := pw_msg_infos w @ [pids]\<rparr>))"

definition handle_pub_retain ::
  "('m, 'p) pub_ops \<Rightarrow> ('m, 'p, 'h, 'r) db_ops \<Rightarrow> bytes \<Rightarrow> 'p pub_packet_struct
    \<Rightarrow> ('m, 'p, 'h, 'r) pub_work \<Rightarrow> ('m, 'p, 'h, 'r) pub_work" where
  "handle_pub_retain N D topic pkt w =
    (if fh_retain (pp_fixed_header pkt) \<noteq> 0 then
       if pl_len (pp_payload pkt) > 0 then
         if \<not> retain_alloc D then w
         else
           (let w = w\<lparr>pw_events := pw_events w @ [Clone (pw_msg w)]\<rparr>;
                w = (if pw_proto_ver w = PROTOCOL_v5 N \<and> vh_properties (pp_var_header pkt) \<noteq> None
                     then w\<lparr>pw_msg := nng_msg_proto_set_property D (vh_properties (pp_var_header pkt)) (pw_msg w)\<rparr>
                     else w);
                retain = \<lparr> rt_qos = fh_qos (pp_fixed_header pkt), rt_message = pw_msg w \<rparr>;
                (r, db_ret) = dbtree_insert_retain D topic retain (pw_db_ret w)
            in w\<lparr>pw_db_ret := db_ret,
                 pw_events := pw_events w @ (case r of None \<Rightarrow> [] | Some ret \<Rightarrow> [FreeMsg (rt_message ret)])\<rparr>)
       else
         (let (r, db_ret) = dbtree_delete_retain D topic (pw_db_ret w)
          in w\<lparr>pw_db_ret := db_ret,
               pw_events := pw_events w @ (case r of None \<Rightarrow> [] | Some ret \<Rightarrow> [FreeMsg (rt_message ret)])\<rparr>)
     else w)"

text \<open>The topic alias step: the topic to route by and the new state, or None to stop.\<close>

definition resolve_alias ::
  "('m, 'p) pub_ops \<Rightarrow> ('m, 'p, 'h, 'r) db_ops \<Rightarrow> 'p pub_packet_struct \<Rightarrow> ('m, 'p, 'h, 'r) pub_work
    \<Rightarrow> (mqtt_string \<times> ('m, 'p, 'h, 'r) pub_work) option" where
  "resolve_alias N D pkt w =
    (let topic = vh_topic_name (pp_var_header pkt);
         pdata = topic_alias N (vh_properties (pp_var_header pkt))
     in if str_len topic > 0 \<and> str_body topic \<noteq> None then
          (case pdata of
             Some a \<Rightarrow> Some (topic, w\<lparr>pw_atpairs :=
                dbhash_insert_atpair D (pw_pid w) a (cstr (the (str_body topic))) (pw_atpairs w)\<rparr>)
           | None \<Rightarrow> Some (topic, w))
        else
          (case pdata of
             Some a \<Rightarrow> (case dbhash_find_atpair D (pw_pid w) a (pw_atpairs w) of
                Some tp \<Rightarrow>
                  (let t = \<lparr> str_body = Some (cstr tp), str_len = word_of_nat (length (cstr tp)) \<rparr>;
                       pkt = pkt\<lparr>pp_var_header := publish (vh_packet_id (pp_var_header pkt)) t
                              (vh_properties (pp_var_header pkt)) (vh_prop_len (pp_var_header pkt))\<rparr>
                   in Some (t, w\<lparr>pw_packet := Some pkt\<rparr>))
              | None \<Rightarrow> None)
           | None \<Rightarrow> Some (topic, w)))"

definition route_pub ::
  "('m, 'p) pub_ops \<Rightarrow> ('m, 'p, 'h, 'r) db_ops \<Rightarrow> bytes \<Rightarrow> ('m, 'p, 'h, 'r) pub_work \<Rightarrow> ('m, 'p, 'h, 'r) pub_work" where
  "route_pub N D topic w =
    (let cli_ctx_list = dbtree_find_clients D topic;
         shared_cli_list = dbtree_find_shared_clients D topic;
         w = (if cli_ctx_list = None \<and> shared_cli_list = None
              then w\<lparr>pw_stats := (pw_stats w)\<lparr>st_msg_drop := st_msg_drop (pw_stats w) + 1\<rparr>\<rparr> else w);
         w = (case cli_ctx_list of None \<Rightarrow> w | Some cs \<Rightarrow> foreach_client cs w);
         w = (case shared_cli_list of None \<Rightarrow> w | Some cs \<Rightarrow> foreach_client cs w)
     in case pw_packet w of None \<Rightarrow> w | Some pkt \<Rightarrow> handle_pub_retain N D topic pkt w)"

definition handle_pub ::
  "('m, 'p) pub_ops \<Rightarrow> ('m, 'p, 'h, 'r) db_ops \<Rightarrow> u8 \<Rightarrow> ('m, 'p, 'h, 'r) pub_work
    \<Rightarrow> (reason_code \<times> ('m, 'p, 'h, 'r) pub_work) option" where
  "handle_pub N D proto w =
    (let w = w\<lparr>pw_msg_infos := []\<rparr>;
         g = (if \<not> st_initialed (pw_stats w) then msg_statistics_init (pw_stats w) else pw_stats w);
         w = w\<lparr>pw_stats := g\<lparr>st_msg_in := st_msg_in g + 1\<rparr>\<rparr>
     in do {
       (result, pkt) \<leftarrow> decode_pub_message N (pw_msg w) proto zero_packet;
       let w = w\<lparr>pw_packet := Some pkt\<rparr>;
       if result \<noteq> SUCCESS then Some (result, w)
       else if fh_packet_type (pp_fixed_header pkt) \<noteq> packet_code N PUBLISH then Some (result, w)
       else case (if proto = PROTOCOL_v5 N then resolve_alias N D pkt w
                  else Some (vh_topic_name (pp_var_header pkt), w)) of
         None \<Rightarrow> Some (result, w)
       | Some (topic, w) \<Rightarrow>
          (case str_body topic of
             None \<Rightarrow> Some (result, w)
           | Some t \<Rightarrow> Some (result, route_pub N D (cstr t) w)) })"

section \<open>What is delivered\<close>

lemma foreach_client_fields:
  "pw_msg_infos (foreach_client cs w) = pw_msg_infos w @ filter (\<lambda>p. p \<noteq> 0) cs"
  "pw_stats (foreach_client cs w) = (pw_stats w)\<lparr>st_msg_out := st_msg_out (pw_stats w) + word_of_nat (length cs)\<rparr>"
  "pw_packet (foreach_client cs w) = pw_packet w"
  "pw_msg (foreach_client cs w) = pw_msg w"
  "pw_atpairs (foreach_client cs w) = pw_atpairs w"
  "pw_db_ret (foreach_client cs w) = pw_db_ret w"
  "pw_events (foreach_client cs w) = pw_events w"
  "pw_pid (foreach_client cs w) = pw_pid w"
  "pw_proto_ver (foreach_client cs w) = pw_proto_ver w"
  by (induction cs arbitrary: w) (auto simp: Let_def add.assoc)

lemma handle_pub_retain_fields:
  "pw_msg_infos (handle_pub_retain N D t pkt w) = pw_msg_infos w"
  "pw_stats (handle_pub_retain N D t pkt w) = pw_stats w"
  "pw_packet (handle_pub_retain N D t pkt w) = pw_packet w"
  "pw_atpairs (handle_pub_retain N D t pkt w) = pw_atpairs w"
  "pw_pid (handle_pub_retain N D t pkt w) = pw_pid w"
  by (simp_all add: handle_pub_retain_def Let_def split_beta)

definition receivers :: "('m, 'p, 'h, 'r) db_ops \<Rightarrow> bytes \<Rightarrow> u32 list" where
  "receivers D t = (case dbtree_find_clients D t of None \<Rightarrow> [] | Some cs \<Rightarrow> cs)
     @ (case dbtree_find_shared_clients D t of None \<Rightarrow> [] | Some cs \<Rightarrow> cs)"

definition nobody :: "('m, 'p, 'h, 'r) db_ops \<Rightarrow> bytes \<Rightarrow> bool" where
  "nobody D t \<longleftrightarrow> dbtree_find_clients D t = None \<and> dbtree_find_shared_clients D t = None"

lemma route_pub_fields:
  "pw_msg_infos (route_pub N D t w) = pw_msg_infos w @ filter (\<lambda>p. p \<noteq> 0) (receivers D t)"
  "pw_stats (route_pub N D t w) = (pw_stats w)\<lparr>st_msg_out := st_msg_out (pw_stats w) + word_of_nat (length (receivers D t)),
     st_msg_drop := st_msg_drop (pw_stats w) + (if nobody D t then 1 else 0)\<rparr>"
  "pw_packet (route_pub N D t w) = pw_packet w"
  "pw_atpairs (route_pub N D t w) = pw_atpairs w"
  "pw_pid (route_pub N D t w) = pw_pid w"
  by (auto simp: route_pub_def Let_def foreach_client_fields handle_pub_retain_fields receivers_def nobody_def
      add.assoc split: option.splits)

lemma handle_pub_routes:
  assumes "decode_pub_message N (pw_msg w) proto zero_packet = Some (SUCCESS, pkt)"
    and "fh_packet_type (pp_fixed_header pkt) = packet_code N PUBLISH"
    and "proto = PROTOCOL_v5 N \<Longrightarrow> resolve_alias N D pkt w0 = Some (topic, w1)"
    and "proto \<noteq> PROTOCOL_v5 N \<Longrightarrow> topic = vh_topic_name (pp_var_header pkt) \<and> w1 = w0"
    and "str_body topic = Some t"
    and "w0 = w\<lparr>pw_msg_infos := [], pw_stats := g\<lparr>st_msg_in := st_msg_in g + 1\<rparr>, pw_packet := Some pkt\<rparr>"
    and "g = (if st_initialed (pw_stats w) then pw_stats w else msg_statistics_init (pw_stats w))"
  shows "handle_pub N D proto w = Some (SUCCESS, route_pub N D (cstr t) w1)"
  using assms by (auto simp: handle_pub_def Let_def)

lemma resolve_alias_topic:
  assumes "str_body (vh_topic_name (pp_var_header pkt)) = Some t" "str_len (vh_topic_name (pp_var_header pkt)) > 0"
  shows "resolve_alias N D pkt w = Some (vh_topic_name (pp_var_header pkt),
    case topic_alias N (vh_properties (pp_var_header pkt)) of None \<Rightarrow> w
    | Some a \<Rightarrow> w\<lparr>pw_atpairs := dbhash_insert_atpair D (pw_pid w) a (cstr t) (pw_atpairs w)\<rparr>)"
  using assms by (simp add: resolve_alias_def Let_def split: option.splits)

text \<open>A received message that carries a PUBLISH with a topic of its own.\<close>

definition publishes ::
  "('m, 'p) pub_ops \<Rightarrow> u8 \<Rightarrow> 'm \<Rightarrow> 'p pub_packet_struct \<Rightarrow> bytes \<Rightarrow> bool" where
  "publishes N proto m pkt t \<longleftrightarrow> decode_pub_message N m proto zero_packet = Some (SUCCESS, pkt) \<and>
     fh_packet_type (pp_fixed_header pkt) = packet_code N PUBLISH \<and>
     str_body (vh_topic_name (pp_var_header pkt)) = Some t \<and> str_len (vh_topic_name (pp_var_header pkt)) > 0"

text \<open>Documented behaviour of the alias table and of the tree of retained messages.\<close>

definition atpair_laws :: "('m, 'p, 'h, 'r) db_ops \<Rightarrow> bool" where
  "atpair_laws D \<longleftrightarrow> (\<forall>pid a t h. dbhash_find_atpair D pid a (dbhash_insert_atpair D pid a t h) = Some t)"

definition retain_laws :: "('m, 'p, 'h, 'r) db_ops \<Rightarrow> (bytes \<Rightarrow> 'r \<Rightarrow> 'm retain_msg option) \<Rightarrow> bool" where
  "retain_laws D find_retain \<longleftrightarrow>
    (\<forall>t m r. fst (dbtree_insert_retain D t m r) = find_retain t r \<and>
       (\<forall>t'. find_retain t' (snd (dbtree_insert_retain D t m r)) = (if t' = t then Some m else find_retain t' r))) \<and>
    (\<forall>t r. fst (dbtree_delete_retain D t r) = find_retain t r \<and>
       (\<forall>t'. find_retain t' (snd (dbtree_delete_retain D t r)) = (if t' = t then None else find_retain t' r)))"

section \<open>An instance of the interface\<close>

definition map_db_ops :: "('m, 'p, u32 \<times> u16 \<rightharpoonup> bytes, bytes \<rightharpoonup> 'm retain_msg) db_ops" where
  "map_db_ops = \<lparr> dbtree_find_clients = (\<lambda>t. if t = [97, 98] then Some [4, 0, 9] else None),
     dbtree_find_shared_clients = (\<lambda>t. None),
     dbhash_insert_atpair = (\<lambda>pid a t h. h((pid, a) \<mapsto> t)), dbhash_find_atpair = (\<lambda>pid a h. h (pid, a)),
     dbtree_insert_retain = (\<lambda>t m r. (r t, r(t \<mapsto> m))), dbtree_delete_retain = (\<lambda>t r. (r t, r(t := None))),
     nng_msg_proto_set_property = (\<lambda>p m. m), retain_alloc = True \<rparr>"

definition idle_work :: "'m \<Rightarrow> ('m, 'p, u32 \<times> u16 \<rightharpoonup> bytes, bytes \<rightharpoonup> 'm retain_msg) pub_work" where
  "idle_work m = \<lparr> pw_pid = 1, pw_proto_ver = 4, pw_msg = m, pw_packet = None, pw_msg_infos = [],
     pw_stats = \<lparr> st_initialed = False, st_msg_in = 0, st_msg_out = 0, st_msg_drop = 0 \<rparr>,
     pw_atpairs = Map.empty, pw_db_ret = Map.empty, pw_events = [] \<rparr>"

text \<open>A PUBLISH of hi to ab at QoS 1, retained.\<close>

definition sample_msg :: "bytes \<times> bytes \<times> (u32 \<times> cmd_type)" where
  "sample_msg = ([0x33, 8], [0, 2, 97, 98, 0, 7, 104, 105], 8, CMD_PUBLISH)"

lemma sample_publishes:
  "publishes list_pub_ops 4 sample_msg (sample_packet\<lparr>pp_fixed_header := (pp_fixed_header sample_packet)
     \<lparr>fh_packet_type := 3, fh_remain_len := 8\<rparr>\<rparr>) [97, 98]"
  unfolding publishes_def
  by (simp add: sample_msg_def sample_packet_def decode_pub_message_def decode_publish_def decode_payload_def Let_def
      list_pub_simps header_of_byte_def zero_packet_def list_copyn_def NNI_GET16_def read_bytes_def cstr_def unat_word_ariths
      word_less_nat_alt)

lemma sample_work_publishes:
  "publishes list_pub_ops 4 (pw_msg (idle_work sample_msg)) (sample_packet\<lparr>pp_fixed_header :=
      (pp_fixed_header sample_packet)\<lparr>fh_packet_type := 3, fh_remain_len := 8\<rparr>\<rparr>) [97, 98]"
  using sample_publishes by (simp add: idle_work_def)

section \<open>Properties\<close>

lemma handle_pub_publishes:
  assumes "publishes N proto (pw_msg w) pkt t"
  shows "\<exists>w1. handle_pub N D proto w = Some (SUCCESS, route_pub N D (cstr t) w1) \<and>
    pw_msg_infos w1 = [] \<and> pw_packet w1 = Some pkt \<and> pw_db_ret w1 = pw_db_ret w \<and> pw_events w1 = pw_events w \<and>
    pw_msg w1 = pw_msg w \<and> pw_proto_ver w1 = pw_proto_ver w \<and> pw_pid w1 = pw_pid w \<and> st_initialed (pw_stats w1) \<and>
    st_msg_in (pw_stats w1) = nanomq_get_message_in (pw_stats w) + 1 \<and>
    st_msg_out (pw_stats w1) = nanomq_get_message_out (pw_stats w) \<and>
    st_msg_drop (pw_stats w1) = nanomq_get_message_drop (pw_stats w) \<and>
    pw_atpairs w1 = (case (if proto = PROTOCOL_v5 N then topic_alias N (vh_properties (pp_var_header pkt)) else None) of
       None \<Rightarrow> pw_atpairs w | Some a \<Rightarrow> dbhash_insert_atpair D (pw_pid w) a (cstr t) (pw_atpairs w))"
proof -
  note P = assms [unfolded publishes_def]
  let ?g = "if st_initialed (pw_stats w) then pw_stats w else msg_statistics_init (pw_stats w)"
  let ?w0 = "w\<lparr>pw_msg_infos := [], pw_stats := ?g\<lparr>st_msg_in := st_msg_in ?g + 1\<rparr>, pw_packet := Some pkt\<rparr>"
  let ?w1 = "if proto = PROTOCOL_v5 N then (case topic_alias N (vh_properties (pp_var_header pkt)) of None \<Rightarrow> ?w0
      | Some a \<Rightarrow> ?w0\<lparr>pw_atpairs := dbhash_insert_atpair D (pw_pid w) a (cstr t) (pw_atpairs w)\<rparr>) else ?w0"
  have "handle_pub N D proto w = Some (SUCCESS, route_pub N D (cstr t) ?w1)"
    by (rule handle_pub_routes [of N w proto pkt D ?w0 "vh_topic_name (pp_var_header pkt)" ?w1 t ?g])
      (use P in \<open>auto simp: resolve_alias_topic [of pkt t] split: option.splits\<close>)
  then show ?thesis
    by (intro exI [of _ ?w1]) (auto simp: msg_statistics_init_def nanomq_get_message_in_def
        nanomq_get_message_out_def nanomq_get_message_drop_def split: option.splits)
qed

text \<open>
  C15: Delivery: a PUBLISH with a topic reaches exactly the nonzero pipes that the subscription
  tree lists for the topic, first the ordinary subscribers and then the shared ones, in order;
  the counters go up by one message in, one message out for every listed pipe, and one
  message dropped exactly when the tree lists nobody.
\<close>
theorem handle_pub_delivers:
  assumes "publishes N proto (pw_msg w) pkt t"
  shows "\<exists>w'. handle_pub N D proto w = Some (SUCCESS, w') \<and>
    pw_msg_infos w' = filter (\<lambda>p. p \<noteq> 0) (receivers D (cstr t)) \<and>
    nanomq_get_message_in (pw_stats w') = nanomq_get_message_in (pw_stats w) + 1 \<and>
    nanomq_get_message_out (pw_stats w') = nanomq_get_message_out (pw_stats w) + word_of_nat (length (receivers D (cstr t))) \<and>
    nanomq_get_message_drop (pw_stats w') = nanomq_get_message_drop (pw_stats w) + (if nobody D (cstr t) then 1 else 0)"
proof -
  obtain w1 where w1: "handle_pub N D proto w = Some (SUCCESS, route_pub N D (cstr t) w1)" "pw_msg_infos w1 = []"
    "st_initialed (pw_stats w1)" "st_msg_in (pw_stats w1) = nanomq_get_message_in (pw_stats w) + 1"
    "st_msg_out (pw_stats w1) = nanomq_get_message_out (pw_stats w)"
    "st_msg_drop (pw_stats w1) = nanomq_get_message_drop (pw_stats w)"
    using handle_pub_publishes [OF assms, of D] by blast
  have counters: "nanomq_get_message_in g = st_msg_in g" "nanomq_get_message_out g = st_msg_out g"
    "nanomq_get_message_drop g = st_msg_drop g" if "st_initialed g" for g
    using that by (simp_all add: nanomq_get_message_in_def nanomq_get_message_out_def nanomq_get_message_drop_def)
  show ?thesis
    by (rule exI [of _ "route_pub N D (cstr t) w1"]) (simp add: w1(1-3) counters route_pub_fields, simp add: w1(4-6))
qed

theorem handle_pub_delivers_witness:
  "\<exists>w'. handle_pub list_pub_ops map_db_ops 4 (idle_work sample_msg) = Some (SUCCESS, w') \<and>
    pw_msg_infos w' = [4, 9] \<and> nanomq_get_message_out (pw_stats w') = 3"
proof -
  have rec: "receivers map_db_ops (cstr [97, 98]) = [4, 0, 9]"
    by (simp add: receivers_def map_db_ops_def cstr_def)
  have zero: "nanomq_get_message_out (pw_stats (idle_work sample_msg)) = 0"
    by (simp add: nanomq_get_message_out_def idle_work_def)
  show ?thesis
    using handle_pub_delivers [OF sample_work_publishes, of map_db_ops] unfolding rec zero by auto
qed

text \<open>
  C16: Topic aliases: after a client has published to a topic together with an alias, an MQTT 5
  PUBLISH of the same client with an empty topic and that alias is routed to the subscribers
  of the remembered topic, which is also filled into the packet.
\<close>
theorem topic_alias_routes:
  assumes laws: "atpair_laws D"
    and p1: "publishes N (PROTOCOL_v5 N) (pw_msg w) pkt1 t"
    and a1: "topic_alias N (vh_properties (pp_var_header pkt1)) = Some a"
    and h1: "handle_pub N D (PROTOCOL_v5 N) w = Some (SUCCESS, w1)"
    and p2: "decode_pub_message N m2 (PROTOCOL_v5 N) zero_packet = Some (SUCCESS, pkt2)"
      "fh_packet_type (pp_fixed_header pkt2) = packet_code N PUBLISH"
      "str_len (vh_topic_name (pp_var_header pkt2)) = 0"
    and a2: "topic_alias N (vh_properties (pp_var_header pkt2)) = Some a"
  shows "\<exists>w2. handle_pub N D (PROTOCOL_v5 N) (w1\<lparr>pw_msg := m2\<rparr>) = Some (SUCCESS, w2) \<and>
    pw_msg_infos w2 = filter (\<lambda>p. p \<noteq> 0) (receivers D (cstr t)) \<and>
    map_option (\<lambda>p. str_body (vh_topic_name (pp_var_header p))) (pw_packet w2) = Some (Some (cstr t))"
proof -
  have pid: "pw_pid w1 = pw_pid w" and at: "pw_atpairs w1 = dbhash_insert_atpair D (pw_pid w) a (cstr t) (pw_atpairs w)"
    using handle_pub_publishes [OF p1, of D] h1 a1 by (auto simp: route_pub_fields)
  let ?w = "w1\<lparr>pw_msg := m2\<rparr>"
  let ?g = "if st_initialed (pw_stats ?w) then pw_stats ?w else msg_statistics_init (pw_stats ?w)"
  let ?start = "?w\<lparr>pw_msg_infos := [], pw_stats := ?g\<lparr>st_msg_in := st_msg_in ?g + 1\<rparr>, pw_packet := Some pkt2\<rparr>"
  let ?t = "\<lparr> str_body = Some (cstr t), str_len = word_of_nat (length (cstr t)) \<rparr>"
  let ?pkt = "pkt2\<lparr>pp_var_header := publish (vh_packet_id (pp_var_header pkt2)) ?t
      (vh_properties (pp_var_header pkt2)) (vh_prop_len (pp_var_header pkt2))\<rparr>"
  have res: "resolve_alias N D pkt2 ?start = Some (?t, ?start\<lparr>pw_packet := Some ?pkt\<rparr>)"
    using laws p2(3) a2 pid at by (simp add: resolve_alias_def Let_def atpair_laws_def)
  have "handle_pub N D (PROTOCOL_v5 N) ?w = Some (SUCCESS, route_pub N D (cstr (cstr t)) (?start\<lparr>pw_packet := Some ?pkt\<rparr>))"
    by (rule handle_pub_routes [of N ?w "PROTOCOL_v5 N" pkt2 D ?start ?t "?start\<lparr>pw_packet := Some ?pkt\<rparr>" "cstr t" ?g, OF _ p2(2) res _ _ refl refl])
      (use p2(1) in simp_all)
  then show ?thesis by (simp add: route_pub_fields)
qed

definition alias_ops :: "(bytes \<times> bytes \<times> (u32 \<times> cmd_type), bool) pub_ops" where
  "alias_ops = list_pub_ops\<lparr>copyn_utf8_str := (\<lambda>src pos limit. if src ! 1 = 0 then (None, 2, 0) else list_copyn src pos limit),
     topic_alias := (\<lambda>p. Some 5)\<rparr>"

theorem topic_alias_routes_witness:
  "\<exists>w1 w2. handle_pub alias_ops map_db_ops 5 (idle_work ([0x30, 6], [0, 2, 97, 98, 1, 104], 6, CMD_PUBLISH_V5)) = Some (SUCCESS, w1) \<and>
    handle_pub alias_ops map_db_ops 5 (w1\<lparr>pw_msg := ([0x30, 4], [0, 0, 1, 105], 4, CMD_PUBLISH_V5)\<rparr>) = Some (SUCCESS, w2) \<and>
    pw_msg_infos w2 = [4, 9]"
proof -
  let ?m1 = "([0x30, 6], [0, 2, 97, 98, 1, 104], 6, CMD_PUBLISH_V5)"
  let ?m2 = "([0x30, 4], [0, 0, 1, 105], 4, CMD_PUBLISH_V5)"
  let ?h = "\<lparr> fh_retain = 0, fh_qos = 0, fh_dup = 0, fh_packet_type = 3, fh_remain_len = 6 \<rparr>"
  let ?p1 = "\<lparr> pp_fixed_header = ?h, pp_var_header = publish 0 \<lparr> str_body = Some [97, 98], str_len = 2 \<rparr> (Some False) 1,
     pp_payload = \<lparr> pl_data = Some [104, 0], pl_len = 1 \<rparr> \<rparr>"
  let ?p2 = "\<lparr> pp_fixed_header = ?h\<lparr>fh_remain_len := 4\<rparr>, pp_var_header = publish 0 \<lparr> str_body = None, str_len = 0 \<rparr> (Some False) 1,
     pp_payload = \<lparr> pl_data = Some [105, 0], pl_len = 1 \<rparr> \<rparr>"
  note eval = decode_pub_message_def decode_publish_def decode_payload_def Let_def alias_ops_def
      list_pub_simps header_of_byte_def zero_packet_def list_copyn_def NNI_GET16_def read_bytes_def cstr_def unat_word_ariths
      word_less_nat_alt
  have p1: "publishes alias_ops (PROTOCOL_v5 alias_ops) (pw_msg (idle_work ?m1)) ?p1 [97, 98]"
    unfolding publishes_def by (simp add: idle_work_def eval)
  have p2: "decode_pub_message alias_ops ?m2 (PROTOCOL_v5 alias_ops) zero_packet = Some (SUCCESS, ?p2)"
    by (simp add: eval)
  have v5: "PROTOCOL_v5 alias_ops = 5" "\<And>p. topic_alias alias_ops p = Some 5" "packet_code alias_ops PUBLISH = 3"
    by (simp_all add: alias_ops_def list_pub_simps)
  have laws: "atpair_laws (map_db_ops :: (bytes \<times> bytes \<times> (u32 \<times> cmd_type), bool, _, _) db_ops)"
    by (simp add: atpair_laws_def map_db_ops_def)
  obtain w1 where w1: "handle_pub alias_ops map_db_ops (PROTOCOL_v5 alias_ops) (idle_work ?m1) = Some (SUCCESS, w1)"
    using handle_pub_publishes [OF p1] by blast
  from topic_alias_routes [OF laws p1 v5(2) w1 p2 _ _ v5(2)] w1 show ?thesis
    by (fastforce simp: v5 receivers_def map_db_ops_def cstr_def)
qed

text \<open>
  C17: Retained messages: a PUBLISH with the retain flag and a payload makes the message the
  retained one of its topic, one with an empty payload removes it, no other topic changes,
  and without the flag nothing changes.  The stored message has been cloned once, and the
  one it replaces or removes is freed once.
\<close>
theorem handle_pub_retains:
  assumes laws: "retain_laws D find_retain" "retain_alloc D"
    and pub: "publishes N proto (pw_msg w) pkt t"
    and h: "handle_pub N D proto w = Some (SUCCESS, w')"
  shows "find_retain t' (pw_db_ret w') =
      (if fh_retain (pp_fixed_header pkt) \<noteq> 0 \<and> t' = cstr t
       then if pl_len (pp_payload pkt) > 0 then Some \<lparr> rt_qos = fh_qos (pp_fixed_header pkt), rt_message = pw_msg w' \<rparr> else None
       else find_retain t' (pw_db_ret w)) \<and>
    pw_events w' = pw_events w @
      (if fh_retain (pp_fixed_header pkt) \<noteq> 0
       then (if pl_len (pp_payload pkt) > 0 then [Clone (pw_msg w)] else [])
         @ (case find_retain (cstr t) (pw_db_ret w) of None \<Rightarrow> [] | Some r \<Rightarrow> [FreeMsg (rt_message r)])
       else [])"
proof -
  obtain w1 where w1: "w' = route_pub N D (cstr t) w1" "pw_packet w1 = Some pkt" "pw_db_ret w1 = pw_db_ret w"
    "pw_events w1 = pw_events w" "pw_msg w1 = pw_msg w"
    using handle_pub_publishes [OF pub, of D] h by auto
  obtain w2 where w2: "w' = handle_pub_retain N D (cstr t) pkt w2" "pw_db_ret w2 = pw_db_ret w"
    "pw_events w2 = pw_events w" "pw_msg w2 = pw_msg w"
    using w1 by (auto simp: route_pub_def Let_def foreach_client_fields split: option.splits)
  note R = laws [unfolded retain_laws_def]
  show ?thesis
    using R w2 by (intro conjI) (auto simp: handle_pub_retain_def Let_def split_beta split: option.splits)
qed

theorem handle_pub_retains_witness:
  "\<exists>w'. handle_pub list_pub_ops map_db_ops 4 (idle_work sample_msg) = Some (SUCCESS, w') \<and>
    pw_db_ret w' [97, 98] = Some \<lparr> rt_qos = 1, rt_message = pw_msg w' \<rparr> \<and> pw_events w' = [Clone sample_msg]"
proof -
  have laws: "retain_laws (map_db_ops :: (bytes \<times> bytes \<times> (u32 \<times> cmd_type), bool, _, _) db_ops) (\<lambda>t r. r t)"
    "retain_alloc (map_db_ops :: (bytes \<times> bytes \<times> (u32 \<times> cmd_type), bool, _, _) db_ops)"
    by (simp_all add: retain_laws_def map_db_ops_def)
  have msg: "pw_msg (idle_work m) = m" "pw_db_ret (idle_work m) = Map.empty" "pw_events (idle_work m) = []" for m
    by (simp_all add: idle_work_def)
  note pub = sample_work_publishes
  obtain w' where w': "handle_pub list_pub_ops map_db_ops 4 (idle_work sample_msg) = Some (SUCCESS, w')"
    using handle_pub_publishes [OF pub, of map_db_ops] by blast
  from handle_pub_retains [OF laws pub w', of "[97, 98]"] w' show ?thesis
    by (simp add: sample_packet_def cstr_def msg)
qed

end
