(* ===== verification/Base62.thy ===== *)
theory Base62
  imports Wire
begin

text \<open>
  The base62 encoding of webhook payloads (webhook_post.c): six bits per character, the
  three characters outside the alphabet escaped with a leading i.  The output buffer is
  explicit, so that a write outside it is an outcome (None) of the model.
\<close>

section \<open>The encoder\<close>

definition BASE62_ENCODE_OUT_SIZE :: "u32 \<Rightarrow> u32" where
  "BASE62_ENCODE_OUT_SIZE s = (s * 8) div 6 + 2"

definition store :: "bytes \<Rightarrow> u32 \<Rightarrow> u8 \<Rightarrow> bytes option" where
  "store out idx c = (if unat idx < length out then Some (out[unat idx := c]) else None)"

abbreviation ascii :: "char \<Rightarrow> u8" where
  "ascii \<equiv> of_char"

definition set_char :: "bytes \<Rightarrow> u32 \<Rightarrow> u8 \<Rightarrow> (bytes \<times> u32) option" where
  "set_char out idx c =
    (if c = ascii CHR ''i'' then do {
       out \<leftarrow> store out idx (ascii CHR ''i''); out \<leftarrow> store out (idx + 1) (ascii CHR ''a'');
       Some (out, idx + 2) }
     else if c = ascii CHR ''+'' then do {
       out \<leftarrow> store out idx (ascii CHR ''i''); out \<leftarrow> store out (idx + 1) (ascii CHR ''b'');
       Some (out, idx + 2) }
     else if c = ascii CHR ''/'' then do {
       out \<leftarrow> store out idx (ascii CHR ''i''); out \<leftarrow> store out (idx + 1) (ascii CHR ''c'');
       Some (out, idx + 2) }
     else do { out \<leftarrow> store out idx c; Some (out, idx + 1) })"

definition base62en :: bytes where
  "base62en = map of_char ''ABCDEFGHIJKLMNOPQRSTUVWXYZabcdefghijklmnopqrstuvwxyz0123456789+/'' @ [0]"

definition base62_digit :: "u32 \<Rightarrow> u8 option" where
  "base62_digit i = (if unat i < length base62en then Some (base62en ! unat i) else None)"

function base62_drain :: "u32 \<Rightarrow> u32 \<Rightarrow> bytes \<Rightarrow> u32 \<Rightarrow> (u32 \<times> u32 \<times> bytes \<times> u32) option" where
  "base62_drain val pos out j =
    (if pos > 5 then do {
       let pos' = pos - 6;
       c \<leftarrow> base62_digit (drop_bit (unat pos') val);
       (out, j) \<leftarrow> set_char out j c;
       base62_drain (val AND (push_bit (unat pos') 1 - 1)) pos' out j }
     else Some (val, pos, out, j))"
  by pat_completeness auto
termination
  by (relation "measure (\<lambda>(_, pos, _, _). unat pos)") (auto, unat_arith)

fun base62_bytes :: "bytes \<Rightarrow> u32 \<Rightarrow> u32 \<Rightarrow> bytes \<Rightarrow> u32 \<Rightarrow> (u32 \<times> u32 \<times> bytes \<times> u32) option" where
  "base62_bytes [] val pos out j = Some (val, pos, out, j)"
| "base62_bytes (b # bs) val pos out j = do {
     (val, pos, out, j) \<leftarrow> base62_drain (push_bit 8 val OR (ucast b AND 0xFF)) (pos + 8) out j;
     base62_bytes bs val pos out j }"

definition base62_encode :: "bytes \<Rightarrow> bytes \<Rightarrow> (bytes \<times> u32) option" where
  "base62_encode inp out = do {
     (val, pos, out, j) \<leftarrow> base62_bytes inp 0 0 out 0;
     if pos > 0 then do {
       c \<leftarrow> base62_digit (push_bit (unat (6 - pos)) val);
       set_char out j c }
     else Some (out, j) }"

declare base62_drain.simps [simp del]

section \<open>The encoding\<close>

definition byte_bits :: "u8 \<Rightarrow> bool list" where
  "byte_bits b = map (bit b) (rev [0..<8])"

definition bits_num :: "bool list \<Rightarrow> nat" where
  "bits_num bs = horner_sum of_bool 2 (rev bs)"

function sextets :: "bool list \<Rightarrow> bool list list" where
  "sextets bs = (if bs = [] then [] else take 6 (bs @ replicate 5 False) # sextets (drop 6 bs))"
  by pat_completeness auto
termination
  by (relation "measure length") auto

declare sextets.simps [simp del]

definition escape :: "u8 \<Rightarrow> bytes" where
  "escape c = (if c = ascii CHR ''i'' then map ascii ''ia'' else if c = ascii CHR ''+'' then map ascii ''ib''
     else if c = ascii CHR ''/'' then map ascii ''ic'' else [c])"

definition base62_text :: "bool list \<Rightarrow> bytes" where
  "base62_text bs = concat (map (\<lambda>s. escape (base62en ! bits_num s)) (sextets bs))"

section \<open>Writing characters\<close>

fun put_chars :: "bytes \<Rightarrow> u32 \<Rightarrow> bytes \<Rightarrow> (bytes \<times> u32) option" where
  "put_chars out j [] = Some (out, j)"
| "put_chars out j (c # cs) = do { out \<leftarrow> store out j c; put_chars out (j + 1) cs }"

lemma set_char_put: "set_char out j c = put_chars out j (escape c)"
  by (auto simp: set_char_def escape_def add.assoc)

lemma put_chars_append:
  "put_chars out j (xs @ ys) = do { (out, j) \<leftarrow> put_chars out j xs; put_chars out j ys }"
  by (induction xs arbitrary: out j) (auto simp: bind_assoc split: option.splits)

definition window :: "u32 \<Rightarrow> nat \<Rightarrow> bool list" where
  "window val n = map (bit val) (rev [0..<n])"

lemma rev_upt_split: "m \<le> n \<Longrightarrow> rev [0..<n] = map (\<lambda>i. i + m) (rev [0..<n - m]) @ rev [0..<m]"
  using upt_add_eq_append [of 0 m "n - m"] by (simp add: rev_map [symmetric] map_add_upt)

lemma window_split:
  assumes "6 \<le> n" "n \<le> 32"
  shows "window val n = window (drop_bit (n - 6) val) 6 @ window (val AND (push_bit (n - 6) 1 - 1)) (n - 6)"
proof -
  have mask: "val AND (push_bit (n - 6) 1 - 1) = take_bit (n - 6) val"
    by (simp add: take_bit_eq_mask mask_eq_exp_minus_1 push_bit_eq_mult)
  have "rev [0..<n] = map (\<lambda>i. i + (n - 6)) (rev [0..<6]) @ rev [0..<n - 6]"
    using rev_upt_split [of "n - 6" n] assms(1) by simp
  then show ?thesis
    unfolding mask window_def by (simp add: bit_simps add.commute)
qed

lemma ucast_and_FF: "ucast (b :: u8) AND 0xFF = (ucast b :: u32)"
proof -
  have "(0xFF :: u32) = mask 8"
    by (simp add: mask_eq_exp_minus_1)
  show ?thesis
    unfolding \<open>0xFF = mask 8\<close>
    by (auto intro!: bit_word_eqI simp: bit_simps dest: byte_bit_le)
qed

lemma window_snoc:
  assumes "n + 8 \<le> 32"
  shows "window (push_bit 8 val OR (ucast b AND 0xFF)) (n + 8) = window val n @ byte_bits b"
proof -
  have "ucast b AND 0xFF = (ucast b :: u32)"
    by (rule ucast_and_FF)
  moreover have "rev [0..<n + 8] = map (\<lambda>i. i + 8) (rev [0..<n]) @ rev [0..<8]"
    using rev_upt_split [of 8 "n + 8"] by simp
  ultimately show ?thesis
    using assms unfolding window_def byte_bits_def
    by (auto simp: bit_simps dest: byte_bit_le)
qed

definition below :: "u32 \<Rightarrow> nat \<Rightarrow> bool" where
  "below val n \<longleftrightarrow> take_bit n val = val"

lemma below_bit: "below val n \<Longrightarrow> bit val i \<Longrightarrow> i < n"
  by (metis below_def bit_take_bit_iff)

lemma belowI: "(\<And>i. bit val i \<Longrightarrow> i < n) \<Longrightarrow> below val n"
  unfolding below_def by (rule bit_word_eqI) (auto simp: bit_simps)

lemma below_less: "below v n \<Longrightarrow> unat v < 2 ^ n"
  unfolding below_def by (metis take_bit_nat_less_exp unsigned_take_bit_eq)

lemma below_step: "below val n \<Longrightarrow> below (push_bit 8 val OR (ucast (b :: u8) AND 0xFF)) (n + 8)"
  unfolding ucast_and_FF
  by (rule belowI) (auto simp: bit_simps dest: byte_bit_le below_bit)

lemma below_drop: "below val n \<Longrightarrow> m \<le> n \<Longrightarrow> below (drop_bit (n - m) val) m"
  by (rule belowI) (auto simp: bit_simps dest: below_bit)

lemma below_mask: "below (val AND (push_bit k 1 - 1)) k"
proof -
  have "val AND (push_bit k 1 - 1) = take_bit k val"
    by (simp add: take_bit_eq_mask mask_eq_exp_minus_1 push_bit_eq_mult)
  then show ?thesis by (simp add: below_def)
qed

lemma bits_num_window:
  assumes "below v n" "n \<le> 32"
  shows "bits_num (window v n) = unat v"
proof -
  have "bits_num (window v n) = horner_sum of_bool 2 (map (bit (unat v)) [0..<n])"
    using assms(2) by (simp add: bits_num_def window_def rev_map [symmetric] bit_simps cong: map_cong)
  then show ?thesis
    using below_less [OF assms(1)] by (simp add: horner_sum_bit_eq_take_bit take_bit_nat_eq_self)
qed

lemma length_base62en [simp]: "length base62en = 65"
  by (simp add: base62en_def)

definition digits :: "bool list list \<Rightarrow> bytes" where
  "digits S = concat (map (\<lambda>s. escape (base62en ! bits_num s)) S)"

lemma base62_digit_window:
  assumes "below v 6"
  shows "base62_digit v = Some (base62en ! bits_num (window v 6))"
  using below_less [OF assms] by (simp add: base62_digit_def bits_num_window [OF assms])

lemma drain_correct:
  assumes "below val (unat pos)" "unat pos \<le> 32"
  shows "\<exists>val' pos' S. below val' (unat pos') \<and> unat pos' \<le> 5 \<and> (\<forall>s \<in> set S. length s = 6) \<and>
    window val (unat pos) = concat S @ window val' (unat pos') \<and>
    (\<forall>out j. base62_drain val pos out j =
       do { (out, j) \<leftarrow> put_chars out j (digits S); Some (val', pos', out, j) })"
  using assms
proof (induction "unat pos" arbitrary: val pos rule: less_induct)
  case less
  show ?case
  proof (cases "pos > 5")
    case True
    then have p: "unat (pos - 6) = unat pos - 6" "6 \<le> unat pos" "unat pos - 6 \<le> 32"
      using less.prems(2) by unat_arith+
    let ?d = "drop_bit (unat pos - 6) val" and ?r = "val AND (push_bit (unat pos - 6) 1 - 1)"
    have d: "below ?d 6"
      using less.prems(1) p(2) by (rule below_drop)
    obtain val' pos' S where IH: "below val' (unat pos')" "unat pos' \<le> 5" "\<forall>s \<in> set S. length s = 6"
      "window ?r (unat pos - 6) = concat S @ window val' (unat pos')"
      "\<And>out j. base62_drain ?r (pos - 6) out j =
         do { (out, j) \<leftarrow> put_chars out j (digits S); Some (val', pos', out, j) }"
      using less.hyps [of "pos - 6" ?r] below_mask [of val "unat pos - 6"] p less.prems(2) by auto
    let ?S = "window ?d 6 # S"
    have "window val (unat pos) = concat ?S @ window val' (unat pos')"
      using window_split [OF p(2) less.prems(2), of val] IH(4) by simp
    moreover have "base62_drain ?r (pos - 6) =
        (\<lambda>out j. do { (out, j) \<leftarrow> put_chars out j (digits S); Some (val', pos', out, j) })"
      using IH(5) by (intro ext)
    then have "base62_drain val pos out j =
        do { (out, j) \<leftarrow> put_chars out j (digits ?S); Some (val', pos', out, j) }" for out j
      using True by (subst base62_drain.simps)
        (simp add: Let_def p(1) base62_digit_window [OF d] set_char_put digits_def put_chars_append
          bind_assoc case_prod_beta')
    moreover have "\<forall>s \<in> set ?S. length s = 6"
      using IH(3) by (simp add: window_def)
    ultimately show ?thesis
      using IH(1,2) by blast
  next
    case False
    then have "unat pos \<le> 5" by unat_arith
    moreover have "base62_drain val pos out j = Some (val, pos, out, j)" for out j
      using False by (simp add: base62_drain.simps)
    ultimately show ?thesis
      using less.prems by (intro exI [of _ val] exI [of _ pos] exI [of _ "[]"]) (simp add: digits_def)
  qed
qed

lemma bytes_correct:
  assumes "below val (unat pos)" "unat pos \<le> 5"
  shows "\<exists>val' pos' S. below val' (unat pos') \<and> unat pos' \<le> 5 \<and> (\<forall>s \<in> set S. length s = 6) \<and>
    window val (unat pos) @ concat (map byte_bits bs) = concat S @ window val' (unat pos') \<and>
    (\<forall>out j. base62_bytes bs val pos out j =
       do { (out, j) \<leftarrow> put_chars out j (digits S); Some (val', pos', out, j) })"
  using assms
proof (induction bs arbitrary: val pos)
  case Nil
  then show ?case
    by (intro exI [of _ val] exI [of _ pos] exI [of _ "[]"]) (simp add: digits_def)
next
  case (Cons b bs)
  let ?v = "push_bit 8 val OR (ucast b AND 0xFF)"
  have p: "unat (pos + 8) = unat pos + 8"
    using Cons.prems(2) by (simp add: unat_word_ariths(1))
  obtain v1 p1 S1 where 1: "below v1 (unat p1)" "unat p1 \<le> 5" "\<forall>s \<in> set S1. length s = 6"
    "window ?v (unat (pos + 8)) = concat S1 @ window v1 (unat p1)"
    "\<And>out j. base62_drain ?v (pos + 8) out j =
       do { (out, j) \<leftarrow> put_chars out j (digits S1); Some (v1, p1, out, j) }"
    using drain_correct [of ?v "pos + 8"] below_step [OF Cons.prems(1), of b] p Cons.prems(2) by auto
  obtain v2 p2 S2 where 2: "below v2 (unat p2)" "unat p2 \<le> 5" "\<forall>s \<in> set S2. length s = 6"
    "window v1 (unat p1) @ concat (map byte_bits bs) = concat S2 @ window v2 (unat p2)"
    "\<And>out j. base62_bytes bs v1 p1 out j =
       do { (out, j) \<leftarrow> put_chars out j (digits S2); Some (v2, p2, out, j) }"
    using Cons.IH [OF 1(1,2)] by blast
  have "window val (unat pos) @ concat (map byte_bits (b # bs)) = concat (S1 @ S2) @ window v2 (unat p2)"
    using 1(4) 2(4) Cons.prems(2) unfolding p by (simp add: window_snoc)
      (metis append.assoc)
  moreover have "base62_bytes (b # bs) val pos out j =
      do { (out, j) \<leftarrow> put_chars out j (digits (S1 @ S2)); Some (v2, p2, out, j) }" for out j
    by (simp add: 1(5) 2(5) digits_def put_chars_append bind_assoc case_prod_beta')
  ultimately show ?case
    using 1(3) 2(1-3) 
    apply -
    apply (rule exI [of _ v2])
    apply (rule exI [of _ p2])
    apply (rule exI [of _ "S1 @ S2"])
    by (auto simp: case_prod_beta')
qed

lemma sextets_append: "\<forall>s \<in> set S. length s = 6 \<Longrightarrow> sextets (concat S @ r) = S @ sextets r"
proof (induction S)
  case (Cons s S)
  then show ?case
    by (subst sextets.simps) auto
qed simp

lemma sextets_short: "r \<noteq> [] \<Longrightarrow> length r \<le> 5 \<Longrightarrow> sextets r = [r @ replicate (6 - length r) False]"
  by (subst sextets.simps, subst sextets.simps) (cases r; auto simp: take_replicate min_def)

lemma window_pad:
  assumes "n \<le> 5"
  shows "window (push_bit (6 - n) val) 6 = window val n @ replicate (6 - n) False"
proof -
  have "rev [0..<6] = map (\<lambda>i. i + (6 - n)) (rev [0..<n]) @ rev [0..<6 - n]"
    using rev_upt_split [of "6 - n" 6] assms by simp
  moreover have "map (bit (push_bit (6 - n) val)) (rev [0..<6 - n]) = replicate (6 - n) False"
    by (rule nth_equalityI) (auto simp: bit_simps rev_nth)
  moreover have "map (bit (push_bit (6 - n) val)) (map (\<lambda>i. i + (6 - n)) (rev [0..<n])) = map (bit val) (rev [0..<n])"
    using assms by (auto simp: bit_simps)
  ultimately show ?thesis
    unfolding window_def by (simp only: map_append)
qed

lemma below_pad: "below val n \<Longrightarrow> n \<le> 5 \<Longrightarrow> below (push_bit (6 - n) val) 6"
  by (rule belowI) (auto simp: bit_simps dest: below_bit)

lemma base62_encode_put:
  "base62_encode inp out = put_chars out 0 (base62_text (concat (map byte_bits inp)))"
proof -
  obtain v p S where b: "below v (unat p)" "unat p \<le> 5" "\<forall>s \<in> set S. length s = 6"
    "concat (map byte_bits inp) = concat S @ window v (unat p)"
    "\<And>out j. base62_bytes inp 0 0 out j = do { (out, j) \<leftarrow> put_chars out j (digits S); Some (v, p, out, j) }"
    using bytes_correct [of 0 0 inp] by (auto simp: below_def window_def)
  have s: "sextets (concat (map byte_bits inp)) = S @ sextets (window v (unat p))"
    using sextets_append b(3,4) by simp
  show ?thesis
  proof (cases "p > 0")
    case True
    then have p: "unat (6 - p) = 6 - unat p" "unat p > 0"
      using b(2) by unat_arith+
    have "length (window v (unat p)) = unat p"
      by (simp add: window_def)
    then have "sextets (window v (unat p)) = [window (push_bit (6 - unat p) v) 6]"
      using sextets_short [of "window v (unat p)"] window_pad [OF b(2), of v] b(2) p(2) by force
    then show ?thesis
      using True unfolding base62_encode_def base62_text_def s
      by (simp add: b(5) p(1) base62_digit_window [OF below_pad [OF b(1,2)]] set_char_put
          put_chars_append digits_def bind_assoc case_prod_beta')
  next
    case False
    then have "p = 0" by unat_arith
    then have "sextets (window v (unat p)) = []"
      by (simp add: window_def sextets.simps)
    then show ?thesis
      using False unfolding base62_encode_def base62_text_def s
      by (simp add: b(5) digits_def bind_assoc case_prod_beta')
  qed
qed

lemma put_chars_eq:
  assumes "length out < 2 ^ 32" "unat j \<le> length out"
  shows "put_chars out j cs = (if unat j + length cs \<le> length out
    then Some (take (unat j) out @ cs @ drop (unat j + length cs) out, j + word_of_nat (length cs)) else None)"
  using assms
proof (induction cs arbitrary: out j)
  case (Cons c cs)
  show ?case
  proof (cases "unat j < length out")
    case True
    then have j: "unat (j + 1) = Suc (unat j)"
      using Cons.prems(1) by (simp add: unat_word_ariths(1))
    have "take (Suc (unat j)) (out[unat j := c]) = take (unat j) out @ [c]"
      using True by (simp add: take_Suc_conv_app_nth)
    then show ?thesis
      using True Cons j by (simp add: store_def algebra_simps)
  qed (use Cons.prems in \<open>simp add: store_def\<close>)
qed simp

section \<open>The decoder\<close>

fun unescape :: "bytes \<Rightarrow> bytes" where
  "unescape [] = []"
| "unescape [c] = [c]"
| "unescape (c # d # cs) = (if c = ascii CHR ''i''
     then (if d = ascii CHR ''a'' then ascii CHR ''i'' else if d = ascii CHR ''b'' then ascii CHR ''+''
           else ascii CHR ''/'') # unescape cs
     else c # unescape (d # cs))"

fun digit_index :: "bytes \<Rightarrow> u8 \<Rightarrow> nat" where
  "digit_index [] c = 0"
| "digit_index (d # ds) c = (if c = d then 0 else Suc (digit_index ds c))"

fun chunk8 :: "bool list \<Rightarrow> bytes" where
  "chunk8 (a # b # c # d # e # f # g # h # r) =
     word_of_nat (bits_num [a, b, c, d, e, f, g, h]) # chunk8 r"
| "chunk8 _ = []"

definition base62_decode :: "bytes \<Rightarrow> bytes" where
  "base62_decode t = chunk8 (concat (map (\<lambda>c. map (bit (digit_index base62en c)) (rev [0..<6])) (unescape t)))"

lemma unescape_Cons: "unescape (escape c @ cs) = c # unescape cs"
  by (cases cs) (auto simp: escape_def)

lemma unescape_escape: "unescape (concat (map escape cs)) = cs"
  by (induction cs) (simp_all add: unescape_Cons)

lemma digit_index_nth: "distinct ds \<Longrightarrow> i < length ds \<Longrightarrow> digit_index ds (ds ! i) = i"
proof (induction ds arbitrary: i)
  case (Cons d ds)
  then show ?case by (cases i) auto
qed simp

lemma distinct_base62en: "distinct base62en"
  by (simp add: base62en_def)

lemma bits_num_less: "bits_num bs < 2 ^ length bs"
  unfolding bits_num_def using horner_sum_of_bool_2_less [of "rev bs"] by simp

lemma bits_of_bits_num: "map (bit (bits_num bs)) (rev [0..<length bs]) = bs"
  by (rule nth_equalityI) (auto simp: bits_num_def bit_horner_sum_bit_iff rev_nth)

lemma digit_bits:
  assumes "length s = 6"
  shows "map (bit (digit_index base62en (base62en ! bits_num s))) (rev [0..<6]) = s"
proof -
  have "digit_index base62en (base62en ! bits_num s) = bits_num s"
    using bits_num_less [of s] assms by (intro digit_index_nth distinct_base62en) simp
  then show ?thesis
    using bits_of_bits_num [of s] assms by simp
qed

lemma sextets_concat:
  "\<exists>k \<le> 5. concat (sextets bs) = bs @ replicate k False \<and> (\<forall>s \<in> set (sextets bs). length s = 6)"
proof (induction bs rule: sextets.induct)
  case (1 bs)
  show ?case
  proof (cases "length bs \<le> 5")
    case True
    show ?thesis
    proof (cases "bs = []")
      case False
      then have "sextets bs = [bs @ replicate (6 - length bs) False]" "6 - length bs \<le> 5"
        using sextets_short [OF False True] by (cases bs; simp)+
      then show ?thesis using True by (intro exI [of _ "6 - length bs"]) simp
    qed (simp add: sextets.simps)
  next
    case False
    then have "bs \<noteq> []" "take 6 (bs @ replicate 5 False) = take 6 bs"
      by auto
    then show ?thesis
      using 1 False by (subst (1 2) sextets.simps) auto
  qed
qed

lemma unat_less_256: "unat (b :: u8) < 256"
proof -
  have "unat b < 2 ^ LENGTH(8)" by (rule unsigned_less)
  then show ?thesis by simp
qed

lemma chunk8_bytes:
  assumes "k \<le> 5"
  shows "chunk8 (concat (map byte_bits bs) @ replicate k False) = bs"
proof (induction bs)
  case Nil
  have "k \<in> {0, 1, 2, 3, 4, 5}" using assms by auto
  then show ?case by (auto simp: numeral_eq_Suc)
next
  case (Cons b bs)
  have "bits_num (byte_bits b) = horner_sum of_bool 2 (map (bit (unat b)) [0..<8])"
    by (simp add: bits_num_def byte_bits_def rev_map [symmetric] bit_simps cong: map_cong)
  also have "\<dots> = unat b"
    by (simp only: horner_sum_bit_eq_take_bit) (simp add: take_bit_nat_eq_self unat_less_256)
  finally have "word_of_nat (bits_num (byte_bits b)) = b"
    by simp
  then show ?case
    using Cons by (simp add: byte_bits_def numeral_eq_Suc)
qed

lemma base62_decode_text: "base62_decode (base62_text (concat (map byte_bits bs))) = bs"
proof -
  let ?B = "concat (map byte_bits bs)"
  obtain k where k: "k \<le> 5" "concat (sextets ?B) = ?B @ replicate k False"
    "\<forall>s \<in> set (sextets ?B). length s = 6"
    using sextets_concat by blast
  have eq: "base62_text ?B = concat (map escape (map (\<lambda>s. base62en ! bits_num s) (sextets ?B)))"
    by (simp add: base62_text_def comp_def)
  have "unescape (base62_text ?B) = map (\<lambda>s. base62en ! bits_num s) (sextets ?B)"
    unfolding eq by (rule unescape_escape)
  then have "base62_decode (base62_text ?B) = chunk8 (concat (sextets ?B))"
    using k(3) digit_bits by (simp add: base62_decode_def comp_def del: upt.simps cong: map_cong)
  then show ?thesis
    using k chunk8_bytes by simp
qed

section \<open>Sizes\<close>

definition escaped :: "u8 \<Rightarrow> bool" where
  "escaped c \<longleftrightarrow> c \<in> {ascii CHR ''i'', ascii CHR ''+'', ascii CHR ''/''}"

definition escapes :: "bytes \<Rightarrow> nat" where
  "escapes inp = length (filter escaped (map (\<lambda>s. base62en ! bits_num s) (sextets (concat (map byte_bits inp)))))"

lemma length_escape: "length (escape c) = (if escaped c then 2 else 1)"
  by (auto simp: escape_def escaped_def)

lemma length_concat_escape: "length (concat (map escape cs)) = length cs + length (filter escaped cs)"
  by (induction cs) (auto simp: length_escape)

lemma length_sextets: "length (sextets bs) = (length bs + 5) div 6"
proof (induction bs rule: sextets.induct)
  case (1 bs)
  have step: "length (sextets bs) = (if bs = [] then 0 else Suc (length (sextets (drop 6 bs))))"
    by (subst sextets.simps) simp
  show ?case
  proof (cases "length bs \<le> 6")
    case True
    then have "bs \<noteq> [] \<Longrightarrow> (length bs + 5) div 6 = 1"
      by (cases bs) auto
    then show ?thesis using True step by (auto simp: sextets.simps)
  next
    case False
    then show ?thesis using 1 step by (auto simp: le_div_geq)
  qed
qed

lemma length_bits: "length (concat (map byte_bits inp)) = 8 * length inp"
  by (induction inp) (auto simp: byte_bits_def)

lemma length_base62_text:
  "length (base62_text (concat (map byte_bits inp))) = (8 * length inp + 5) div 6 + escapes inp"
proof -
  have "base62_text (concat (map byte_bits inp)) =
      concat (map escape (map (\<lambda>s. base62en ! bits_num s) (sextets (concat (map byte_bits inp)))))"
    by (simp add: base62_text_def comp_def)
  then show ?thesis
    by (simp only: length_concat_escape escapes_def length_map length_sextets length_bits)
qed

lemma unat_OUT_SIZE: "n < 2 ^ 29 \<Longrightarrow> unat (BASE62_ENCODE_OUT_SIZE (word_of_nat n)) = 8 * n div 6 + 2"
  by (simp add: BASE62_ENCODE_OUT_SIZE_def unat_word_ariths unat_div unat_of_nat mult.commute)

lemma text_0_16: "base62_text (byte_bits 0 @ byte_bits 0x10) = [65, 66, 65]"
  by code_simp

lemma encode_0_16: "base62_encode [0, 0x10] (replicate 4 0) = Some ([65, 66, 65, 0], 3)"
  by code_simp

lemma escapes_8A_28_A2: "escapes [0x8A, 0x28, 0xA2] = 4"
  by code_simp

section \<open>Properties\<close>

text \<open>
  C28: base62_encode writes the base62 text of its input at the start of the output buffer,
  leaves the rest of the buffer alone and returns the length of the text; it writes outside
  the buffer exactly when the text is longer than the buffer.
\<close>
theorem base62_encode_correct:
  assumes "length out < 2 ^ 32"
  shows "base62_encode inp out =
    (let t = base62_text (concat (map byte_bits inp))
     in if length t \<le> length out then Some (t @ drop (length t) out, word_of_nat (length t)) else None)"
  using put_chars_eq [of out 0] assms by (simp add: base62_encode_put Let_def)

theorem base62_encode_correct_witness:
  "base62_encode [0, 0x10] (replicate 4 0) = Some (map of_char ''ABA'' @ [0], 3)"
  using base62_encode_correct [of "replicate 4 0" "[0, 0x10]"]
  by (simp add: text_0_16 Let_def)

text \<open>
  C29: The base62 text of a payload determines the payload: the decoder that undoes the
  escapes, looks the digits up and regroups their bits by eight gives back every input of
  base62_encode that fitted its buffer.
\<close>
theorem base62_decode_encode:
  assumes "length out < 2 ^ 32" "base62_encode inp out = Some (out', n)"
  shows "base62_decode (take (unat n) out') = inp"
proof -
  let ?t = "base62_text (concat (map byte_bits inp))"
  have "out' = ?t @ drop (length ?t) out" "unat n = length ?t"
    using put_chars_eq [of out 0 ?t] assms
    by (auto simp: base62_encode_put unat_of_nat split: if_splits)
  then show ?thesis by (simp add: base62_decode_text)
qed

theorem base62_decode_encode_witness:
  "base62_encode [0, 0x10] (replicate 4 0) = Some (map of_char ''ABA'' @ [0], 3) \<and>
   base62_decode (map of_char ''ABA'') = [0, 0x10]"
  using base62_decode_encode [of "replicate 4 0" "[0, 0x10]" "map of_char ''ABA'' @ [0]" 3]
  by (simp add: encode_0_16)

text \<open>
  C30: The buffer webhook_msg_publish allocates with BASE62_ENCODE_OUT_SIZE is large enough
  for the encoded text (without a terminating zero) exactly for payloads with at most two escaped characters, or one when the payload length is
  not a multiple of three: the macro makes no room for the second byte of an escape.
\<close>
theorem base62_out_size_fits_iff:
  assumes "length inp < 2 ^ 29"
  shows "base62_encode inp (replicate (unat (BASE62_ENCODE_OUT_SIZE (word_of_nat (length inp)))) 0) \<noteq> None
    \<longleftrightarrow> escapes inp \<le> (if 3 dvd length inp then 2 else 1)"
proof -
  let ?n = "length inp"
  let ?out = "replicate (unat (BASE62_ENCODE_OUT_SIZE (word_of_nat ?n))) (0 :: u8)"
  have size: "length ?out = 8 * ?n div 6 + 2"
    using unat_OUT_SIZE [OF assms] by simp
  then have "length ?out < 2 ^ 32"
    using assms by simp
  then have "base62_encode inp ?out \<noteq> None \<longleftrightarrow> (8 * ?n + 5) div 6 + escapes inp \<le> 8 * ?n div 6 + 2"
    using put_chars_eq [of ?out 0 "base62_text (concat (map byte_bits inp))"] size
    by (simp add: base62_encode_put length_base62_text)
  moreover have "(8 * ?n + 5) div 6 = 8 * ?n div 6 + (if 3 dvd ?n then 0 else 1)"
    by presburger
  ultimately show ?thesis by auto
qed

theorem base62_out_size_fits_iff_witness:
  "base62_encode [0x8A, 0x28, 0xA2] (replicate (unat (BASE62_ENCODE_OUT_SIZE 3)) 0) = None"
  using base62_out_size_fits_iff [of "[0x8A, 0x28, 0xA2]"]
  by (simp add: escapes_8A_28_A2 numeral_3_eq_3 [symmetric] del: not_None_eq)

end
