(* ===== verification/Webhook.thy ===== *)
theory Webhook
  imports Base62 Packets
begin

text \<open>
  webhook_post.c: which broker events are posted to the web hook and with which JSON object.
  webhook_inproc.c: the worker that queues the posted messages for the HTTP client.
\<close>

section \<open>Configuration and interface\<close>

datatype webhook_event = MESSAGE_PUBLISH | CLIENT_CONNACK | CLIENT_DISCONNECTED | OTHER_EVENT nat

datatype payload_encoding = Plain | Base64 | Base62 | Other_encoding

record hook_rule =
  hr_event :: webhook_event
  hr_topic :: "bytes option"

record conf_web_hook =
  hook_enable :: bool
  hook_rules :: "hook_rule list"
  hook_encode_payload :: payload_encoding

text \<open>The arguments of the cJSON calls that build an object; a C string may be a null pointer.\<close>

datatype json_arg = JNumber int | JString "bytes option" | JBool bool | JNull

type_synonym json_obj = "(string \<times> json_arg) list"

record hook_ops =
  topic_filter :: "bytes \<Rightarrow> bytes option \<Rightarrow> bool"
  nng_timestamp :: int
  base64_encode :: "bytes \<Rightarrow> bytes"
  cJSON_PrintUnformatted :: "json_obj \<Rightarrow> bytes"
  nng_send :: "bytes \<Rightarrow> int"

text \<open>What the getters of nng return for a connection.\<close>

record conn_view =
  cp_protover :: u8
  cp_keepalive :: u16
  cp_username :: "bytes option"
  cp_clientid :: "bytes option"

section \<open>Filters\<close>

text \<open>A rule table has at most 65535 entries: the loops count it with a uint16_t.\<close>

fun event_filter :: "hook_rule list \<Rightarrow> webhook_event \<Rightarrow> bool" where
  "event_filter [] event = False"
| "event_filter (r # rs) event = (if hr_event r = event then True else event_filter rs event)"

fun event_filter_with_topic :: "hook_ops \<Rightarrow> hook_rule list \<Rightarrow> webhook_event \<Rightarrow> bytes option \<Rightarrow> bool" where
  "event_filter_with_topic H [] event topic = False"
| "event_filter_with_topic H (r # rs) event topic =
    (if hr_event r = event then
       (case hr_topic r of
          Some f \<Rightarrow> if \<not> topic_filter H f topic then event_filter_with_topic H rs event topic else True
        | None \<Rightarrow> True)
     else event_filter_with_topic H rs event topic)"

section \<open>Posting\<close>

definition undefined_user :: bytes where
  "undefined_user = map of_char ''undefined''"

definition username_arg :: "bytes option \<Rightarrow> json_arg" where
  "username_arg u = JString (Some (case u of None \<Rightarrow> undefined_user | Some n \<Rightarrow> n))"

text \<open>
  The payload entries of the object; None is a write or read outside the encode buffer.  A
  base62 text that fills its buffer has no terminating NUL left for the string it is used as.
\<close>

definition payload_json :: "hook_ops \<Rightarrow> payload_encoding \<Rightarrow> mqtt_payload \<Rightarrow> json_obj option" where
  "payload_json H enc p = (case enc of
     Plain \<Rightarrow> Some [(''payload'', JString (map_option cstr (pl_data p)))]
   | Base64 \<Rightarrow>
      (let encode = base64_encode H (case pl_data p of None \<Rightarrow> [] | Some d \<Rightarrow> take (unat (pl_len p)) d)
       in Some [(''payload'', if length encode > 0 then JString (Some (cstr encode)) else JNull)])
   | Base62 \<Rightarrow>
      (let out_size = BASE62_ENCODE_OUT_SIZE (pl_len p);
           encode = replicate (unat out_size) 0
       in do {
         (encode, len) \<leftarrow> base62_encode (case pl_data p of None \<Rightarrow> [] | Some d \<Rightarrow> take (unat (pl_len p)) d) encode;
         if len > 0 then
           if 0 \<in> set encode then Some [(''payload'', JString (Some (cstr encode)))] else None
         else Some [(''payload'', JNull)] })
   | Other_encoding \<Rightarrow> Some [])"

text \<open>Each post returns the return code and the bytes handed to nng_send, if any.\<close>

definition post :: "hook_ops \<Rightarrow> json_obj \<Rightarrow> int \<times> bytes option" where
  "post H obj = (let json = cJSON_PrintUnformatted H obj; sent = cstr json in (nng_send H sent, Some sent))"

definition webhook_msg_publish ::
  "hook_ops \<Rightarrow> conf_web_hook \<Rightarrow> 'p pub_packet_struct \<Rightarrow> bytes option \<Rightarrow> bytes option \<Rightarrow> (int \<times> bytes option) option" where
  "webhook_msg_publish H hook pkt username client_id =
    (let topic = str_body (vh_topic_name (pp_var_header pkt)) in
     if \<not> hook_enable hook \<or> \<not> event_filter_with_topic H (hook_rules hook) MESSAGE_PUBLISH topic
     then Some (- 1, None)
     else do {
       let obj = [(''ts'', JNumber (nng_timestamp H)), (''topic'', JString topic),
                  (''retain'', JBool (fh_retain (pp_fixed_header pkt) \<noteq> 0)),
                  (''qos'', JNumber (uint (fh_qos (pp_fixed_header pkt)))),
                  (''action'', JString (Some (map of_char ''message_publish''))),
                  (''from_username'', username_arg username),
                  (''from_client_id'', case client_id of Some c \<Rightarrow> JString (Some c) | None \<Rightarrow> JNull)];
       p \<leftarrow> payload_json H (hook_encode_payload hook) (pp_payload pkt);
       Some (post H (obj @ p)) })"

definition webhook_client_connack ::
  "hook_ops \<Rightarrow> conf_web_hook \<Rightarrow> u8 \<Rightarrow> u16 \<Rightarrow> bool \<Rightarrow> bytes option \<Rightarrow> bytes option \<Rightarrow> int \<times> bytes option" where
  "webhook_client_connack H hook proto_ver keepalive success username client_id =
    (if \<not> hook_enable hook \<or> \<not> event_filter (hook_rules hook) CLIENT_CONNACK then (- 1, None)
     else post H
       [(''proto_ver'', JNumber (uint proto_ver)), (''keepalive'', JNumber (uint keepalive)),
        (''conn_ack'', JString (Some (map of_char (if success then ''success'' else ''fail'')))),
        (''username'', username_arg username), (''clientid'', JString client_id),
        (''action'', JString (Some (map of_char ''client_connack'')))])"

definition webhook_client_disconnect ::
  "hook_ops \<Rightarrow> conf_web_hook \<Rightarrow> u8 \<Rightarrow> u16 \<Rightarrow> bool \<Rightarrow> bytes option \<Rightarrow> bytes option \<Rightarrow> int \<times> bytes option" where
  "webhook_client_disconnect H hook proto_ver keepalive success username client_id =
    (if \<not> hook_enable hook \<or> \<not> event_filter (hook_rules hook) CLIENT_DISCONNECTED then (- 1, None)
     else post H
       [(''reason'', JString (Some (map of_char (if success then ''normal'' else ''abnormal'')))),
        (''username'', username_arg username), (''clientid'', JString client_id),
        (''action'', JString (Some (map of_char ''client_disconnected'')))])"

text \<open>
  The entry point: the return code, the bytes sent, and the new value of the work flag, which
  is cleared so that an online event is not posted twice.
\<close>

definition webhook_entry ::
  "hook_ops \<Rightarrow> conf_web_hook \<Rightarrow> cmd_type \<Rightarrow> bool \<Rightarrow> conn_view \<Rightarrow> 'p pub_packet_struct
    \<Rightarrow> (int \<times> bytes option \<times> cmd_type) option" where
  "webhook_entry H hook flag success cparam pkt =
    (if \<not> hook_enable hook then Some (0, None, flag)
     else do {
       (rv, sent) \<leftarrow> (case flag of
          CMD_CONNACK \<Rightarrow> Some (webhook_client_connack H hook (cp_protover cparam) (cp_keepalive cparam) success
             (cp_username cparam) (cp_clientid cparam))
        | CMD_PUBLISH \<Rightarrow> webhook_msg_publish H hook pkt (cp_username cparam) (cp_clientid cparam)
        | CMD_DISCONNECT_EV \<Rightarrow> Some (webhook_client_disconnect H hook (cp_protover cparam) (cp_keepalive cparam) success
             (cp_username cparam) (cp_clientid cparam))
        | _ \<Rightarrow> Some (0, None));
       Some (rv, sent, CMD_NONE) })"

section \<open>The queueing worker\<close>

datatype hook_state = HOOK_INIT | HOOK_RECV | HOOK_WAIT | HOOK_SEND

text \<open>
  The message queue of nng: its elements in order and its capacity.  The operations are
  parameters: put and resize return whether they succeeded.
\<close>

record ('m, 'q) lmq_ops =
  nng_lmq_full :: "'q \<Rightarrow> bool"
  nng_lmq_empty :: "'q \<Rightarrow> bool"
  nng_lmq_len :: "'q \<Rightarrow> nat"
  nng_lmq_cap :: "'q \<Rightarrow> nat"
  nng_lmq_put :: "'m \<Rightarrow> 'q \<Rightarrow> 'q"
  nng_lmq_get :: "'q \<Rightarrow> ('m \<times> 'q) option"
  nng_lmq_resize :: "nat \<Rightarrow> 'q \<Rightarrow> 'q option"

record ('m, 'q) hook_work =
  hw_state :: hook_state
  hw_lmq :: 'q
  hw_receiving :: bool
  hw_posted :: "'m list"

text \<open>
  One call of the callback; aio_msg is the pointer that nng_aio_get_msg returns for a receive that has completed.
  The result of the receive is only printed (fatal of this file does not end the process), so after a receive
  that failed the pointer is queued as well, even a null pointer; messages are pointers here.
\<close>

definition webhook_cb :: "('m, 'q) lmq_ops \<Rightarrow> 'm \<Rightarrow> ('m, 'q) hook_work \<Rightarrow> ('m, 'q) hook_work" where
  "webhook_cb Q aio_msg w = (case hw_state w of
     HOOK_INIT \<Rightarrow> w\<lparr>hw_state := HOOK_RECV, hw_receiving := True\<rparr>
   | HOOK_RECV \<Rightarrow>
      (let lmq = hw_lmq w;
           lmq = (if nng_lmq_full Q lmq then
                    (let lmq_cap = nng_lmq_cap Q lmq
                     in case nng_lmq_resize Q (lmq_cap + lmq_cap div 2) lmq of None \<Rightarrow> lmq | Some q \<Rightarrow> q)
                  else lmq);
           lmq = nng_lmq_put Q aio_msg lmq
       in w\<lparr>hw_lmq := lmq, hw_state := HOOK_RECV, hw_receiving := True\<rparr>)
   | _ \<Rightarrow> w)"

definition NANO_LMQ_INIT_CAP :: nat where
  "NANO_LMQ_INIT_CAP = 16"

text \<open>One round of the loop of the sending thread.\<close>

definition thread_cb_round :: "('m, 'q) lmq_ops \<Rightarrow> ('m, 'q) hook_work \<Rightarrow> ('m, 'q) hook_work" where
  "thread_cb_round Q w =
    (if \<not> nng_lmq_empty Q (hw_lmq w) then
       (case nng_lmq_get Q (hw_lmq w) of
          Some (msg, q) \<Rightarrow> w\<lparr>hw_lmq := q, hw_posted := hw_posted w @ [msg]\<rparr>
        | None \<Rightarrow> w)
     else
       (let lmq_len = nng_lmq_len Q (hw_lmq w) in
        if lmq_len > NANO_LMQ_INIT_CAP * 2 then
          (let lmq_cap = nng_lmq_cap Q (hw_lmq w) in
           if lmq_cap > lmq_len * 2 then
             (case nng_lmq_resize Q (lmq_cap div 2) (hw_lmq w) of None \<Rightarrow> w | Some q \<Rightarrow> w\<lparr>hw_lmq := q\<rparr>)
           else w)
        else w))"

section \<open>What is posted\<close>

lemma event_filter_iff: "event_filter rs e \<longleftrightarrow> (\<exists>r \<in> set rs. hr_event r = e)"
  by (induction rs) auto

lemma event_filter_with_topic_iff:
  "event_filter_with_topic H rs e t \<longleftrightarrow>
    (\<exists>r \<in> set rs. hr_event r = e \<and> (\<forall>f. hr_topic r = Some f \<longrightarrow> topic_filter H f t))"
  by (induction rs) (auto split: option.splits)

text \<open>The rules select an event of the broker.\<close>

definition wanted :: "hook_ops \<Rightarrow> conf_web_hook \<Rightarrow> cmd_type \<Rightarrow> 'p pub_packet_struct \<Rightarrow> bool" where
  "wanted H hook flag pkt \<longleftrightarrow> hook_enable hook \<and>
    (flag = CMD_CONNACK \<and> (\<exists>r \<in> set (hook_rules hook). hr_event r = CLIENT_CONNACK) \<or>
     flag = CMD_DISCONNECT_EV \<and> (\<exists>r \<in> set (hook_rules hook). hr_event r = CLIENT_DISCONNECTED) \<or>
     flag = CMD_PUBLISH \<and> (\<exists>r \<in> set (hook_rules hook). hr_event r = MESSAGE_PUBLISH \<and>
       (\<forall>f. hr_topic r = Some f \<longrightarrow> topic_filter H f (str_body (vh_topic_name (pp_var_header pkt))))))"

section \<open>The queue\<close>

text \<open>Documented behaviour of the queue, elems being its messages from the oldest to the newest.\<close>

definition lmq_laws :: "('m, 'q) lmq_ops \<Rightarrow> ('q \<Rightarrow> 'm list) \<Rightarrow> bool" where
  "lmq_laws Q elems \<longleftrightarrow>
    (\<forall>q. nng_lmq_len Q q = length (elems q)) \<and>
    (\<forall>q. nng_lmq_empty Q q \<longleftrightarrow> elems q = []) \<and>
    (\<forall>q. nng_lmq_full Q q \<longleftrightarrow> nng_lmq_cap Q q \<le> length (elems q)) \<and>
    (\<forall>m q. \<not> nng_lmq_full Q q \<longrightarrow> elems (nng_lmq_put Q m q) = elems q @ [m] \<and>
       nng_lmq_cap Q (nng_lmq_put Q m q) = nng_lmq_cap Q q) \<and>
    (\<forall>q. case nng_lmq_get Q q of None \<Rightarrow> elems q = []
       | Some (m, q') \<Rightarrow> elems q = m # elems q' \<and> nng_lmq_cap Q q' = nng_lmq_cap Q q) \<and>
    (\<forall>n q q'. nng_lmq_resize Q n q = Some q' \<and> length (elems q) \<le> n \<longrightarrow>
       elems q' = elems q \<and> nng_lmq_cap Q q' = n)"

definition lmq_memory :: "('m, 'q) lmq_ops \<Rightarrow> bool" where
  "lmq_memory Q \<longleftrightarrow> (\<forall>n q. nng_lmq_resize Q n q \<noteq> None)"

text \<open>The worker and the thread in any interleaving; the second argument lists what was received.\<close>

inductive hook_reach :: "('m, 'q) lmq_ops \<Rightarrow> ('q \<Rightarrow> 'm list) \<Rightarrow> ('m, 'q) hook_work \<Rightarrow> 'm list \<Rightarrow> bool"
  for Q elems where
  start: "elems q = [] \<Longrightarrow> nng_lmq_cap Q q = NANO_LMQ_INIT_CAP \<Longrightarrow>
    hook_reach Q elems \<lparr> hw_state = HOOK_INIT, hw_lmq = q, hw_receiving = False, hw_posted = [] \<rparr> []"
| init: "hook_reach Q elems w ms \<Longrightarrow> hw_state w = HOOK_INIT \<Longrightarrow> hook_reach Q elems (webhook_cb Q m w) ms"
| recv: "hook_reach Q elems w ms \<Longrightarrow> hw_state w = HOOK_RECV \<Longrightarrow> hook_reach Q elems (webhook_cb Q m w) (ms @ [m])"
| round: "hook_reach Q elems w ms \<Longrightarrow> hook_reach Q elems (thread_cb_round Q w) ms"

definition hook_inv :: "('m, 'q) lmq_ops \<Rightarrow> ('q \<Rightarrow> 'm list) \<Rightarrow> ('m, 'q) hook_work \<Rightarrow> 'm list \<Rightarrow> bool" where
  "hook_inv Q elems w ms \<longleftrightarrow> hw_posted w @ elems (hw_lmq w) = ms \<and> NANO_LMQ_INIT_CAP \<le> nng_lmq_cap Q (hw_lmq w) \<and>
     length (elems (hw_lmq w)) \<le> nng_lmq_cap Q (hw_lmq w) \<and>
     hw_state w \<in> {HOOK_INIT, HOOK_RECV} \<and> (hw_state w = HOOK_RECV \<longrightarrow> hw_receiving w)"

lemma lmq_grow_put:
  assumes L: "lmq_laws Q elems" "lmq_memory Q" and c: "NANO_LMQ_INIT_CAP \<le> nng_lmq_cap Q q" "length (elems q) \<le> nng_lmq_cap Q q"
    and q': "q' = nng_lmq_put Q m (if nng_lmq_full Q q then
         (case nng_lmq_resize Q (nng_lmq_cap Q q + nng_lmq_cap Q q div 2) q of None \<Rightarrow> q | Some q \<Rightarrow> q) else q)"
  shows "elems q' = elems q @ [m]" "NANO_LMQ_INIT_CAP \<le> nng_lmq_cap Q q'" "length (elems q') \<le> nng_lmq_cap Q q'"
proof -
  note put = L(1) [unfolded lmq_laws_def, THEN conjunct2, THEN conjunct2, THEN conjunct2, THEN conjunct1, rule_format]
  note full = L(1) [unfolded lmq_laws_def, THEN conjunct2, THEN conjunct2, THEN conjunct1, rule_format]
  note resize = L(1) [unfolded lmq_laws_def, THEN conjunct2, THEN conjunct2, THEN conjunct2, THEN conjunct2, THEN conjunct2, rule_format]
  have "elems q' = elems q @ [m] \<and> NANO_LMQ_INIT_CAP \<le> nng_lmq_cap Q q' \<and> length (elems q') \<le> nng_lmq_cap Q q'"
  proof (cases "nng_lmq_full Q q")
    case True
    obtain r where r: "nng_lmq_resize Q (nng_lmq_cap Q q + nng_lmq_cap Q q div 2) q = Some r"
      using L(2) unfolding lmq_memory_def by blast
    then have "elems r = elems q" "nng_lmq_cap Q r = nng_lmq_cap Q q + nng_lmq_cap Q q div 2"
      using resize [of "nng_lmq_cap Q q + nng_lmq_cap Q q div 2" q r] c(2) by simp_all
    moreover from this have "\<not> nng_lmq_full Q r"
      using full [of r] c by (simp add: NANO_LMQ_INIT_CAP_def)
    ultimately show ?thesis
      using put [of r m] q' True r c by (simp add: NANO_LMQ_INIT_CAP_def)
  next
    case False
    then show ?thesis
      using put [OF False, of m] q' c full [of q] by simp
  qed
  then show "elems q' = elems q @ [m]" "NANO_LMQ_INIT_CAP \<le> nng_lmq_cap Q q'" "length (elems q') \<le> nng_lmq_cap Q q'"
    by blast+
qed

lemma hook_inv_recv:
  assumes "lmq_laws Q elems" "lmq_memory Q" "hook_inv Q elems w ms" "hw_state w = HOOK_RECV"
  shows "hook_inv Q elems (webhook_cb Q m w) (ms @ [m])"
  using assms lmq_grow_put [OF assms(1,2), of "hw_lmq w" _ m]
  by (auto simp: hook_inv_def webhook_cb_def Let_def)

lemma hook_inv_round:
  assumes L: "lmq_laws Q elems" and i: "hook_inv Q elems w ms"
  shows "hook_inv Q elems (thread_cb_round Q w) ms"
proof (cases "elems (hw_lmq w)")
  case Nil
  then have "thread_cb_round Q w = w"
    using L by (simp add: thread_cb_round_def lmq_laws_def Let_def)
  then show ?thesis using i by simp
next
  case (Cons m ms')
  then obtain q' where "nng_lmq_get Q (hw_lmq w) = Some (m, q')" "elems q' = ms'" "nng_lmq_cap Q q' = nng_lmq_cap Q (hw_lmq w)"
    using L [unfolded lmq_laws_def, THEN conjunct2, THEN conjunct2, THEN conjunct2, THEN conjunct2, THEN conjunct1, rule_format, of "hw_lmq w"]
    by (auto split: option.splits)
  then have "thread_cb_round Q w = w\<lparr>hw_lmq := q', hw_posted := hw_posted w @ [m]\<rparr>"
    using L Cons by (simp add: thread_cb_round_def lmq_laws_def)
  then show ?thesis
    using i Cons \<open>elems q' = ms'\<close> \<open>nng_lmq_cap Q q' = nng_lmq_cap Q (hw_lmq w)\<close> by (simp add: hook_inv_def)
qed

lemma hook_reach_inv:
  assumes "hook_reach Q elems w ms" "lmq_laws Q elems" "lmq_memory Q"
  shows "hook_inv Q elems w ms"
  using assms
proof (induction rule: hook_reach.induct)
  case (start q)
  then show ?case by (simp add: hook_inv_def)
next
  case (init w ms m)
  then show ?case by (simp add: hook_inv_def webhook_cb_def)
qed (simp_all add: hook_inv_recv hook_inv_round)

section \<open>Properties\<close>


definition quiet_hook :: hook_ops where
  "quiet_hook = \<lparr> topic_filter = (\<lambda>f t. Some f = t), nng_timestamp = 0, base64_encode = id,
     cJSON_PrintUnformatted = (\<lambda>obj. [123, 125]), nng_send = (\<lambda>bs. 0) \<rparr>"


text \<open>
  C32: The web hook worker loses and reorders nothing: in every interleaving of its callback with
  the sending thread, the messages posted so far followed by the queued ones are the messages
  received (what nng_aio_get_msg gave, for a failed receive too), in order; and after the first call a receive is always pending.
\<close>
theorem hook_fifo:
  assumes "hook_reach Q elems w ms" "lmq_laws Q elems" "lmq_memory Q"
  shows "hw_posted w @ elems (hw_lmq w) = ms \<and> (hw_state w = HOOK_RECV \<longrightarrow> hw_receiving w)"
  using hook_reach_inv [OF assms] by (simp add: hook_inv_def)

definition list_lmq :: "('m, 'm list \<times> nat) lmq_ops" where
  "list_lmq = \<lparr> nng_lmq_full = (\<lambda>(q, c). c \<le> length q), nng_lmq_empty = (\<lambda>(q, c). q = []),
     nng_lmq_len = (\<lambda>(q, c). length q), nng_lmq_cap = snd,
     nng_lmq_put = (\<lambda>m (q, c). if c \<le> length q then (q, c) else (q @ [m], c)),
     nng_lmq_get = (\<lambda>(q, c). case q of [] \<Rightarrow> None | m # r \<Rightarrow> Some (m, (r, c))),
     nng_lmq_resize = (\<lambda>n (q, c). Some (take n q, n)) \<rparr>"

lemma list_lmq_laws: "lmq_laws list_lmq fst" "lmq_memory list_lmq"
  by (auto simp: lmq_laws_def lmq_memory_def list_lmq_def split: list.splits)

theorem hook_fifo_witness:
  "hw_posted (thread_cb_round list_lmq (webhook_cb list_lmq (7 :: nat) (webhook_cb list_lmq 0
      \<lparr> hw_state = HOOK_INIT, hw_lmq = ([], NANO_LMQ_INIT_CAP), hw_receiving = False, hw_posted = [] \<rparr>))) = [7]"
proof -
  have "hook_reach list_lmq fst (thread_cb_round list_lmq (webhook_cb list_lmq (7 :: nat) (webhook_cb list_lmq 0
      \<lparr> hw_state = HOOK_INIT, hw_lmq = ([], NANO_LMQ_INIT_CAP), hw_receiving = False, hw_posted = [] \<rparr>))) ([] @ [7])"
    by (intro hook_reach.round hook_reach.recv hook_reach.init hook_reach.start)
      (simp_all add: list_lmq_def webhook_cb_def)
  from hook_fifo [OF this list_lmq_laws] show ?thesis
    by (simp add: thread_cb_round_def webhook_cb_def list_lmq_def Let_def NANO_LMQ_INIT_CAP_def)
qed

text \<open>
  The capacity is never reduced again: the sending thread looks at the length only when the
  queue is empty.
\<close>

lemma thread_cb_never_shrinks:
  assumes "lmq_laws Q elems" "elems (hw_lmq w) = []"
  shows "thread_cb_round Q w = w"
  using assms by (simp add: thread_cb_round_def lmq_laws_def Let_def)

end
