(* ===== verification/MqttApi.thy ===== *)
theory MqttApi
  imports Nng
begin

text \<open>
  mqtt_api.c: the envelope in which the HTTP server hands an MQTT message to the broker over
  the in-process socket.  A body of the envelope is header length, header, body length, body,
  client id length, client id and protocol version.
\<close>

section \<open>The interface used\<close>

text \<open>The MQTT codec of nng works on messages of type 'm, connection parameters are of type 'c.\<close>

record ('m, 'c) mqtt_ops = "'m nng_msg_ops" +
  nng_mqtt_msg_alloc :: "int + 'm"
  nng_mqtt_msg_encode :: "'m \<Rightarrow> 'm"
  nng_mqttv5_msg_encode :: "'m \<Rightarrow> 'm"
  nng_mqtt_msg_decode :: "'m \<Rightarrow> 'm"
  nng_mqttv5_msg_decode :: "'m \<Rightarrow> 'm"
  nng_msg_set_conn_param :: "'c \<Rightarrow> 'm \<Rightarrow> 'm"
  conn_param_alloc :: 'c
  conn_param_set_clientid :: "bytes \<Rightarrow> 'c \<Rightarrow> 'c"
  conn_param_set_proto_ver :: "u8 \<Rightarrow> 'c \<Rightarrow> 'c"
  MQTT_PROTOCOL_VERSION_v5 :: u8

section \<open>Operations\<close>

definition create_cparam :: "('m, 'c) mqtt_ops \<Rightarrow> bytes \<Rightarrow> u8 \<Rightarrow> 'c" where
  "create_cparam N clientid proto_ver =
    (let cparam = conn_param_alloc N;
         cparam = conn_param_set_clientid N (cstr clientid) cparam
     in conn_param_set_proto_ver N proto_ver cparam)"

text \<open>
  The result of decoding is None when the code reads or writes outside a buffer.  Otherwise
  it is the return code or the new message, and the messages the call has freed.
\<close>

definition decode_common_mqtt_msg :: "('m, 'c) mqtt_ops \<Rightarrow> 'm \<Rightarrow> ((int + 'm) \<times> 'm list) option" where
  "decode_common_mqtt_msg N src = (case nng_mqtt_msg_alloc N of
     Inl rv \<Rightarrow> Some (Inl rv, [src])
   | Inr msg \<Rightarrow> (let body = nng_msg_body N src; ptr = 0 in do {
       header_len \<leftarrow> NNI_GET32 body ptr;
       let ptr = ptr + 4;
       header \<leftarrow> read_bytes body ptr (unat header_len);
       let msg = ignoring_rv (nng_msg_header_append N header) msg;
       let ptr = ptr + unat header_len;
       body_len \<leftarrow> NNI_GET32 body ptr;
       let ptr = ptr + 4;
       content \<leftarrow> read_bytes body ptr (unat body_len);
       let msg = ignoring_rv (nng_msg_append N content) msg;
       let ptr = ptr + unat body_len;
       clientid_sz \<leftarrow> NNI_GET32 body ptr;
       let ptr = ptr + 4;
       clientid \<leftarrow> (if clientid_sz + 1 = 0 then None else read_bytes body ptr (unat clientid_sz));
       let ptr = ptr + unat clientid_sz;
       proto_ver \<leftarrow> (if ptr < length body then Some (body ! ptr) else None);
       let cparam = create_cparam N (clientid @ [0]) proto_ver;
       let msg = (if proto_ver = MQTT_PROTOCOL_VERSION_v5 N
                  then nng_mqttv5_msg_decode N msg else nng_mqtt_msg_decode N msg);
       let msg = nng_msg_set_conn_param N cparam msg;
       Some (Inr msg, [src]) }))"

definition encode_common_mqtt_msg ::
  "('m, 'c) mqtt_ops \<Rightarrow> 'm \<Rightarrow> bytes \<Rightarrow> u8 \<Rightarrow> (int + 'm) \<times> 'm list" where
  "encode_common_mqtt_msg N src clientid proto_ver =
    (let src = (if proto_ver = MQTT_PROTOCOL_VERSION_v5 N
                then nng_mqttv5_msg_encode N src else nng_mqtt_msg_encode N src);
         clientid_sz = length (cstr clientid)
     in case nng_msg_alloc N of
       Inl rv \<Rightarrow> (Inl rv, [src])
     | Inr msg \<Rightarrow>
        (let msg = ignoring_rv (nng_msg_append_u32 N (word_of_nat (length (nng_msg_header N src)))) msg;
             msg = ignoring_rv (nng_msg_append N (nng_msg_header N src)) msg;
             msg = ignoring_rv (nng_msg_append_u32 N (word_of_nat (length (nng_msg_body N src)))) msg;
             msg = ignoring_rv (nng_msg_append N (nng_msg_body N src)) msg;
             msg = ignoring_rv (nng_msg_append_u32 N (word_of_nat clientid_sz)) msg;
             msg = ignoring_rv (nng_msg_append N (take clientid_sz clientid)) msg;
             msg = ignoring_rv (nng_msg_append N [proto_ver]) msg
         in (Inr msg, [src])))"

section \<open>The envelope\<close>

definition envelope :: "bytes \<Rightarrow> bytes \<Rightarrow> bytes \<Rightarrow> u8 \<Rightarrow> bytes" where
  "envelope hdr bdy cid pv =
     NNI_PUT32 (word_of_nat (length hdr)) @ hdr @ NNI_PUT32 (word_of_nat (length bdy)) @ bdy
     @ NNI_PUT32 (word_of_nat (length cid)) @ cid @ [pv]"

lemma take_length_cstr: "take (length (cstr bs)) bs = cstr bs"
  by (simp add: cstr_def takeWhile_eq_take [symmetric])

lemma encode_common_envelope:
  assumes "nng_msg_laws N" "nng_msg_memory N" "nng_msg_alloc N = Inr m0"
    and "s = (if pv = MQTT_PROTOCOL_VERSION_v5 N then nng_mqttv5_msg_encode N src else nng_mqtt_msg_encode N src)"
  shows "\<exists>e. encode_common_mqtt_msg N src cid pv = (Inr e, [s])
     \<and> nng_msg_body N e = envelope (nng_msg_header N s) (nng_msg_body N s) (cstr cid) pv"
  using assms(3,4)
  by (simp add: encode_common_mqtt_msg_def Let_def envelope_def ignoring_rv_append [OF assms(1,2)]
      nng_msg_lawsD(1,2) [OF assms(1)] take_length_cstr)

definition envelope_sizes :: "bytes \<Rightarrow> bytes \<Rightarrow> bytes \<Rightarrow> bool" where
  "envelope_sizes hdr bdy cid \<longleftrightarrow>
     length hdr < 2 ^ 32 \<and> length bdy < 2 ^ 32 \<and> length cid < 2 ^ 32 - 1"

lemma decode_common_envelope:
  fixes N :: "('m, 'c) mqtt_ops"
  assumes "nng_msg_body N src = envelope hdr bdy cid pv @ rest" "nng_mqtt_msg_alloc N = Inr m0"
    and "envelope_sizes hdr bdy cid"
  shows "decode_common_mqtt_msg N src = Some (Inr (nng_msg_set_conn_param N (create_cparam N cid pv)
      ((if pv = MQTT_PROTOCOL_VERSION_v5 N then nng_mqttv5_msg_decode N else nng_mqtt_msg_decode N)
        (ignoring_rv (nng_msg_append N bdy) (ignoring_rv (nng_msg_header_append N hdr) m0)))), [src])"
proof -
  have u: "unat (word_of_nat (length hdr) :: u32) = length hdr"
    "unat (word_of_nat (length bdy) :: u32) = length bdy"
    "unat (word_of_nat (length cid) :: u32) = length cid"
    using assms(3) by (simp_all add: unat_of_nat envelope_sizes_def)
  have "word_of_nat (length cid) + 1 \<noteq> (0 :: u32)"
    using assms(3) by (intro word_of_nat_Suc_nonzero) (simp add: envelope_sizes_def)
  then show ?thesis
    by (simp add: decode_common_mqtt_msg_def assms(1,2) envelope_def Let_def wire_simps u nth_append create_cparam_def)
qed

text \<open>Conversely, a body from which every read of the decoder is in bounds starts with an envelope.\<close>

lemma unat_below_max: "(u :: u32) + 1 \<noteq> 0 \<Longrightarrow> unat u < 2 ^ 32 - 1"
  using unsigned_less [of u] by unat_arith auto

lemma drop_prefix: "take n (drop p xs) = ys \<Longrightarrow> drop p xs = ys @ drop (p + n) xs"
  by (metis append_take_drop_id drop_drop add.commute)

lemma decode_common_inv:
  assumes "decode_common_mqtt_msg N src \<noteq> None" "nng_mqtt_msg_alloc N = Inr m0"
  shows "\<exists>hdr bdy cid pv rest. envelope_sizes hdr bdy cid
     \<and> nng_msg_body N src = envelope hdr bdy cid pv @ rest"
proof -
  let ?b = "nng_msg_body N src"
  obtain hl bl cl where
    h: "NNI_GET32 ?b 0 = Some hl" "read_bytes ?b 4 (unat hl) = Some (take (unat hl) (drop 4 ?b))" and
    b: "NNI_GET32 ?b (4 + unat hl) = Some bl"
       "4 + unat hl + 4 + unat bl \<le> length ?b" and
    c: "NNI_GET32 ?b (4 + unat hl + 4 + unat bl) = Some cl" "cl + 1 \<noteq> 0"
       "4 + unat hl + 4 + unat bl + 4 + unat cl < length ?b"
    using assms
    by (auto simp: decode_common_mqtt_msg_def Let_def bind_eq_Some_conv read_bytes_def split: if_splits)
  define p1 p2 p3 where "p1 = 4 + unat hl" and "p2 = p1 + 4 + unat bl" and "p3 = p2 + 4 + unat cl"
  define hdr bdy cid where
    "hdr = take (unat hl) (drop 4 ?b)" and "bdy = take (unat bl) (drop (p1 + 4) ?b)" and
    "cid = take (unat cl) (drop (p2 + 4) ?b)"
  have len: "length hdr = unat hl" "length bdy = unat bl" "length cid = unat cl"
    using b(2) c(3) by (auto simp: hdr_def bdy_def cid_def p1_def p2_def)
  have "NNI_PUT32 hl @ drop 4 ?b = ?b"
    using drop_prefix [OF NNI_GET32_SomeD(2) [OF h(1)]] by simp
  moreover have "hdr @ drop p1 ?b = drop 4 ?b"
    using drop_prefix [of "unat hl" 4 ?b hdr] by (simp add: hdr_def p1_def)
  moreover have "NNI_PUT32 bl @ drop (p1 + 4) ?b = drop p1 ?b"
    using drop_prefix [OF NNI_GET32_SomeD(2) [OF b(1)]] by (simp add: p1_def)
  moreover have "bdy @ drop p2 ?b = drop (p1 + 4) ?b"
    using drop_prefix [of "unat bl" "p1 + 4" ?b bdy] by (simp add: bdy_def p2_def)
  moreover have "NNI_PUT32 cl @ drop (p2 + 4) ?b = drop p2 ?b"
    using drop_prefix [OF NNI_GET32_SomeD(2) [OF c(1)]] by (simp add: p1_def p2_def)
  moreover have "cid @ drop p3 ?b = drop (p2 + 4) ?b"
    using drop_prefix [of "unat cl" "p2 + 4" ?b cid] by (simp add: cid_def p3_def)
  moreover have "?b ! p3 # drop (Suc p3) ?b = drop p3 ?b"
    using c(3) by (intro Cons_nth_drop_Suc) (simp add: p1_def p2_def p3_def)
  ultimately have "?b = envelope hdr bdy cid (?b ! p3) @ drop (Suc p3) ?b"
    by (simp add: envelope_def len)
  moreover have "envelope_sizes hdr bdy cid"
    using unsigned_less [of hl] unsigned_less [of bl] unat_below_max [OF c(2)]
    by (simp add: len envelope_sizes_def)
  ultimately show ?thesis by blast
qed

section \<open>Properties\<close>

text \<open>Memory is available, and a freshly allocated message is empty.\<close>

definition mqtt_alloc_laws :: "('m, 'c) mqtt_ops \<Rightarrow> bool" where
  "mqtt_alloc_laws N \<longleftrightarrow> nng_msg_laws N \<and> nng_msg_memory N \<and>
     (\<exists>m. nng_msg_alloc N = Inr m) \<and>
     (\<exists>m. nng_mqtt_msg_alloc N = Inr m \<and> nng_msg_header N m = [] \<and> nng_msg_body N m = [])"

definition pair_mqtt_ops :: "(bytes \<times> bytes \<times> (bytes \<times> u8), bytes \<times> u8) mqtt_ops" where
  "pair_mqtt_ops = nng_msg_ops.extend (list_msg_ops ([], 0))
     \<lparr> nng_mqtt_msg_alloc = Inr ([], [], [], 0),
       nng_mqtt_msg_encode = id, nng_mqttv5_msg_encode = id,
       nng_mqtt_msg_decode = id, nng_mqttv5_msg_decode = id,
       nng_msg_set_conn_param = (\<lambda>c (h, b, _). (h, b, c)),
       conn_param_alloc = ([], 0), conn_param_set_clientid = (\<lambda>i (_, v). (i, v)),
       conn_param_set_proto_ver = (\<lambda>v (i, _). (i, v)), MQTT_PROTOCOL_VERSION_v5 = 5 \<rparr>"

lemma pair_mqtt_laws: "mqtt_alloc_laws pair_mqtt_ops"
  by (auto simp: mqtt_alloc_laws_def nng_msg_laws_def nng_msg_memory_def pair_mqtt_ops_def
      nng_msg_ops.defs list_msg_ops_def)

text \<open>
  C26: What encode_common_mqtt_msg writes, decode_common_mqtt_msg reads back: the decoder
  rebuilds header and body of the encoded source message byte for byte, runs the codec of the
  same protocol version on it, and attaches connection parameters with the client id (up to
  its NUL) and the protocol version.  Each side frees the one message it was given.
\<close>
theorem common_mqtt_msg_roundtrip:
  assumes laws: "mqtt_alloc_laws N"
    and s: "s = (if pv = MQTT_PROTOCOL_VERSION_v5 N then nng_mqttv5_msg_encode N src
                 else nng_mqtt_msg_encode N src)"
    and sz: "envelope_sizes (nng_msg_header N s) (nng_msg_body N s) (cstr cid)"
  shows "\<exists>e m. encode_common_mqtt_msg N src cid pv = (Inr e, [s]) \<and>
     nng_msg_header N m = nng_msg_header N s \<and> nng_msg_body N m = nng_msg_body N s \<and>
     decode_common_mqtt_msg N e = Some (Inr (nng_msg_set_conn_param N (create_cparam N (cstr cid) pv)
       (if pv = MQTT_PROTOCOL_VERSION_v5 N then nng_mqttv5_msg_decode N m else nng_mqtt_msg_decode N m)), [e])"
proof -
  from laws have N: "nng_msg_laws N" "nng_msg_memory N"
    by (simp_all add: mqtt_alloc_laws_def)
  from laws obtain m0 m1 where m: "nng_msg_alloc N = Inr m0" "nng_mqtt_msg_alloc N = Inr m1"
    "nng_msg_header N m1 = []" "nng_msg_body N m1 = []"
    by (auto simp: mqtt_alloc_laws_def)
  obtain e where e: "encode_common_mqtt_msg N src cid pv = (Inr e, [s])"
    "nng_msg_body N e = envelope (nng_msg_header N s) (nng_msg_body N s) (cstr cid) pv"
    using encode_common_envelope [OF N m(1) s] by blast
  show ?thesis
    using e(1) decode_common_envelope [of N e _ _ _ _ "[]", unfolded append_Nil2, OF e(2) m(2) sz]
    by (auto simp: ignoring_rv_append [OF N] m(3,4)
        intro!: exI [of _ "ignoring_rv (nng_msg_append N (nng_msg_body N s))
          (ignoring_rv (nng_msg_header_append N (nng_msg_header N s)) m1)"])
qed

theorem common_mqtt_msg_roundtrip_witness:
  "\<exists>e m. encode_common_mqtt_msg pair_mqtt_ops ([0x30, 5], [0, 1, 97, 98, 99], [], 0) [99, 49, 0] 4
       = (Inr e, [([0x30, 5], [0, 1, 97, 98, 99], [], 0)]) \<and>
     nng_msg_header pair_mqtt_ops m = [0x30, 5] \<and>
     nng_msg_body pair_mqtt_ops m = [0, 1, 97, 98, 99] \<and>
     decode_common_mqtt_msg pair_mqtt_ops e
       = Some (Inr (nng_msg_set_conn_param pair_mqtt_ops (create_cparam pair_mqtt_ops [99, 49] 4) m), [e])"
  using common_mqtt_msg_roundtrip [OF pair_mqtt_laws refl,
      where src = "([0x30, 5], [0, 1, 97, 98, 99], [], 0)" and pv = 4 and cid = "[99, 49, 0]"]
  by (simp add: pair_mqtt_ops_def nng_msg_ops.defs list_msg_ops_def envelope_sizes_def cstr_def)

text \<open>
  C27: decode_common_mqtt_msg makes no check of its own: all its reads and its client id buffer
  stay in bounds exactly when the body it is given starts with an envelope whose three
  lengths are those of its parts.
\<close>
theorem decode_common_in_bounds_iff:
  assumes "nng_mqtt_msg_alloc N = Inr m0"
  shows "decode_common_mqtt_msg N src \<noteq> None \<longleftrightarrow>
    (\<exists>hdr bdy cid pv rest. envelope_sizes hdr bdy cid \<and>
       nng_msg_body N src = envelope hdr bdy cid pv @ rest)"
  using decode_common_inv [OF _ assms] decode_common_envelope [OF _ assms] by fastforce

theorem decode_common_in_bounds_iff_witness:
  "\<not> (\<exists>hdr bdy cid pv rest. envelope_sizes hdr bdy cid \<and> [0, 0, 0, 9, 1] = envelope hdr bdy cid pv @ rest)"
  using decode_common_in_bounds_iff [of pair_mqtt_ops _ "([], [0, 0, 0, 9, 1], [], 0)"]
  by (simp add: pair_mqtt_ops_def nng_msg_ops.defs list_msg_ops_def decode_common_mqtt_msg_def
      NNI_GET32_def read_bytes_def)

end
