(* ===== verification/Broker.thy ===== *)
theory Broker
  imports UnsubHandler PubHandler Webhook MqttApi
begin

text \<open>
  apps/broker.c: the worker.  server_cb is the callback of a worker's asynchronous operation;
  each call does the work of one state (receive, wait, send, end, close) and sets the next one.
  The build has neither SUPP_RULE_ENGINE nor SUPP_AWS_BRIDGE.
\<close>

section \<open>State\<close>

datatype work_state = INIT | RECV | WAIT | SEND | HOOK | END | CLOSE

datatype work_proto = PROTO_MQTT_BROKER | PROTO_MQTT_BRIDGE | PROTO_AWS_BRIDGE | PROTO_HTTP_SERVER

datatype nng_ctx = Broker_ctx | Extra_ctx

text \<open>
  The calls a worker makes that leave it, in order.  A send contains the call that sets the message of
  the operation; Aio_set_msg is such a call without a send.
\<close>

datatype ('m, 'c) broker_event =
    Ctx_recv nng_ctx | Ctx_send nng_ctx 'm | Aio_finish
  | Msg_clone 'm | Msg_free 'm | Conn_clone 'c | Conn_free 'c
  | Hook_post bytes | Bridge_send nat 'm | Aio_set_msg 'm

record bridge_node =
  bn_enable :: bool
  bn_forwards :: "bytes list"

record broker_conf =
  bc_bridge_mode :: bool
  bc_bridge_nodes :: "bridge_node list"
  bc_web_hook :: conf_web_hook

text \<open>
  struct work, with the tables all workers share: the subscription tree, the topics of each
  pipe, the topic aliases, the retained messages and the counters.  An empty list is a null
  vector, None a null pointer.
\<close>

record ('m, 'p, 'd, 'h, 'a, 'r, 'c) nano_work =
  w_state :: work_state
  w_proto :: work_proto
  w_proto_ver :: u8
  w_flag :: cmd_type
  w_msg :: "'m option"
  w_msg_ret :: "'m list"
  w_pid :: u32
  w_code :: reason_code
  w_msg_infos :: "u32 list"
  w_cparam :: 'c
  w_pub_packet :: "'p pub_packet_struct option"
  w_sub_pkt :: "'p packet_subscribe option"
  w_unsub_pkt :: "'p packet_unsubscribe option"
  w_db :: 'd
  w_dbhash :: 'h
  w_atpairs :: 'a
  w_db_ret :: 'r
  w_stats :: msg_statistics
  w_events :: "('m, 'c) broker_event list"

section \<open>Interface\<close>

text \<open>
  The library as each handler sees it, and what the worker itself calls: message and connection
  accessors, the composers of nanolib, and whether the bridging operation is still busy after
  the calls made so far.  unsub_fresh is the uninitialised packet of nng_alloc.
\<close>

record ('m, 'p, 'd, 'h, 'a, 'r, 'c) broker_ops =
  br_pub :: "('m, 'p) pub_ops"
  br_sub :: "('m, 'p) sub_ops"
  br_unsub :: "('m, 'p) unsub_ops"
  br_mqtt :: "('m, 'c) mqtt_ops"
  br_pub_db :: "'d \<Rightarrow> ('m, 'p, 'a, 'r) db_ops"
  br_sub_db :: "('m, 'd, 'h, 'r) subdb_ops"
  br_hook :: hook_ops
  nng_msg_get_type :: "'m \<Rightarrow> cmd_type"
  nng_msg_get_pipe :: "'m \<Rightarrow> u32"
  nng_msg_set_pipe :: "u32 \<Rightarrow> 'm \<Rightarrow> 'm"
  nng_msg_get_conn_param :: "'m \<Rightarrow> 'c"
  nng_msg_get_proto_data :: "'m \<Rightarrow> 'p option"
  nng_clock :: u64
  conn_view_of :: "'c \<Rightarrow> conn_view"
  will_flag :: "'c \<Rightarrow> bool"
  will_retain :: "'c \<Rightarrow> bool"
  will_qos :: "'c \<Rightarrow> u8"
  will_topic :: "'c \<Rightarrow> bytes option"
  will_msg :: "'c \<Rightarrow> bytes option"
  will_property :: "'c \<Rightarrow> 'p option"
  property_pub_by_will :: "'p option \<Rightarrow> 'p option"
  get_properties_len :: "'p option \<Rightarrow> u32"
  nano_msg_notify_connect :: "'c \<Rightarrow> u8 \<Rightarrow> 'm"
  nano_pubmsg_composer :: "bool \<Rightarrow> u8 \<Rightarrow> bytes option \<Rightarrow> bytes option \<Rightarrow> u8 \<Rightarrow> u64 \<Rightarrow> 'm"
  nano_dismsg_composer :: "reason_code \<Rightarrow> 'm"
  dbhash_check_id :: "u32 \<Rightarrow> 'h \<Rightarrow> bool"
  sub_pkt_alloc :: bool
  unsub_pkt_alloc :: bool
  unsub_fresh :: "'p packet_unsubscribe"
  unsub_garbage :: u8
  nng_aio_busy :: "('m, 'c) broker_event list \<Rightarrow> bool"
  set_packet_type_publish :: "'m \<Rightarrow> 'm"
  set_publish_dup :: "bool \<Rightarrow> 'm \<Rightarrow> 'm"
  set_publish_qos :: "u8 \<Rightarrow> 'm \<Rightarrow> 'm"
  set_publish_retain :: "bool \<Rightarrow> 'm \<Rightarrow> 'm"
  set_publish_payload :: "bytes option \<Rightarrow> u32 \<Rightarrow> 'm \<Rightarrow> 'm"
  set_publish_topic :: "bytes option \<Rightarrow> 'm \<Rightarrow> 'm"
  set_publish_property :: "'p option \<Rightarrow> 'm \<Rightarrow> 'm"
  NNG_ECONNSHUT :: int

definition emit :: "('m, 'c) broker_event list \<Rightarrow> ('m, 'p, 'd, 'h, 'a, 'r, 'c) nano_work \<Rightarrow> ('m, 'p, 'd, 'h, 'a, 'r, 'c) nano_work" where
  "emit es w = w\<lparr>w_events := w_events w @ es\<rparr>"

definition recv_ctx :: "('m, 'p, 'd, 'h, 'a, 'r, 'c) nano_work \<Rightarrow> nng_ctx" where
  "recv_ctx w = (if w_proto w = PROTO_MQTT_BROKER then Broker_ctx else Extra_ctx)"

section \<open>Calls of the handlers\<close>

text \<open>
  The handlers work on the same struct; each sees the part of it that it uses.  The outcome
  None of a step is the end of the process: an access out of bounds or to a null pointer, a
  failed allocation of a packet, too little fuel for a decoder, or a call of fatal.
\<close>

definition pub_part :: "'m \<Rightarrow> ('m, 'p, 'd, 'h, 'a, 'r, 'c) nano_work \<Rightarrow> ('m, 'p, 'a, 'r) pub_work" where
  "pub_part m w = \<lparr> pw_pid = w_pid w, pw_proto_ver = w_proto_ver w, pw_msg = m, pw_packet = w_pub_packet w,
     pw_msg_infos = w_msg_infos w, pw_stats = w_stats w, pw_atpairs = w_atpairs w, pw_db_ret = w_db_ret w, pw_events = [] \<rparr>"

fun msg_event :: "'m msg_event \<Rightarrow> ('m, 'c) broker_event" where
  "msg_event (Clone m) = Msg_clone m"
| "msg_event (FreeMsg m) = Msg_free m"

definition set_pub :: "('m, 'p, 'a, 'r) pub_work \<Rightarrow> ('m, 'p, 'd, 'h, 'a, 'r, 'c) nano_work \<Rightarrow> ('m, 'p, 'd, 'h, 'a, 'r, 'c) nano_work" where
  "set_pub p w = emit (map msg_event (pw_events p)) (w\<lparr>w_msg := Some (pw_msg p), w_pub_packet := pw_packet p,
     w_msg_infos := pw_msg_infos p, w_stats := pw_stats p, w_atpairs := pw_atpairs p, w_db_ret := pw_db_ret p\<rparr>)"

definition call_handle_pub ::
  "('m, 'p, 'd, 'h, 'a, 'r, 'c) broker_ops \<Rightarrow> u8 \<Rightarrow> 'm \<Rightarrow> ('m, 'p, 'd, 'h, 'a, 'r, 'c) nano_work
    \<Rightarrow> (reason_code \<times> ('m, 'p, 'd, 'h, 'a, 'r, 'c) nano_work) option" where
  "call_handle_pub B proto m w =
    map_option (\<lambda>(r, p). (r, set_pub p w)) (handle_pub (br_pub B) (br_pub_db B (w_db w)) proto (pub_part m w))"

definition sub_part :: "('m, 'p, 'd, 'h, 'a, 'r, 'c) nano_work \<Rightarrow> ('m, 'd, 'h, 'r) sub_work" where
  "sub_part w = \<lparr> sw_pid = w_pid w, sw_db = w_db w, sw_dbhash = w_dbhash w, sw_db_ret = w_db_ret w, sw_msg_ret = w_msg_ret w \<rparr>"

definition set_sub :: "('m, 'd, 'h, 'r) sub_work \<Rightarrow> ('m, 'p, 'd, 'h, 'a, 'r, 'c) nano_work \<Rightarrow> ('m, 'p, 'd, 'h, 'a, 'r, 'c) nano_work" where
  "set_sub s w = w\<lparr>w_db := sw_db s, w_dbhash := sw_dbhash s, w_db_ret := sw_db_ret s, w_msg_ret := sw_msg_ret s\<rparr>"

definition call_webhook ::
  "('m, 'p, 'd, 'h, 'a, 'r, 'c) broker_ops \<Rightarrow> broker_conf \<Rightarrow> u8 \<Rightarrow> ('m, 'p, 'd, 'h, 'a, 'r, 'c) nano_work
    \<Rightarrow> ('m, 'p, 'd, 'h, 'a, 'r, 'c) nano_work option" where
  "call_webhook B conf reason w =
    (if hook_enable (bc_web_hook conf) \<and> w_flag w = CMD_PUBLISH \<and> w_pub_packet w = None then None
     else do {
       (rv, sent, flag) \<leftarrow> webhook_entry (br_hook B) (bc_web_hook conf) (w_flag w) (reason = 0) (conn_view_of B (w_cparam w))
          (case w_pub_packet w of None \<Rightarrow> zero_packet | Some pkt \<Rightarrow> pkt);
       Some (emit (case sent of None \<Rightarrow> [] | Some s \<Rightarrow> [Hook_post s]) (w\<lparr>w_flag := flag\<rparr>)) })"

section \<open>RECV\<close>

text \<open>The retained messages go out one by one, up to the first one that has expired.\<close>

definition send_retained ::
  "('m, 'p, 'd, 'h, 'a, 'r, 'c) broker_ops \<Rightarrow> u32 \<Rightarrow> 'm list \<Rightarrow> ('m, 'c) broker_event list" where
  "send_retained B pid ms = concat (map (\<lambda>m. [Msg_clone m, Ctx_send Broker_ctx (nng_msg_set_pipe B pid m)])
     (takeWhile (\<lambda>m. check_msg_exp (br_pub B) (nng_clock B) m (nng_msg_get_proto_data B m)) ms))"

definition recv_subscribe ::
  "('m, 'p, 'd, 'h, 'a, 'r, 'c) broker_ops \<Rightarrow> nat \<Rightarrow> 'm \<Rightarrow> ('m, 'p, 'd, 'h, 'a, 'r, 'c) nano_work
    \<Rightarrow> ('m, 'p, 'd, 'h, 'a, 'r, 'c) nano_work option" where
  "recv_subscribe B fuel smsg w =
    (let w = w\<lparr>w_msg_ret := []\<rparr> in
     if \<not> sub_pkt_alloc B then None
     else case decode_sub_msg fuel (br_sub B) smsg (w_proto_ver w) of
       Fault \<Rightarrow> None | Out_of_fuel \<Rightarrow> None
     | Ret (r, pkt) \<Rightarrow> do {
         (rv, w) \<leftarrow> (if r \<noteq> SUCCESS then Some (r, w)
           else map_option (\<lambda>(n, s). (if n = 0 then SUCCESS else CODE n, set_sub s w))
                  (sub_ctx_handle (br_sub B) (br_sub_db B) (Some pkt) (sub_part w)));
         let w = (if rv \<noteq> SUCCESS then w\<lparr>w_code := rv\<rparr> else w);
         if w_code w \<noteq> SUCCESS then
           Some (emit [Conn_free (w_cparam w), Aio_finish] (w\<lparr>w_msg_ret := [], w_sub_pkt := None, w_state := CLOSE\<rparr>))
         else do {
           let smsg = snd (encode_suback_msg (br_sub B) (w_proto_ver w) (Some pkt) smsg);
           let smsg = nng_msg_set_pipe B (w_pid w) (nng_msg_set_cmd_type (br_sub B) CMD_SUBACK smsg);
           Some (emit (send_retained B (w_pid w) (w_msg_ret w) @ [Ctx_send Broker_ctx smsg, Aio_finish])
             (w\<lparr>w_sub_pkt := None, w_msg_ret := [], w_msg := None, w_state := SEND\<rparr>)) } })"

definition recv_unsubscribe ::
  "('m, 'p, 'd, 'h, 'a, 'r, 'c) broker_ops \<Rightarrow> nat \<Rightarrow> 'm \<Rightarrow> ('m, 'p, 'd, 'h, 'a, 'r, 'c) nano_work
    \<Rightarrow> ('m, 'p, 'd, 'h, 'a, 'r, 'c) nano_work option" where
  "recv_unsubscribe B fuel smsg w =
    (let w = w\<lparr>w_pid := nng_msg_get_pipe B smsg\<rparr> in
     if \<not> unsub_pkt_alloc B then None
     else case decode_unsub_msg fuel (br_unsub B) smsg (w_proto_ver w) (unsub_fresh B) of
       Fault \<Rightarrow> None | Out_of_fuel \<Rightarrow> None
     | Ret (r, pkt) \<Rightarrow> do {
         let (pkt, w) = (if r \<noteq> SUCCESS then (pkt, w)
           else let (rv, pkt, s) = unsub_ctx_handle (br_sub_db B) pkt (sub_part w) in (pkt, set_sub s w));
         let smsg = snd (encode_unsuback_msg (br_unsub B) (unsub_garbage B) (w_proto_ver w) pkt smsg);
         Some (emit [Ctx_send Broker_ctx (nng_msg_set_pipe B 0 smsg), Aio_finish]
           (w\<lparr>w_unsub_pkt := None, w_pid := 0, w_msg := None, w_state := SEND\<rparr>)) })"

definition recv_publish ::
  "('m, 'p, 'd, 'h, 'a, 'r, 'c) broker_ops \<Rightarrow> 'm \<Rightarrow> ('m, 'p, 'd, 'h, 'a, 'r, 'c) nano_work
    \<Rightarrow> ('m, 'p, 'd, 'h, 'a, 'r, 'c) nano_work option" where
  "recv_publish B msg w = do {
     let msg = nng_msg_set_cmd_type (br_pub B) (if w_proto_ver w = 5 then CMD_PUBLISH_V5 else CMD_PUBLISH) msg;
     (code, w) \<leftarrow> call_handle_pub B (w_proto_ver w) msg w;
     let w = w\<lparr>w_code := code\<rparr>;
     if w_proto w = PROTO_HTTP_SERVER \<or> w_proto w = PROTO_AWS_BRIDGE then
       (case nng_msg_alloc (br_pub B) of Inl _ \<Rightarrow> None
        | Inr rep_msg \<Rightarrow> Some (emit [Ctx_send Extra_ctx rep_msg] (w\<lparr>w_state := if code = SUCCESS then WAIT else SEND\<rparr>)))
     else if code \<noteq> SUCCESS then
       if w_proto w \<noteq> PROTO_MQTT_BROKER then Some (emit [Aio_finish] (w\<lparr>w_state := SEND\<rparr>))
       else Some (emit [Conn_free (w_cparam w), Aio_finish] (w\<lparr>w_pub_packet := None, w_msg_infos := [], w_state := CLOSE\<rparr>))
     else Some (emit [Aio_finish] (w\<lparr>w_state := WAIT\<rparr>)) }"

definition recv_connack ::
  "('m, 'p, 'd, 'h, 'a, 'r, 'c) broker_ops \<Rightarrow> broker_conf \<Rightarrow> 'm \<Rightarrow> ('m, 'p, 'd, 'h, 'a, 'r, 'c) nano_work
    \<Rightarrow> ('m, 'p, 'd, 'h, 'a, 'r, 'c) nano_work option" where
  "recv_connack B conf msg w = do {
     reason_code \<leftarrow> (if 1 < length (nng_msg_body (br_pub B) msg) then Some (nng_msg_body (br_pub B) msg ! 1) else None);
     let (msg, w) = (if w_proto w = PROTO_MQTT_BROKER
       then let msg = nng_msg_set_pipe B (w_pid w) msg in (msg, emit [Msg_clone msg, Ctx_send Broker_ctx msg] w)
       else (msg, w));
     let smsg = nano_msg_notify_connect B (w_cparam w) reason_code;
     w \<leftarrow> call_webhook B conf reason_code w;
     let smsg = nng_msg_set_cmd_type (br_pub B) CMD_PUBLISH smsg;
     let w = emit [Msg_free msg] (w\<lparr>w_flag := CMD_PUBLISH\<rparr>);
     (code, w) \<leftarrow> call_handle_pub B (PROTOCOL_v311 (br_pub B)) smsg w;
     Some (emit [Aio_finish] (w\<lparr>w_state := WAIT\<rparr>)) }"

definition recv_disconnect_ev ::
  "('m, 'p, 'd, 'h, 'a, 'r, 'c) broker_ops \<Rightarrow> broker_conf \<Rightarrow> 'm \<Rightarrow> ('m, 'p, 'd, 'h, 'a, 'r, 'c) nano_work
    \<Rightarrow> ('m, 'p, 'd, 'h, 'a, 'r, 'c) nano_work option" where
  "recv_disconnect_ev B conf msg w = do {
     w \<leftarrow> call_webhook B conf 0 w;
     let msg = nng_msg_set_cmd_type (br_pub B) CMD_PUBLISH msg;
     let w = w\<lparr>w_flag := CMD_PUBLISH\<rparr>;
     (code, w) \<leftarrow> call_handle_pub B (PROTOCOL_v311 (br_pub B)) msg w;
     let w = (if dbhash_check_id B (w_pid w) (w_dbhash w)
              then set_sub (destroy_sub_client (br_sub_db B) (w_pid w) (sub_part w)) w else w);
     if \<not> will_flag B (w_cparam w) \<or> will_topic B (w_cparam w) = None \<or> will_msg B (w_cparam w) = None
     then Some (emit [Conn_free (w_cparam w), Aio_finish] (w\<lparr>w_state := WAIT\<rparr>))
     else Some (emit [Aio_finish] (w\<lparr>w_state := END\<rparr>)) }"

text \<open>
  What a worker does with the message by where it comes from: the message to handle (Inr), or
  the new state when the message is not one to handle (Inl).
\<close>

definition accept_msg ::
  "('m, 'p, 'd, 'h, 'a, 'r, 'c) broker_ops \<Rightarrow> 'm \<Rightarrow> ('m, 'p, 'd, 'h, 'a, 'r, 'c) nano_work
    \<Rightarrow> (('m, 'p, 'd, 'h, 'a, 'r, 'c) nano_work + 'm \<times> ('m, 'p, 'd, 'h, 'a, 'r, 'c) nano_work) option" where
  "accept_msg B msg w = (case w_proto w of
     PROTO_MQTT_BROKER \<Rightarrow> Some (Inr (msg, w))
   | PROTO_MQTT_BRIDGE \<Rightarrow>
      (let type = nng_msg_get_type B msg in
       if type = CMD_CONNACK then Some (Inr (nng_msg_set_cmd_type (br_pub B) type msg, w))
       else if type \<noteq> CMD_PUBLISH then Some (Inl (emit [Msg_free msg, Ctx_recv Extra_ctx] (w\<lparr>w_state := RECV\<rparr>)))
       else (let msg = nng_msg_set_cmd_type (br_pub B) type msg
             in Some (Inr (msg, emit [Conn_clone (nng_msg_get_conn_param B msg)] w))))
   | _ \<Rightarrow> (case decode_common_mqtt_msg (br_mqtt B) msg of
        Some (Inr decode_msg, freed) \<Rightarrow>
          (let w = emit (map Msg_free freed) w in
           if nng_msg_get_type B decode_msg \<noteq> CMD_PUBLISH
           then Some (Inl (emit [Conn_free (nng_msg_get_conn_param B decode_msg), Ctx_recv Extra_ctx] (w\<lparr>w_state := RECV\<rparr>)))
           else Some (Inr (nng_msg_set_cmd_type (br_pub B) CMD_PUBLISH decode_msg, w)))
      | _ \<Rightarrow> None))"

definition load_msg ::
  "('m, 'p, 'd, 'h, 'a, 'r, 'c) broker_ops \<Rightarrow> 'm \<Rightarrow> ('m, 'p, 'd, 'h, 'a, 'r, 'c) nano_work \<Rightarrow> ('m, 'p, 'd, 'h, 'a, 'r, 'c) nano_work" where
  "load_msg B msg w = (let cparam = nng_msg_get_conn_param B msg in
     w\<lparr>w_msg := Some msg, w_pid := nng_msg_get_pipe B msg, w_cparam := cparam,
       w_proto_ver := cp_protover (conn_view_of B cparam), w_flag := nng_msg_cmd_type (br_pub B) msg\<rparr>)"

definition dispatch ::
  "('m, 'p, 'd, 'h, 'a, 'r, 'c) broker_ops \<Rightarrow> broker_conf \<Rightarrow> nat \<Rightarrow> 'm \<Rightarrow> ('m, 'p, 'd, 'h, 'a, 'r, 'c) nano_work
    \<Rightarrow> ('m, 'p, 'd, 'h, 'a, 'r, 'c) nano_work option" where
  "dispatch B conf fuel msg w =
    (if w_flag w = CMD_SUBSCRIBE then recv_subscribe B fuel msg w
     else if w_flag w = CMD_UNSUBSCRIBE then recv_unsubscribe B fuel msg w
     else if w_flag w = CMD_PUBLISH then recv_publish B msg w
     else if w_flag w = CMD_CONNACK then recv_connack B conf msg w
     else if w_flag w = CMD_DISCONNECT_EV then recv_disconnect_ev B conf msg w
     else Some (emit [Aio_finish] (w\<lparr>w_state := WAIT\<rparr>)))"

definition server_recv ::
  "('m, 'p, 'd, 'h, 'a, 'r, 'c) broker_ops \<Rightarrow> broker_conf \<Rightarrow> nat \<Rightarrow> int \<Rightarrow> 'm option \<Rightarrow> ('m, 'p, 'd, 'h, 'a, 'r, 'c) nano_work
    \<Rightarrow> ('m, 'p, 'd, 'h, 'a, 'r, 'c) nano_work option" where
  "server_recv B conf fuel rv aio_msg w =
    (if rv \<noteq> 0 \<and> (w_proto w = PROTO_MQTT_BROKER \<or> rv \<noteq> NNG_ECONNSHUT B)
     then Some (emit [Ctx_recv (recv_ctx w)] (w\<lparr>w_state := RECV\<rparr>))
     else do {
       msg \<leftarrow> aio_msg;
       a \<leftarrow> accept_msg B msg w;
       case a of Inl w \<Rightarrow> Some w
       | Inr (msg, w) \<Rightarrow> dispatch B conf fuel msg (load_msg B msg w) })"

section \<open>WAIT, SEND, END and CLOSE\<close>

text \<open>A message goes to one pipe after the other; the pipe is set in the shared message.\<close>

fun send_to_pipes ::
  "('m, 'p, 'd, 'h, 'a, 'r, 'c) broker_ops \<Rightarrow> u32 list \<Rightarrow> 'm \<Rightarrow> ('m, 'p, 'd, 'h, 'a, 'r, 'c) nano_work
    \<Rightarrow> 'm \<times> ('m, 'p, 'd, 'h, 'a, 'r, 'c) nano_work" where
  "send_to_pipes B [] smsg w = (smsg, w)"
| "send_to_pipes B (p # ps) smsg w =
    (let smsg' = nng_msg_set_pipe B p smsg
     in send_to_pipes B ps smsg' (emit [Msg_clone smsg, Ctx_send Broker_ctx smsg'] (w\<lparr>w_pid := p, w_msg := Some smsg'\<rparr>)))"

definition deliver ::
  "('m, 'p, 'd, 'h, 'a, 'r, 'c) broker_ops \<Rightarrow> 'm \<Rightarrow> ('m, 'p, 'd, 'h, 'a, 'r, 'c) nano_work
    \<Rightarrow> ('m \<times> ('m, 'p, 'd, 'h, 'a, 'r, 'c) nano_work) option" where
  "deliver B smsg w =
    (let msg_infos = w_msg_infos w in
     if msg_infos = [] then Some (smsg, w)
     else do {
       pkt \<leftarrow> w_pub_packet w;
       (ok, smsg, pkt) \<leftarrow> encode_pub_message (br_pub B) smsg pkt PUBLISH;
       let w = w\<lparr>w_pub_packet := Some pkt\<rparr>;
       Some (if ok then send_to_pipes B msg_infos smsg w else (smsg, w)) })"

fun bridge_forwards ::
  "('m, 'p, 'd, 'h, 'a, 'r, 'c) broker_ops \<Rightarrow> nat \<Rightarrow> bytes list \<Rightarrow> bytes option \<Rightarrow> 'm \<Rightarrow> bool \<times> ('m, 'p, 'd, 'h, 'a, 'r, 'c) nano_work
    \<Rightarrow> bool \<times> ('m, 'p, 'd, 'h, 'a, 'r, 'c) nano_work" where
  "bridge_forwards B t [] topic smsg (rv, w) = (rv, w)"
| "bridge_forwards B t (f # fs) topic smsg (rv, w) =
    (if topic_filter (br_hook B) f topic then
       (let w = emit [Msg_clone smsg, Aio_set_msg smsg] (w\<lparr>w_state := SEND\<rparr>);
            w = emit [if nng_aio_busy B (w_events w) then Msg_free smsg else Bridge_send t smsg] w
        in bridge_forwards B t fs topic smsg (True, w))
     else bridge_forwards B t fs topic smsg (rv, w))"

fun bridge_nodes_loop ::
  "('m, 'p, 'd, 'h, 'a, 'r, 'c) broker_ops \<Rightarrow> nat \<Rightarrow> bridge_node list \<Rightarrow> bytes option \<Rightarrow> 'm \<Rightarrow> bool \<times> ('m, 'p, 'd, 'h, 'a, 'r, 'c) nano_work
    \<Rightarrow> bool \<times> ('m, 'p, 'd, 'h, 'a, 'r, 'c) nano_work" where
  "bridge_nodes_loop B t [] topic smsg s = s"
| "bridge_nodes_loop B t (n # ns) topic smsg s =
    bridge_nodes_loop B (Suc t) ns topic smsg (if bn_enable n then bridge_forwards B t (bn_forwards n) topic smsg s else s)"

text \<open>bridge.c: the message for the bridge; None is the use of a message that was not allocated.\<close>

definition bridge_publish_msg ::
  "('m, 'p, 'd, 'h, 'a, 'r, 'c) broker_ops \<Rightarrow> bytes option \<Rightarrow> bytes option \<Rightarrow> u32 \<Rightarrow> bool \<Rightarrow> u8 \<Rightarrow> bool \<Rightarrow> 'p option \<Rightarrow> 'm option" where
  "bridge_publish_msg B topic payload len dup qos retain props = (case nng_mqtt_msg_alloc (br_mqtt B) of
     Inl _ \<Rightarrow> None
   | Inr pubmsg \<Rightarrow>
      (let pubmsg = set_packet_type_publish B pubmsg;
           pubmsg = set_publish_dup B dup pubmsg;
           pubmsg = set_publish_qos B qos pubmsg;
           pubmsg = set_publish_retain B retain pubmsg;
           pubmsg = set_publish_payload B payload len pubmsg;
           pubmsg = set_publish_topic B topic pubmsg
       in Some (if props \<noteq> None then set_publish_property B props pubmsg else pubmsg)))"

definition bridge_handler ::
  "('m, 'p, 'd, 'h, 'a, 'r, 'c) broker_ops \<Rightarrow> broker_conf \<Rightarrow> ('m, 'p, 'd, 'h, 'a, 'r, 'c) nano_work
    \<Rightarrow> (bool \<times> ('m, 'p, 'd, 'h, 'a, 'r, 'c) nano_work) option" where
  "bridge_handler B conf w = do {
     pkt \<leftarrow> w_pub_packet w;
     let props = (if w_proto_ver w = PROTOCOL_v5 (br_pub B) then vh_properties (pp_var_header pkt) else None);
     let topic = str_body (vh_topic_name (pp_var_header pkt));
     smsg \<leftarrow> bridge_publish_msg B topic (pl_data (pp_payload pkt)) (pl_len (pp_payload pkt))
       (fh_dup (pp_fixed_header pkt) \<noteq> 0) (ucast (fh_qos (pp_fixed_header pkt))) (fh_retain (pp_fixed_header pkt) \<noteq> 0) props;
     let (rv, w) = bridge_nodes_loop B 0 (bc_bridge_nodes conf) topic smsg (False, w);
     let smsg = (if \<not> rv then if w_proto_ver w = PROTOCOL_v5 (br_pub B) then nng_mqttv5_msg_encode (br_mqtt B) smsg
                   else nng_mqtt_msg_encode (br_mqtt B) smsg else smsg);
     Some (rv, emit [Msg_free smsg] w) }"

definition server_wait ::
  "('m, 'p, 'd, 'h, 'a, 'r, 'c) broker_ops \<Rightarrow> broker_conf \<Rightarrow> int \<Rightarrow> ('m, 'p, 'd, 'h, 'a, 'r, 'c) nano_work
    \<Rightarrow> ('m, 'p, 'd, 'h, 'a, 'r, 'c) nano_work option" where
  "server_wait B conf rv w = do {
     msg \<leftarrow> w_msg w;
     if nng_msg_get_type B msg = CMD_PUBLISH then
       if rv \<noteq> 0 then None
       else do {
         (smsg, w) \<leftarrow> deliver B msg w;
         let w = w\<lparr>w_msg := Some smsg\<rparr>;
         w \<leftarrow> (if bc_bridge_mode conf then map_option snd (bridge_handler B conf w) else Some w);
         if hook_enable (bc_web_hook conf) then Some (emit [Aio_finish] (w\<lparr>w_state := SEND\<rparr>))
         else Some (emit [Msg_free smsg, Conn_free (w_cparam w), Ctx_recv (recv_ctx w)]
                (w\<lparr>w_msg := None, w_pub_packet := None, w_msg_infos := [], w_state := RECV\<rparr>)) }
     else Some (emit [Msg_free msg, Ctx_recv Broker_ctx] (w\<lparr>w_msg := None, w_state := RECV\<rparr>)) }"

definition server_send ::
  "('m, 'p, 'd, 'h, 'a, 'r, 'c) broker_ops \<Rightarrow> broker_conf \<Rightarrow> int \<Rightarrow> ('m, 'p, 'd, 'h, 'a, 'r, 'c) nano_work
    \<Rightarrow> ('m, 'p, 'd, 'h, 'a, 'r, 'c) nano_work option" where
  "server_send B conf rv w = do {
     w \<leftarrow> call_webhook B conf 0 w;
     let w = emit (case w_msg w of None \<Rightarrow> [] | Some m \<Rightarrow> [Msg_free m]) (w\<lparr>w_msg := None\<rparr>);
     if rv \<noteq> 0 then None
     else Some (emit [Conn_free (w_cparam w), Ctx_recv (recv_ctx w)]
       (w\<lparr>w_pub_packet := None, w_msg_infos := [], w_state := RECV, w_flag := CMD_NONE\<rparr>)) }"

definition send_will ::
  "('m, 'p, 'd, 'h, 'a, 'r, 'c) broker_ops \<Rightarrow> ('m, 'p, 'd, 'h, 'a, 'r, 'c) nano_work
    \<Rightarrow> ('m, 'p, 'd, 'h, 'a, 'r, 'c) nano_work option" where
  "send_will B w = do {
     let cp = w_cparam w;
     let ver = cp_protover (conn_view_of B cp);
     let msg = nano_pubmsg_composer B (will_retain B cp) (will_qos B cp) (will_msg B cp) (will_topic B cp) ver (nng_clock B);
     let w = w\<lparr>w_flag := CMD_PUBLISH\<rparr>;
     w \<leftarrow> (if ver = 5 then do {
          (code, w) \<leftarrow> call_handle_pub B (PROTOCOL_v5 (br_pub B)) (nng_msg_set_cmd_type (br_pub B) CMD_PUBLISH_V5 msg) w;
          pkt \<leftarrow> w_pub_packet w;
          let props = property_pub_by_will B (will_property B cp);
          Some (w\<lparr>w_pub_packet := Some (pkt\<lparr>pp_var_header := publish (vh_packet_id (pp_var_header pkt))
            (vh_topic_name (pp_var_header pkt)) props (get_properties_len B props)\<rparr>)\<rparr>) }
        else map_option snd (call_handle_pub B (PROTOCOL_v311 (br_pub B)) (nng_msg_set_cmd_type (br_pub B) CMD_PUBLISH msg) w));
     Some (emit [Aio_finish] (w\<lparr>w_state := WAIT\<rparr>)) }"

definition server_end ::
  "('m, 'p, 'd, 'h, 'a, 'r, 'c) broker_ops \<Rightarrow> broker_conf \<Rightarrow> int \<Rightarrow> ('m, 'p, 'd, 'h, 'a, 'r, 'c) nano_work
    \<Rightarrow> ('m, 'p, 'd, 'h, 'a, 'r, 'c) nano_work option" where
  "server_end B conf rv w = do {
     msg \<leftarrow> w_msg w;
     w \<leftarrow> (if nng_msg_get_type B msg = CMD_PUBLISH then
         if rv \<noteq> 0 then None
         else do {
           (smsg, w) \<leftarrow> deliver B msg (w\<lparr>w_msg := None\<rparr>);
           w \<leftarrow> call_webhook B conf 0 w;
           let w = emit [Msg_free smsg] (w\<lparr>w_msg := None, w_pub_packet := None, w_msg_infos := []\<rparr>);
           if will_flag B (w_cparam w) then send_will B w
           else Some (emit [Ctx_recv (recv_ctx w)] (w\<lparr>w_state := RECV\<rparr>)) }
       else Some w);
     Some (emit [Conn_free (w_cparam w)] w) }"

definition server_close ::
  "('m, 'p, 'd, 'h, 'a, 'r, 'c) broker_ops \<Rightarrow> ('m, 'p, 'd, 'h, 'a, 'r, 'c) nano_work
    \<Rightarrow> ('m, 'p, 'd, 'h, 'a, 'r, 'c) nano_work option" where
  "server_close B w =
    (let smsg = nng_msg_set_pipe B (w_pid w) (nano_dismsg_composer B (w_code w))
     in Some (emit ((case w_msg w of None \<Rightarrow> [] | Some m \<Rightarrow> [Msg_free m]) @ [Ctx_send Broker_ctx smsg, Ctx_recv Broker_ctx])
          (w\<lparr>w_msg := Some smsg, w_code := SUCCESS, w_state := RECV\<rparr>)))"

definition server_cb ::
  "('m, 'p, 'd, 'h, 'a, 'r, 'c) broker_ops \<Rightarrow> broker_conf \<Rightarrow> nat \<Rightarrow> int \<Rightarrow> 'm option \<Rightarrow> ('m, 'p, 'd, 'h, 'a, 'r, 'c) nano_work
    \<Rightarrow> ('m, 'p, 'd, 'h, 'a, 'r, 'c) nano_work option" where
  "server_cb B conf fuel rv aio_msg w = (case w_state w of
     INIT \<Rightarrow> Some (emit [Ctx_recv (recv_ctx w)] (w\<lparr>w_state := RECV\<rparr>))
   | RECV \<Rightarrow> server_recv B conf fuel rv aio_msg w
   | WAIT \<Rightarrow> server_wait B conf rv w
   | SEND \<Rightarrow> server_send B conf rv w
   | END \<Rightarrow> server_end B conf rv w
   | CLOSE \<Rightarrow> server_close B w
   | HOOK \<Rightarrow> None)"

section \<open>Frames\<close>

lemma emit_simps [simp]:
  "w_state (emit es w) = w_state w" "w_proto (emit es w) = w_proto w" "w_proto_ver (emit es w) = w_proto_ver w"
  "w_flag (emit es w) = w_flag w" "w_msg (emit es w) = w_msg w" "w_pid (emit es w) = w_pid w"
  "w_code (emit es w) = w_code w" "w_msg_infos (emit es w) = w_msg_infos w" "w_cparam (emit es w) = w_cparam w"
  "w_pub_packet (emit es w) = w_pub_packet w" "w_db (emit es w) = w_db w" "w_dbhash (emit es w) = w_dbhash w"
  "w_msg_ret (emit es w) = w_msg_ret w" "w_db_ret (emit es w) = w_db_ret w"
  "w_events (emit es w) = w_events w @ es"
  by (simp_all add: emit_def)

lemma set_sub_simps [simp]:
  "w_state (set_sub s w) = w_state w" "w_proto (set_sub s w) = w_proto w" "w_proto_ver (set_sub s w) = w_proto_ver w"
  "w_flag (set_sub s w) = w_flag w" "w_msg (set_sub s w) = w_msg w" "w_pid (set_sub s w) = w_pid w"
  "w_code (set_sub s w) = w_code w" "w_msg_infos (set_sub s w) = w_msg_infos w" "w_cparam (set_sub s w) = w_cparam w"
  "w_pub_packet (set_sub s w) = w_pub_packet w" "w_db (set_sub s w) = sw_db s" "w_dbhash (set_sub s w) = sw_dbhash s"
  "w_msg_ret (set_sub s w) = sw_msg_ret s" "w_db_ret (set_sub s w) = sw_db_ret s"
  "w_events (set_sub s w) = w_events w"
  by (simp_all add: set_sub_def)

text \<open>The events that matter for a connection or for the clients.\<close>

fun conn_frees :: "('m, 'c) broker_event list \<Rightarrow> nat" where
  "conn_frees [] = 0"
| "conn_frees (e # es) = (case e of Conn_free c \<Rightarrow> 1 | _ \<Rightarrow> 0) + conn_frees es"

fun sent :: "('m, 'c) broker_event list \<Rightarrow> 'm list" where
  "sent [] = []"
| "sent (e # es) = (case e of Ctx_send Broker_ctx m \<Rightarrow> [m] | _ \<Rightarrow> []) @ sent es"

lemma conn_frees_append [simp]: "conn_frees (es @ fs) = conn_frees es + conn_frees fs"
  by (induction es) simp_all

lemma sent_append [simp]: "sent (es @ fs) = sent es @ sent fs"
  by (induction es) simp_all

lemma conn_frees_msg_event [simp]: "conn_frees (map msg_event es) = 0"
proof (induction es)
  case (Cons e es)
  then show ?case by (cases e) simp_all
qed simp

lemma sent_msg_event [simp]: "sent (map msg_event es) = []"
proof (induction es)
  case (Cons e es)
  then show ?case by (cases e) simp_all
qed simp

lemma call_handle_pub_frame:
  assumes "call_handle_pub B proto m w = Some (r, w')"
  shows "w_state w' = w_state w" "w_proto w' = w_proto w" "w_proto_ver w' = w_proto_ver w" "w_flag w' = w_flag w"
    "w_pid w' = w_pid w" "w_code w' = w_code w" "w_cparam w' = w_cparam w" "w_db w' = w_db w" "w_dbhash w' = w_dbhash w"
    "\<exists>es. w_events w' = w_events w @ map msg_event es" "\<exists>m'. w_msg w' = Some m'"
  using assms by (auto simp: call_handle_pub_def set_pub_def)

lemma call_webhook_frame:
  assumes "call_webhook B conf reason w = Some w'"
  shows "w_state w' = w_state w" "w_proto w' = w_proto w" "w_proto_ver w' = w_proto_ver w"
    "w_pid w' = w_pid w" "w_code w' = w_code w" "w_cparam w' = w_cparam w" "w_db w' = w_db w" "w_dbhash w' = w_dbhash w"
    "w_msg w' = w_msg w" "w_msg_infos w' = w_msg_infos w" "w_pub_packet w' = w_pub_packet w"
    "conn_frees (w_events w') = conn_frees (w_events w)" "sent (w_events w') = sent (w_events w)"
  using assms by (auto simp: call_webhook_def split: if_splits Option.bind_splits option.splits)

lemma send_to_pipes_frame [simp]:
  "w_state (snd (send_to_pipes B ps m w)) = w_state w" "w_proto (snd (send_to_pipes B ps m w)) = w_proto w"
  "w_proto_ver (snd (send_to_pipes B ps m w)) = w_proto_ver w" "w_code (snd (send_to_pipes B ps m w)) = w_code w"
  "w_cparam (snd (send_to_pipes B ps m w)) = w_cparam w" "w_db (snd (send_to_pipes B ps m w)) = w_db w"
  "w_dbhash (snd (send_to_pipes B ps m w)) = w_dbhash w" "w_msg_infos (snd (send_to_pipes B ps m w)) = w_msg_infos w"
  "w_pub_packet (snd (send_to_pipes B ps m w)) = w_pub_packet w" "w_flag (snd (send_to_pipes B ps m w)) = w_flag w"
  "conn_frees (w_events (snd (send_to_pipes B ps m w))) = conn_frees (w_events w)"
  by (induction B ps m w rule: send_to_pipes.induct) (simp_all add: Let_def)

lemma deliver_cases:
  assumes "deliver B smsg w = Some (smsg', w')"
  obtains "w' = w" | pkt where "w' = w\<lparr>w_pub_packet := Some pkt\<rparr>"
  | pkt m where "w' = snd (send_to_pipes B (w_msg_infos w) m (w\<lparr>w_pub_packet := Some pkt\<rparr>))"
proof (cases "w_msg_infos w = []")
  case True
  then show thesis using assms that(1) by (simp add: deliver_def)
next
  case False
  then obtain ok m pkt where r: "(if ok then send_to_pipes B (w_msg_infos w) m (w\<lparr>w_pub_packet := Some pkt\<rparr>)
      else (m, w\<lparr>w_pub_packet := Some pkt\<rparr>)) = (smsg', w')"
    using assms by (auto simp: deliver_def Let_def bind_eq_Some_conv)
  show thesis
  proof (cases ok)
    case True
    then have "w' = snd (send_to_pipes B (w_msg_infos w) m (w\<lparr>w_pub_packet := Some pkt\<rparr>))"
      using r by simp
    then show thesis by (rule that(3))
  qed (use r that(2) in auto)
qed

lemma deliver_frame:
  assumes "deliver B smsg w = Some (smsg', w')"
  shows "w_state w' = w_state w" "w_proto w' = w_proto w" "w_proto_ver w' = w_proto_ver w"
    "w_code w' = w_code w" "w_cparam w' = w_cparam w" "w_db w' = w_db w" "w_dbhash w' = w_dbhash w"
    "w_msg_infos w' = w_msg_infos w" "w_flag w' = w_flag w"
    "conn_frees (w_events w') = conn_frees (w_events w)"
  by (rule deliver_cases [OF assms], simp_all)+

lemma bridge_forwards_frame [simp]:
  "w_proto (snd (bridge_forwards B t fs topic m s)) = w_proto (snd s)"
  "w_code (snd (bridge_forwards B t fs topic m s)) = w_code (snd s)"
  "w_cparam (snd (bridge_forwards B t fs topic m s)) = w_cparam (snd s)"
  "w_msg (snd (bridge_forwards B t fs topic m s)) = w_msg (snd s)"
  "w_pub_packet (snd (bridge_forwards B t fs topic m s)) = w_pub_packet (snd s)"
  "w_db (snd (bridge_forwards B t fs topic m s)) = w_db (snd s)"
  "w_dbhash (snd (bridge_forwards B t fs topic m s)) = w_dbhash (snd s)"
  "conn_frees (w_events (snd (bridge_forwards B t fs topic m s))) = conn_frees (w_events (snd s))"
  "sent (w_events (snd (bridge_forwards B t fs topic m s))) = sent (w_events (snd s))"
  by (induction B t fs topic m s rule: bridge_forwards.induct) (simp_all add: Let_def)

lemma bridge_nodes_loop_frame [simp]:
  "w_proto (snd (bridge_nodes_loop B t ns topic m s)) = w_proto (snd s)"
  "w_code (snd (bridge_nodes_loop B t ns topic m s)) = w_code (snd s)"
  "w_cparam (snd (bridge_nodes_loop B t ns topic m s)) = w_cparam (snd s)"
  "w_msg (snd (bridge_nodes_loop B t ns topic m s)) = w_msg (snd s)"
  "w_pub_packet (snd (bridge_nodes_loop B t ns topic m s)) = w_pub_packet (snd s)"
  "w_db (snd (bridge_nodes_loop B t ns topic m s)) = w_db (snd s)"
  "w_dbhash (snd (bridge_nodes_loop B t ns topic m s)) = w_dbhash (snd s)"
  "conn_frees (w_events (snd (bridge_nodes_loop B t ns topic m s))) = conn_frees (w_events (snd s))"
  "sent (w_events (snd (bridge_nodes_loop B t ns topic m s))) = sent (w_events (snd s))"
  by (induction B t ns topic m s rule: bridge_nodes_loop.induct) simp_all

lemma bridge_handler_frame:
  assumes "bridge_handler B conf w = Some (rv, w')"
  shows "w_proto w' = w_proto w" "w_code w' = w_code w" "w_cparam w' = w_cparam w" "w_msg w' = w_msg w"
    "w_pub_packet w' = w_pub_packet w" "w_db w' = w_db w" "w_dbhash w' = w_dbhash w"
    "conn_frees (w_events w') = conn_frees (w_events w)" "sent (w_events w') = sent (w_events w)"
  using assms by (auto simp: bridge_handler_def Let_def split_beta split: Option.bind_splits)

section \<open>The invariant of a worker\<close>

text \<open>
  Documented behaviour of the library: which messages are PUBLISH messages on the wire.  A
  connect notification and a will message are, and so is a received message that the protocol
  layer marks as a PUBLISH or as the event of a disconnect.
\<close>

definition type_laws :: "('m, 'p, 'd, 'h, 'a, 'r, 'c) broker_ops \<Rightarrow> bool" where
  "type_laws B \<longleftrightarrow>
    (\<forall>c m. nng_msg_get_type B (nng_msg_set_cmd_type (br_pub B) c m) = nng_msg_get_type B m) \<and>
    (\<forall>d p m. nng_msg_get_type B (nng_msg_proto_set_property (br_pub_db B d) p m) = nng_msg_get_type B m) \<and>
    (\<forall>c r. nng_msg_get_type B (nano_msg_notify_connect B c r) = CMD_PUBLISH) \<and>
    (\<forall>a b c d e f. nng_msg_get_type B (nano_pubmsg_composer B a b c d e f) = CMD_PUBLISH)"

lemma type_lawsD:
  assumes "type_laws B"
  shows "nng_msg_get_type B (nng_msg_set_cmd_type (br_pub B) c m) = nng_msg_get_type B m"
    and "nng_msg_get_type B (nng_msg_proto_set_property (br_pub_db B d) p m) = nng_msg_get_type B m"
    and "nng_msg_get_type B (nano_msg_notify_connect B cp r) = CMD_PUBLISH"
    and "nng_msg_get_type B (nano_pubmsg_composer B x1 x2 x3 x4 x5 x6) = CMD_PUBLISH"
  using assms by (simp_all add: type_laws_def)

definition consistent :: "('m, 'p, 'd, 'h, 'a, 'r, 'c) broker_ops \<Rightarrow> 'm option \<Rightarrow> bool" where
  "consistent B aio_msg \<longleftrightarrow> (\<forall>m. aio_msg = Some m \<longrightarrow>
     nng_msg_cmd_type (br_pub B) m \<in> {CMD_PUBLISH, CMD_DISCONNECT_EV} \<longrightarrow> nng_msg_get_type B m = CMD_PUBLISH)"

definition holds_publish :: "('m, 'p, 'd, 'h, 'a, 'r, 'c) broker_ops \<Rightarrow> ('m, 'p, 'd, 'h, 'a, 'r, 'c) nano_work \<Rightarrow> bool" where
  "holds_publish B w \<longleftrightarrow> (\<exists>m. w_msg w = Some m \<and> nng_msg_get_type B m = CMD_PUBLISH)"

lemma holds_publish_simps [simp]:
  "holds_publish B (emit es w) = holds_publish B w" "holds_publish B (set_sub s w) = holds_publish B w"
  "holds_publish B (w\<lparr>w_state := st\<rparr>) = holds_publish B w" "holds_publish B (w\<lparr>w_code := r\<rparr>) = holds_publish B w"
  "holds_publish B (w\<lparr>w_pub_packet := p\<rparr>) = holds_publish B w" "holds_publish B (w\<lparr>w_msg_infos := i\<rparr>) = holds_publish B w"
  "holds_publish B (w\<lparr>w_flag := f\<rparr>) = holds_publish B w" "holds_publish B (w\<lparr>w_msg := m\<rparr>) = (\<exists>x. m = Some x \<and> nng_msg_get_type B x = CMD_PUBLISH)"
  by (simp_all add: holds_publish_def)

definition clean :: "('m, 'p, 'd, 'h, 'a, 'r, 'c) nano_work \<Rightarrow> bool" where
  "clean w \<longleftrightarrow> w_pub_packet w = None \<and> w_msg_infos w = []"

text \<open>What every worker keeps between two calls, and what one that serves clients keeps besides.\<close>

definition tidy :: "('m, 'p, 'd, 'h, 'a, 'r, 'c) broker_ops \<Rightarrow> ('m, 'p, 'd, 'h, 'a, 'r, 'c) nano_work \<Rightarrow> bool" where
  "tidy B w \<longleftrightarrow> (w_state w \<in> {INIT, RECV, CLOSE} \<longrightarrow> clean w) \<and> (w_state w = WAIT \<longrightarrow> clean w \<or> holds_publish B w) \<and>
    (w_state w = END \<longrightarrow> holds_publish B w \<and> will_flag B (w_cparam w))"

definition worker_inv :: "('m, 'p, 'd, 'h, 'a, 'r, 'c) broker_ops \<Rightarrow> ('m, 'p, 'd, 'h, 'a, 'r, 'c) nano_work \<Rightarrow> bool" where
  "worker_inv B w \<longleftrightarrow> w_proto w = PROTO_MQTT_BROKER \<and> (w_state w \<noteq> CLOSE \<longrightarrow> w_code w = SUCCESS) \<and> tidy B w"

text \<open>How often the connection parameters of the current message are still to be released.\<close>

definition owed :: "('m, 'p, 'd, 'h, 'a, 'r, 'c) broker_ops \<Rightarrow> ('m, 'p, 'd, 'h, 'a, 'r, 'c) nano_work \<Rightarrow> nat" where
  "owed B w = (case w_state w of WAIT \<Rightarrow> if holds_publish B w then 1 else 0 | SEND \<Rightarrow> 1 | END \<Rightarrow> 2 | _ \<Rightarrow> 0)"

definition conn_due :: "('m, 'p, 'd, 'h, 'a, 'r, 'c) broker_ops \<Rightarrow> 'm \<Rightarrow> nat" where
  "conn_due B m = (let c = nng_msg_cmd_type (br_pub B) m in
     if c \<in> {CMD_SUBSCRIBE, CMD_UNSUBSCRIBE, CMD_PUBLISH, CMD_CONNACK} then 1 else if c = CMD_DISCONNECT_EV then 2
     else if nng_msg_get_type B m = CMD_PUBLISH then 1 else 0)"

abbreviation balance :: "('m, 'p, 'd, 'h, 'a, 'r, 'c) broker_ops \<Rightarrow> ('m, 'p, 'd, 'h, 'a, 'r, 'c) nano_work \<Rightarrow> nat" where
  "balance B w \<equiv> conn_frees (w_events w) + owed B w"

lemma handle_pub_msg:
  assumes "handle_pub N D proto w = Some (r, w')"
  shows "pw_msg w' = pw_msg w \<or> (\<exists>p. pw_msg w' = nng_msg_proto_set_property D p (pw_msg w))"
proof -
  have retain: "pw_msg (handle_pub_retain N D t pkt v) \<in> {pw_msg v, nng_msg_proto_set_property D (vh_properties (pp_var_header pkt)) (pw_msg v)}" for t pkt v
    by (simp add: handle_pub_retain_def Let_def split_beta)
  have route: "pw_msg (route_pub N D t v) = pw_msg v \<or> (\<exists>p. pw_msg (route_pub N D t v) = nng_msg_proto_set_property D p (pw_msg v))" for t v
  proof -
    have "\<exists>v2. route_pub N D t v = (case pw_packet v2 of None \<Rightarrow> v2 | Some pkt \<Rightarrow> handle_pub_retain N D t pkt v2) \<and>
        pw_msg v2 = pw_msg v"
      unfolding route_pub_def Let_def
      by (rule exI, rule conjI, rule refl) (simp add: foreach_client_fields split: option.split)
    then obtain v2 where v2: "route_pub N D t v = (case pw_packet v2 of None \<Rightarrow> v2 | Some pkt \<Rightarrow> handle_pub_retain N D t pkt v2)"
      "pw_msg v2 = pw_msg v" by blast
    show ?thesis
      using v2 retain [of t _ v2] by (cases "pw_packet v2") auto
  qed
  have same: "pw_msg v' = pw_msg v" if "resolve_alias N D pkt v = Some (t, v')" for pkt t v v'
    using that by (auto simp: resolve_alias_def Let_def split: if_splits option.splits)
  define S where "S m = insert m (range (\<lambda>p. nng_msg_proto_set_property D p m))" for m
  have in_S: "pw_msg (route_pub N D t v) \<in> S m" if "pw_msg v = m" for t v m
    using route [of t v] that by (auto simp: S_def)
  have "pw_msg w' \<in> S (pw_msg w)"
    using assms
    by (auto simp: handle_pub_def Let_def bind_eq_Some_conv intro!: in_S dest!: same split: if_splits option.splits)
      (simp_all add: S_def)
  then show ?thesis by (auto simp: S_def)
qed

lemma call_handle_pub_type:
  assumes "type_laws B" "call_handle_pub B proto m w = Some (r, w')" "nng_msg_get_type B m = CMD_PUBLISH"
  shows "holds_publish B w'"
proof -
  obtain p where p: "handle_pub (br_pub B) (br_pub_db B (w_db w)) proto (pub_part m w) = Some (r, p)" "w' = set_pub p w"
    using assms(2) by (auto simp: call_handle_pub_def)
  have "nng_msg_get_type B (pw_msg p) = CMD_PUBLISH"
    using handle_pub_msg [OF p(1)] assms(3) by (auto simp: pub_part_def type_lawsD(2) [OF assms(1)])
  then show ?thesis
    by (simp add: p(2) set_pub_def holds_publish_def)
qed

lemma send_retained_silent [simp]: "conn_frees (send_retained B pid ms) = 0"
proof -
  have "conn_frees (concat (map (\<lambda>m. [Msg_clone m, Ctx_send Broker_ctx (nng_msg_set_pipe B pid m)]) xs)) = 0" for xs
    by (induction xs) simp_all
  then show ?thesis by (simp add: send_retained_def)
qed

text \<open>A worker that is about to handle a message.\<close>

definition idle :: "('m, 'p, 'd, 'h, 'a, 'r, 'c) nano_work \<Rightarrow> bool" where
  "idle w \<longleftrightarrow> w_proto w = PROTO_MQTT_BROKER \<and> w_code w = SUCCESS \<and> clean w"

named_theorems worker_defs
lemmas [worker_defs] = worker_inv_def tidy_def owed_def clean_def idle_def

lemma recv_subscribe_step:
  assumes "recv_subscribe B fuel m w = Some w'" "idle w"
  shows "worker_inv B w'" "balance B w' = conn_frees (w_events w) + 1"
  using assms by (auto simp: recv_subscribe_def Let_def bind_eq_Some_conv worker_defs split: outcome.splits if_splits)

lemma recv_unsubscribe_step:
  assumes "recv_unsubscribe B fuel m w = Some w'" "idle w"
  shows "worker_inv B w'" "balance B w' = conn_frees (w_events w) + 1"
  using assms
  by (auto simp: recv_unsubscribe_def Let_def bind_eq_Some_conv split_beta worker_defs split: outcome.splits if_splits)

lemma recv_publish_step:
  assumes L: "type_laws B" and m: "nng_msg_get_type B m = CMD_PUBLISH" and r: "recv_publish B m w = Some w'" and i: "idle w"
  shows "worker_inv B w'" "balance B w' = conn_frees (w_events w) + 1"
proof -
  let ?m = "nng_msg_set_cmd_type (br_pub B) (if w_proto_ver w = 5 then CMD_PUBLISH_V5 else CMD_PUBLISH) m"
  obtain code w1 where c: "call_handle_pub B (w_proto_ver w) ?m w = Some (code, w1)"
    using r by (auto simp: recv_publish_def bind_eq_Some_conv)
  have p: "holds_publish B w1"
    by (rule call_handle_pub_type [OF L c]) (simp add: type_lawsD [OF L] m)
  note f = call_handle_pub_frame [OF c]
  show "worker_inv B w'" "balance B w' = conn_frees (w_events w) + 1"
    using r i f p by (auto simp: recv_publish_def c Let_def worker_defs split: if_splits)
qed

lemma recv_connack_step:
  assumes L: "type_laws B" and r: "recv_connack B conf m w = Some w'" and i: "idle w"
  shows "worker_inv B w'" "balance B w' = conn_frees (w_events w) + 1"
proof -
  let ?m = "nng_msg_set_pipe B (w_pid w) m"
  let ?u = "emit [Msg_clone ?m, Ctx_send Broker_ctx ?m] w"
  obtain reason v code w1 where v: "call_webhook B conf reason ?u = Some v" and
    c: "call_handle_pub B (PROTOCOL_v311 (br_pub B)) (nng_msg_set_cmd_type (br_pub B) CMD_PUBLISH
          (nano_msg_notify_connect B (w_cparam ?u) reason)) (emit [Msg_free ?m] (v\<lparr>w_flag := CMD_PUBLISH\<rparr>)) = Some (code, w1)"
    and w': "w' = emit [Aio_finish] (w1\<lparr>w_state := WAIT\<rparr>)"
    using r i by (auto simp: recv_connack_def idle_def Let_def bind_eq_Some_conv split: if_splits)
  have p: "holds_publish B w1"
    by (rule call_handle_pub_type [OF L c]) (simp add: type_lawsD [OF L])
  show "worker_inv B w'" "balance B w' = conn_frees (w_events w) + 1"
    using i p call_handle_pub_frame [OF c] call_webhook_frame [OF v] by (auto simp: w' worker_defs)
qed

lemma recv_disconnect_ev_step:
  assumes L: "type_laws B" and m: "nng_msg_get_type B m = CMD_PUBLISH" and r: "recv_disconnect_ev B conf m w = Some w'" and i: "idle w"
  shows "worker_inv B w'" "balance B w' = conn_frees (w_events w) + 2"
proof -
  obtain v code w1 where v: "call_webhook B conf 0 w = Some v" and
    c: "call_handle_pub B (PROTOCOL_v311 (br_pub B)) (nng_msg_set_cmd_type (br_pub B) CMD_PUBLISH m)
          (v\<lparr>w_flag := CMD_PUBLISH\<rparr>) = Some (code, w1)"
    using r by (auto simp: recv_disconnect_ev_def Let_def bind_eq_Some_conv)
  define w2 where "w2 = (if dbhash_check_id B (w_pid w1) (w_dbhash w1)
      then set_sub (destroy_sub_client (br_sub_db B) (w_pid w1) (sub_part w1)) w1 else w1)"
  have w': "w' = (if \<not> will_flag B (w_cparam w2) \<or> will_topic B (w_cparam w2) = None \<or> will_msg B (w_cparam w2) = None
     then emit [Conn_free (w_cparam w2), Aio_finish] (w2\<lparr>w_state := WAIT\<rparr>) else emit [Aio_finish] (w2\<lparr>w_state := END\<rparr>))"
    using r by (auto simp: recv_disconnect_ev_def v c Let_def w2_def)
  have "holds_publish B w1"
    by (rule call_handle_pub_type [OF L c]) (simp add: type_lawsD [OF L] m)
  then have w2: "holds_publish B w2" "w_proto w2 = w_proto w" "w_code w2 = w_code w" "conn_frees (w_events w2) = conn_frees (w_events w)"
    using call_handle_pub_frame [OF c] call_webhook_frame [OF v] by (auto simp: w2_def)
  show "worker_inv B w'" "balance B w' = conn_frees (w_events w) + 2"
    using i w2 by (simp_all add: w' worker_defs)
qed

lemma server_recv_step:
  assumes L: "type_laws B" and t: "consistent B aio_msg" and r: "server_recv B conf fuel rv aio_msg w = Some w'" and i: "idle w"
  shows "worker_inv B w' \<and> (rv = 0 \<longrightarrow> (\<exists>m. aio_msg = Some m \<and> balance B w' = conn_frees (w_events w) + conn_due B m))"
proof (cases "rv = 0")
  case False
  then show ?thesis using r i by (auto simp: server_recv_def worker_defs)
next
  case True
  then obtain m where m: "aio_msg = Some m"
    using r by (auto simp: server_recv_def bind_eq_Some_conv)
  let ?f = "nng_msg_cmd_type (br_pub B) m"
  let ?u = "load_msg B m w"
  have u: "idle ?u" "w_events ?u = w_events w" "w_msg ?u = Some m" "w_flag ?u = ?f"
    using i by (simp_all add: load_msg_def Let_def worker_defs)
  have d: "dispatch B conf fuel m ?u = Some w'"
    using r True m i by (simp add: server_recv_def accept_msg_def idle_def)
  consider "?f = CMD_SUBSCRIBE" | "?f = CMD_UNSUBSCRIBE" | "?f = CMD_PUBLISH" | "?f = CMD_CONNACK" | "?f = CMD_DISCONNECT_EV"
    | "?f \<notin> {CMD_SUBSCRIBE, CMD_UNSUBSCRIBE, CMD_PUBLISH, CMD_CONNACK, CMD_DISCONNECT_EV}" by auto
  then have "worker_inv B w' \<and> balance B w' = conn_frees (w_events w) + conn_due B m"
  proof cases
    case 1
    then show ?thesis using d [unfolded dispatch_def] recv_subscribe_step [of B fuel m ?u w'] u by (simp add: conn_due_def)
  next
    case 2
    then show ?thesis using d [unfolded dispatch_def] recv_unsubscribe_step [of B fuel m ?u w'] u by (simp add: conn_due_def)
  next
    case 3
    then show ?thesis using d [unfolded dispatch_def] recv_publish_step [OF L, of m ?u w'] t m u by (simp add: conn_due_def consistent_def)
  next
    case 4
    then show ?thesis using d [unfolded dispatch_def] recv_connack_step [OF L, of conf m ?u w'] u by (simp add: conn_due_def)
  next
    case 5
    then show ?thesis using d [unfolded dispatch_def] recv_disconnect_ev_step [OF L, of m conf ?u w'] t m u by (simp add: conn_due_def consistent_def)
  next
    case 6
    then show ?thesis using d [unfolded dispatch_def] u by (auto simp: conn_due_def worker_defs holds_publish_def)
  qed
  then show ?thesis using m by blast
qed

lemma server_wait_step:
  assumes "server_wait B conf rv w = Some w'" "worker_inv B w" "w_state w = WAIT"
  shows "worker_inv B w'" "balance B w' = balance B w"
proof -
  obtain msg where m: "w_msg w = Some msg"
    using assms(1) by (auto simp: server_wait_def bind_eq_Some_conv)
  have "worker_inv B w' \<and> balance B w' = balance B w"
  proof (cases "nng_msg_get_type B msg = CMD_PUBLISH")
    case False
    then show ?thesis
      using assms m by (auto simp: server_wait_def worker_defs holds_publish_def)
  next
    case True
    then obtain smsg v where v: "deliver B msg w = Some (smsg, v)"
      using assms(1) m by (auto simp: server_wait_def bind_eq_Some_conv split: if_splits)
    obtain x where x: "(if bc_bridge_mode conf then map_option snd (bridge_handler B conf (v\<lparr>w_msg := Some smsg\<rparr>))
        else Some (v\<lparr>w_msg := Some smsg\<rparr>)) = Some x"
      and w': "w' = (if hook_enable (bc_web_hook conf) then emit [Aio_finish] (x\<lparr>w_state := SEND\<rparr>)
         else emit [Msg_free smsg, Conn_free (w_cparam x), Ctx_recv (recv_ctx x)]
                (x\<lparr>w_msg := None, w_pub_packet := None, w_msg_infos := [], w_state := RECV\<rparr>))"
      using assms(1) m True v by (auto simp: server_wait_def Let_def bind_eq_Some_conv split: if_splits)
    have "w_proto x = w_proto w" "w_code x = w_code w" "conn_frees (w_events x) = conn_frees (w_events w)"
      using x deliver_frame [OF v] by (auto dest: bridge_handler_frame split: if_splits)
    then show ?thesis
      using assms(2,3) m True by (auto simp: w' worker_defs holds_publish_def)
  qed
  then show "worker_inv B w'" "balance B w' = balance B w" by blast+
qed

lemma server_send_step:
  assumes "server_send B conf rv w = Some w'" "worker_inv B w" "w_state w = SEND"
  shows "worker_inv B w'" "balance B w' = balance B w"
proof -
  obtain v where v: "call_webhook B conf 0 w = Some v"
    using assms(1) by (auto simp: server_send_def bind_eq_Some_conv)
  show "worker_inv B w'" "balance B w' = balance B w"
    using assms call_webhook_frame [OF v] by (auto simp: server_send_def v Let_def worker_defs split: if_splits option.splits)
qed

lemma send_will_step:
  assumes L: "type_laws B" and r: "send_will B w = Some w'"
  shows "w_proto w' = w_proto w" "w_code w' = w_code w" "conn_frees (w_events w') = conn_frees (w_events w)"
    "w_state w' = WAIT" "holds_publish B w'"
proof -
  obtain proto m code w1 where c: "call_handle_pub B proto m (w\<lparr>w_flag := CMD_PUBLISH\<rparr>) = Some (code, w1)"
    and m: "nng_msg_get_type B m = CMD_PUBLISH" and w': "\<exists>p. w' = emit [Aio_finish] (w1\<lparr>w_pub_packet := p, w_state := WAIT\<rparr>)"
  proof (cases "cp_protover (conn_view_of B (w_cparam w)) = 5")
    case True
    then obtain code w1 where c: "call_handle_pub B (PROTOCOL_v5 (br_pub B)) (nng_msg_set_cmd_type (br_pub B) CMD_PUBLISH_V5
        (nano_pubmsg_composer B (will_retain B (w_cparam w)) (will_qos B (w_cparam w)) (will_msg B (w_cparam w))
          (will_topic B (w_cparam w)) 5 (nng_clock B))) (w\<lparr>w_flag := CMD_PUBLISH\<rparr>) = Some (code, w1)"
      and w': "\<exists>p. w' = emit [Aio_finish] (w1\<lparr>w_pub_packet := p, w_state := WAIT\<rparr>)"
      using r by (auto simp: send_will_def Let_def bind_eq_Some_conv)
    then show thesis
      using that [OF c _ w'] by (simp add: type_lawsD [OF L])
  next
    case False
    then obtain code w1 where c: "call_handle_pub B (PROTOCOL_v311 (br_pub B)) (nng_msg_set_cmd_type (br_pub B) CMD_PUBLISH
        (nano_pubmsg_composer B (will_retain B (w_cparam w)) (will_qos B (w_cparam w)) (will_msg B (w_cparam w))
          (will_topic B (w_cparam w)) (cp_protover (conn_view_of B (w_cparam w))) (nng_clock B)))
        (w\<lparr>w_flag := CMD_PUBLISH\<rparr>) = Some (code, w1)" and w': "w' = emit [Aio_finish] (w1\<lparr>w_state := WAIT\<rparr>)"
      using r by (auto simp: send_will_def Let_def bind_eq_Some_conv)
    have "\<exists>p. w' = emit [Aio_finish] (w1\<lparr>w_pub_packet := p, w_state := WAIT\<rparr>)"
      by (rule exI [of _ "w_pub_packet w1"]) (simp add: w')
    then show thesis
      using that [OF c] by (simp add: type_lawsD [OF L])
  qed
  show "w_proto w' = w_proto w" "w_code w' = w_code w" "conn_frees (w_events w') = conn_frees (w_events w)"
    "w_state w' = WAIT" "holds_publish B w'"
    using w' call_handle_pub_frame [OF c] call_handle_pub_type [OF L c m] by auto
qed

lemma server_end_step:
  assumes L: "type_laws B" and r: "server_end B conf rv w = Some w'" and i: "worker_inv B w" "w_state w = END"
  shows "worker_inv B w'" "balance B w' = balance B w"
proof -
  obtain msg where m: "w_msg w = Some msg" "nng_msg_get_type B msg = CMD_PUBLISH" and will: "will_flag B (w_cparam w)"
    using i by (auto simp: worker_inv_def tidy_def holds_publish_def)
  obtain smsg v u where v: "deliver B msg (w\<lparr>w_msg := None\<rparr>) = Some (smsg, v)" and u: "call_webhook B conf 0 v = Some u"
    using r m by (auto simp: server_end_def Let_def bind_eq_Some_conv split: if_splits)
  have cp: "w_cparam u = w_cparam w"
    using deliver_frame [OF v] call_webhook_frame [OF u] by simp
  let ?x = "emit [Msg_free smsg] (u\<lparr>w_msg := None, w_pub_packet := None, w_msg_infos := []\<rparr>)"
  obtain y where y: "send_will B ?x = Some y" and w': "w' = emit [Conn_free (w_cparam y)] y"
    using r m will by (auto simp: server_end_def v u cp Let_def bind_eq_Some_conv split: if_splits)
  have x: "idle ?x" "conn_frees (w_events ?x) = conn_frees (w_events w)"
    using i deliver_frame [OF v] call_webhook_frame [OF u] by (simp_all add: worker_defs)
  show "worker_inv B w'" "balance B w' = balance B w"
    using send_will_step [OF L y] x i(2) by (auto simp: w' worker_defs)
qed

lemma server_cb_step:
  assumes L: "type_laws B" and t: "consistent B aio_msg" and r: "server_cb B conf fuel rv aio_msg w = Some w'" and i: "worker_inv B w"
  shows "worker_inv B w'" "w_state w \<noteq> RECV \<Longrightarrow> balance B w' = balance B w"
proof -
  have "worker_inv B w' \<and> (w_state w \<noteq> RECV \<longrightarrow> balance B w' = balance B w)"
  proof (cases "w_state w")
    case INIT
    then show ?thesis using r i by (auto simp: server_cb_def worker_defs)
  next
    case RECV
    then have "idle w" using i by (simp add: worker_defs)
    then show ?thesis using RECV r server_recv_step [OF L t, of conf fuel rv w w'] by (simp add: server_cb_def)
  next
    case WAIT
    then show ?thesis using r i server_wait_step [of B conf rv w w'] by (simp add: server_cb_def)
  next
    case SEND
    then show ?thesis using r i server_send_step [of B conf rv w w'] by (simp add: server_cb_def)
  next
    case END
    then show ?thesis using r i server_end_step [OF L, of conf rv w w'] by (simp add: server_cb_def)
  next
    case CLOSE
    then show ?thesis using r i by (auto simp: server_cb_def server_close_def Let_def worker_defs split: option.splits)
  qed (use r in \<open>simp add: server_cb_def\<close>)
  then show "worker_inv B w'" "w_state w \<noteq> RECV \<Longrightarrow> balance B w' = balance B w" by blast+
qed

section \<open>Delivering a message\<close>

text \<open>Documented behaviour of the pipe of a message, and what it leaves alone.\<close>

definition pipe_laws :: "('m, 'p, 'd, 'h, 'a, 'r, 'c) broker_ops \<Rightarrow> bool" where
  "pipe_laws B \<longleftrightarrow> (\<forall>p m. nng_msg_get_pipe B (nng_msg_set_pipe B p m) = p \<and>
     nng_msg_header (br_pub B) (nng_msg_set_pipe B p m) = nng_msg_header (br_pub B) m \<and>
     nng_msg_body (br_pub B) (nng_msg_set_pipe B p m) = nng_msg_body (br_pub B) m)"

definition same_packet :: "('m, 'p, 'd, 'h, 'a, 'r, 'c) broker_ops \<Rightarrow> 'm \<Rightarrow> 'm \<Rightarrow> bool" where
  "same_packet B m x \<longleftrightarrow> nng_msg_header (br_pub B) x = nng_msg_header (br_pub B) m \<and>
     nng_msg_body (br_pub B) x = nng_msg_body (br_pub B) m"

lemma send_to_pipes_sent:
  assumes "pipe_laws B"
  shows "\<exists>ms. sent (w_events (snd (send_to_pipes B ps m w))) = sent (w_events w) @ ms \<and>
    map (nng_msg_get_pipe B) ms = ps \<and> (\<forall>x \<in> set ms. same_packet B m x)"
proof (induction ps arbitrary: m w)
  case (Cons p ps)
  let ?m = "nng_msg_set_pipe B p m"
  obtain ms where "sent (w_events (snd (send_to_pipes B (p # ps) m w))) = sent (w_events w) @ ?m # ms"
    "map (nng_msg_get_pipe B) ms = ps" "\<forall>x \<in> set ms. same_packet B ?m x"
    using Cons.IH [of ?m "emit [Msg_clone m, Ctx_send Broker_ctx ?m] (w\<lparr>w_pid := p, w_msg := Some ?m\<rparr>)"]
    by (auto simp: Let_def)
  then show ?case
    using assms by (intro exI [of _ "?m # ms"]) (auto simp: pipe_laws_def same_packet_def)
qed simp

text \<open>Setting the properties of a message leaves its kind alone.\<close>

definition property_laws :: "('m, 'p, 'd, 'h, 'a, 'r, 'c) broker_ops \<Rightarrow> bool" where
  "property_laws B \<longleftrightarrow> (\<forall>d p m. nng_msg_cmd_type (br_pub B) (nng_msg_proto_set_property (br_pub_db B d) p m) = nng_msg_cmd_type (br_pub B) m)"

text \<open>The message a worker holds for a PUBLISH m: of the kind the version asks for, perhaps with its properties set.\<close>

abbreviation marked :: "('m, 'p, 'd, 'h, 'a, 'r, 'c) broker_ops \<Rightarrow> u8 \<Rightarrow> 'm \<Rightarrow> 'm" where
  "marked B ver m \<equiv> nng_msg_set_cmd_type (br_pub B) (if ver = 5 then CMD_PUBLISH_V5 else CMD_PUBLISH) m"

abbreviation publish_proto :: "('m, 'p, 'd, 'h, 'a, 'r, 'c) broker_ops \<Rightarrow> u8 \<Rightarrow> u8" where
  "publish_proto B ver \<equiv> (if ver = 5 then PROTOCOL_v5 (br_pub B) else PROTOCOL_v311 (br_pub B))"

definition carries :: "('m, 'p, 'd, 'h, 'a, 'r, 'c) broker_ops \<Rightarrow> 'd \<Rightarrow> 'm \<Rightarrow> 'm \<Rightarrow> bool" where
  "carries B d m x \<longleftrightarrow> x = m \<or> (\<exists>p. x = nng_msg_proto_set_property (br_pub_db B d) p m)"

lemma call_handle_pub_publishes:
  assumes "publishes (br_pub B) proto m pkt t"
  shows "\<exists>w' m'. call_handle_pub B proto m w = Some (SUCCESS, w') \<and> w_msg w' = Some m' \<and> carries B (w_db w) m m' \<and>
    w_pub_packet w' = Some pkt \<and> w_msg_infos w' = filter (\<lambda>p. p \<noteq> 0) (receivers (br_pub_db B (w_db w)) (cstr t))"
proof -
  have m: "pw_msg (pub_part m w) = m"
    by (simp add: pub_part_def)
  then obtain w1 where w1: "handle_pub (br_pub B) (br_pub_db B (w_db w)) proto (pub_part m w)
      = Some (SUCCESS, route_pub (br_pub B) (br_pub_db B (w_db w)) (cstr t) w1)"
    "pw_msg_infos w1 = []" "pw_packet w1 = Some pkt"
    using handle_pub_publishes [of "br_pub B" proto "pub_part m w" pkt t "br_pub_db B (w_db w)"] assms by auto
  then show ?thesis
    using handle_pub_msg [OF w1(1)] m by (simp add: call_handle_pub_def set_pub_def route_pub_fields carries_def)
qed

text \<open>
  What is left to do for a PUBLISH that has been sent.  Without the web hook nothing: the worker is
  back in RECV.  With it the worker is in SEND; its next call posts the message, sends nothing to
  clients and ends in RECV, and it does not fault when the receive it waited for succeeded and the
  payload is not posted in base 62.
\<close>

definition finishes :: "('m, 'p, 'd, 'h, 'a, 'r, 'c) broker_ops \<Rightarrow> broker_conf \<Rightarrow> nat \<Rightarrow> ('m, 'p, 'd, 'h, 'a, 'r, 'c) nano_work \<Rightarrow> bool" where
  "finishes B conf fuel w \<longleftrightarrow> (if hook_enable (bc_web_hook conf) then w_state w = SEND \<and>
       (\<forall>rv w'. server_cb B conf fuel rv None w = Some w' \<longrightarrow>
          w_state w' = RECV \<and> idle w' \<and> sent (w_events w') = sent (w_events w)) \<and>
       (hook_encode_payload (bc_web_hook conf) \<noteq> Base62 \<longrightarrow> server_cb B conf fuel 0 None w \<noteq> None)
     else w_state w = RECV \<and> idle w)"

lemma webhook_entry_total:
  "hook_encode_payload hook \<noteq> Base62 \<Longrightarrow> \<exists>r. webhook_entry H hook flag success cparam pkt = Some r"
  by (cases flag; cases "hook_encode_payload hook")
    (simp_all add: webhook_entry_def webhook_msg_publish_def payload_json_def Let_def split_beta)

lemma send_finishes:
  assumes "hook_enable (bc_web_hook conf)" "w_state w = SEND" "w_proto w = PROTO_MQTT_BROKER" "w_code w = SUCCESS" "w_pub_packet w = Some pkt"
  shows "finishes B conf fuel w"
proof -
  have "w_state w' = RECV \<and> idle w' \<and> sent (w_events w') = sent (w_events w)" if r: "server_cb B conf fuel rv None w = Some w'" for rv w'
  proof -
    obtain v where v: "call_webhook B conf 0 w = Some v"
      using r assms(2) by (auto simp: server_cb_def server_send_def bind_eq_Some_conv)
    then show ?thesis
      using r assms call_webhook_frame [OF v]
      by (auto simp: server_cb_def server_send_def Let_def worker_defs split: if_splits option.splits)
  qed
  moreover have "server_cb B conf fuel 0 None w \<noteq> None" if enc: "hook_encode_payload (bc_web_hook conf) \<noteq> Base62"
  proof -
    obtain r where "webhook_entry (br_hook B) (bc_web_hook conf) (w_flag w) True (conn_view_of B (w_cparam w)) pkt = Some r"
      using webhook_entry_total [OF enc] by blast
    then show ?thesis
      using assms by (simp add: server_cb_def server_send_def call_webhook_def Let_def split_beta)
  qed
  ultimately show ?thesis
    using assms(1,2) by (simp add: finishes_def)
qed

lemma deliver_sends:
  assumes "pipe_laws B" "w_pub_packet w = Some pkt" "encode_pub_message (br_pub B) m pkt PUBLISH = Some (True, e, pkt')"
  shows "\<exists>smsg w' ms. deliver B m w = Some (smsg, w') \<and> sent (w_events w') = sent (w_events w) @ ms \<and>
    map (nng_msg_get_pipe B) ms = w_msg_infos w \<and> (\<forall>x \<in> set ms. same_packet B e x) \<and> w_pub_packet w' \<noteq> None"
proof (cases "w_msg_infos w = []")
  case True
  then show ?thesis using assms(2) by (simp add: deliver_def)
next
  case False
  define y where "y = w\<lparr>w_pub_packet := Some pkt'\<rparr>"
  have d: "deliver B m w = Some (send_to_pipes B (w_msg_infos w) e y)"
    using False assms by (simp add: deliver_def Let_def y_def)
  obtain ms where "sent (w_events (snd (send_to_pipes B (w_msg_infos w) e y))) = sent (w_events w) @ ms"
    "map (nng_msg_get_pipe B) ms = w_msg_infos w" "\<forall>x \<in> set ms. same_packet B e x"
    using send_to_pipes_sent [OF assms(1), of "w_msg_infos w" e y] by (auto simp: y_def)
  moreover have "w_pub_packet (snd (send_to_pipes B (w_msg_infos w) e y)) \<noteq> None"
    by (simp add: y_def)
  ultimately show ?thesis
    unfolding d by (metis prod.collapse)
qed

definition bridge_memory :: "('m, 'p, 'd, 'h, 'a, 'r, 'c) broker_ops \<Rightarrow> broker_conf \<Rightarrow> bool" where
  "bridge_memory B conf \<longleftrightarrow> (bc_bridge_mode conf \<longrightarrow> (\<exists>x. nng_mqtt_msg_alloc (br_mqtt B) = Inr x))"

lemma bridge_handler_total:
  assumes "w_pub_packet w = Some pkt" "nng_mqtt_msg_alloc (br_mqtt B) = Inr x"
  shows "\<exists>rv w'. bridge_handler B conf w = Some (rv, w')"
  using assms by (simp add: bridge_handler_def bridge_publish_msg_def Let_def split_beta)

lemma wait_publish:
  assumes "pipe_laws B" "bridge_memory B conf" and w: "w_state w = WAIT" "w_proto w = PROTO_MQTT_BROKER" "w_code w = SUCCESS"
    and m: "w_msg w = Some m" "nng_msg_get_type B m = CMD_PUBLISH" "w_pub_packet w = Some pkt"
      "encode_pub_message (br_pub B) m pkt PUBLISH = Some (True, e, pkt')"
  shows "\<exists>w' ms. server_cb B conf fuel 0 None w = Some w' \<and> sent (w_events w') = sent (w_events w) @ ms \<and>
    map (nng_msg_get_pipe B) ms = w_msg_infos w \<and> (\<forall>x \<in> set ms. same_packet B e x) \<and> finishes B conf fuel w'"
proof -
  obtain smsg v ms where v: "deliver B m w = Some (smsg, v)" "sent (w_events v) = sent (w_events w) @ ms"
    "map (nng_msg_get_pipe B) ms = w_msg_infos w" "\<forall>x \<in> set ms. same_packet B e x" "w_pub_packet v \<noteq> None"
    using deliver_sends [OF assms(1) m(3,4)] by - (elim exE conjE, rule that, assumption+)
  define y where "y = v\<lparr>w_msg := Some smsg\<rparr>"
  obtain x where x: "(if bc_bridge_mode conf then map_option snd (bridge_handler B conf y) else Some y) = Some x"
  proof (cases "bc_bridge_mode conf")
    case True
    then obtain z where "nng_mqtt_msg_alloc (br_mqtt B) = Inr z" using assms(2) by (auto simp: bridge_memory_def)
    moreover obtain q where "w_pub_packet y = Some q" using v(5) by (auto simp: y_def)
    ultimately have "\<exists>rv x. bridge_handler B conf y = Some (rv, x)" by (intro bridge_handler_total)
    then obtain rv x where "bridge_handler B conf y = Some (rv, x)" by blast
    then show thesis using that [of x] True by simp
  qed (use that in simp)
  have f: "w_proto x = w_proto w" "w_code x = w_code w" "sent (w_events x) = sent (w_events w) @ ms" "w_pub_packet x \<noteq> None"
    using x v deliver_frame [OF v(1)] by (auto simp: y_def dest: bridge_handler_frame split: if_splits)
  define w' where "w' = (if hook_enable (bc_web_hook conf) then emit [Aio_finish] (x\<lparr>w_state := SEND\<rparr>)
     else emit [Msg_free smsg, Conn_free (w_cparam x), Ctx_recv (recv_ctx x)]
            (x\<lparr>w_msg := None, w_pub_packet := None, w_msg_infos := [], w_state := RECV\<rparr>))"
  have "server_cb B conf fuel 0 None w = Some w'"
    using w(1) m(1,2) v(1) x unfolding y_def by (auto simp: server_cb_def server_wait_def w'_def Let_def split: if_splits)
  moreover have "sent (w_events w') = sent (w_events w) @ ms"
    using f by (simp add: w'_def)
  moreover have "finishes B conf fuel w'"
  proof (cases "hook_enable (bc_web_hook conf)")
    case True
    then show ?thesis using f w by (auto simp: w'_def intro!: send_finishes)
  qed (use f w in \<open>simp add: w'_def finishes_def worker_defs\<close>)
  ultimately show ?thesis using v(3,4) by blast
qed

lemma publish_cycle:
  assumes laws: "pipe_laws B" "type_laws B" "property_laws B" "pub_codec_laws (br_pub B) utf8 penc plen" "bridge_memory B conf"
    and w: "w_state w = RECV" "idle w"
    and m: "nng_msg_cmd_type (br_pub B) m = CMD_PUBLISH" "consistent B (Some m)" "ver = cp_protover (conn_view_of B (nng_msg_get_conn_param B m))"
    and p: "publishes (br_pub B) ver (marked B ver m) pkt t" "well_formed_publish (br_pub B) utf8 plen (publish_proto B ver) pkt"
  shows "\<exists>w1 w2 m1 e pkt' ms. server_cb B conf fuel 0 (Some m) w = Some w1 \<and> w_state w1 = WAIT \<and>
    w_msg w1 = Some m1 \<and> carries B (w_db w) (marked B ver m) m1 \<and>
    encode_pub_message (br_pub B) m1 pkt PUBLISH = Some (True, e, pkt') \<and>
    server_cb B conf fuel 0 None w1 = Some w2 \<and>
    sent (w_events w2) = sent (w_events w) @ ms \<and> (\<forall>x \<in> set ms. same_packet B e x) \<and>
    map (nng_msg_get_pipe B) ms = filter (\<lambda>q. q \<noteq> 0) (receivers (br_pub_db B (w_db w)) (cstr t)) \<and>
    finishes B conf fuel w2"
proof -
  let ?m = "marked B ver m" and ?u = "load_msg B m w"
  let ?ps = "filter (\<lambda>q. q \<noteq> 0) (receivers (br_pub_db B (w_db w)) (cstr t))"
  have u: "w_proto_ver ?u = ver" "w_db ?u = w_db w" "w_events ?u = w_events w" "idle ?u" "w_flag ?u = CMD_PUBLISH"
    using w(2) m(1,3) by (simp_all add: load_msg_def Let_def worker_defs)
  obtain w1 m1 where c: "call_handle_pub B ver ?m ?u = Some (SUCCESS, w1)" "w_msg w1 = Some m1" "carries B (w_db w) ?m m1"
    "w_pub_packet w1 = Some pkt" "w_msg_infos w1 = ?ps"
    using call_handle_pub_publishes [OF p(1), of ?u] u(2) by auto
  note f = call_handle_pub_frame [OF c(1)]
  define v where "v = emit [Aio_finish] (w1\<lparr>w_code := SUCCESS, w_state := WAIT\<rparr>)"
  have v: "w_state v = WAIT" "w_proto v = PROTO_MQTT_BROKER" "w_code v = SUCCESS" "w_msg v = Some m1" "w_pub_packet v = Some pkt"
    "w_msg_infos v = ?ps" "sent (w_events v) = sent (w_events w)"
    using f c u by (auto simp: v_def idle_def)
  have step1: "server_cb B conf fuel 0 (Some m) w = Some v"
    using w f u c(1)
    by (simp add: server_cb_def server_recv_def accept_msg_def idle_def dispatch_def recv_publish_def Let_def v_def)
  have type: "nng_msg_get_type B m1 = CMD_PUBLISH"
    using type_lawsD(1,2) [OF laws(2)] m(1,2) c(3) by (auto simp: consistent_def carries_def)
  have "nng_msg_cmd_type (br_pub B) m1 = (if ver = 5 then CMD_PUBLISH_V5 else CMD_PUBLISH)"
    using c(3) laws(3,4) by (auto simp: carries_def property_laws_def pub_codec_laws_def)
  then have "wire_proto (br_pub B) m1 = publish_proto B ver"
    by (simp add: wire_proto_def)
  then obtain e pkt' where e: "encode_pub_message (br_pub B) m1 pkt PUBLISH = Some (True, e, pkt')"
    using publish_wire_roundtrip [OF laws(4), of m1 pkt] p(2) by auto
  obtain w2 ms where "server_cb B conf fuel 0 None v = Some w2" "sent (w_events w2) = sent (w_events v) @ ms"
    "map (nng_msg_get_pipe B) ms = ?ps" "\<forall>x \<in> set ms. same_packet B e x" "finishes B conf fuel w2"
    using wait_publish [OF laws(1,5) v(1-4) type v(5) e, of fuel] unfolding v(6) by - (elim exE conjE, rule that, assumption+)
  then show ?thesis
    using step1 v(1,4,7) e c(3) by (intro exI conjI) (assumption | simp)+
qed

text \<open>Setting the kind of a message sets it.\<close>

definition cmd_laws :: "('m, 'p, 'd, 'h, 'a, 'r, 'c) broker_ops \<Rightarrow> bool" where
  "cmd_laws B \<longleftrightarrow> (\<forall>c m. nng_msg_cmd_type (br_pub B) (nng_msg_set_cmd_type (br_pub B) c m) = c)"

section \<open>Subscribing\<close>

lemma subscribe_step:
  assumes laws: "sub_pkt_alloc B" "subdb_laws (br_sub_db B) tree subs"
    and w: "w_state w = RECV" "idle w" "tree (w_db w) = (subs (w_dbhash w))\<inverse>"
    and m: "nng_msg_cmd_type (br_pub B) m = CMD_SUBSCRIBE" "ver = cp_protover (conn_view_of B (nng_msg_get_conn_param B m))"
    and p: "decode_sub_msg fuel (br_sub B) m ver = Ret (SUCCESS, pkt)" "sp_node pkt \<noteq> []" "sp_packet_id pkt \<noteq> 0"
      "length (sp_node pkt) = 1 \<or> (\<forall>tn \<in> set (sp_node pkt). opt_retain_handling (br_sub B) (tn_options tn) = 0)"
  shows "\<exists>w1. server_cb B conf fuel 0 (Some m) w = Some w1 \<and> w_state w1 = SEND \<and>
    tree (w_db w1) = tree (w_db w) \<union> node_topics (sp_node pkt) \<times> {nng_msg_get_pipe B m} \<and>
    tree (w_db w1) = (subs (w_dbhash w1))\<inverse>"
proof -
  define u where "u = (load_msg B m w)\<lparr>w_msg_ret := []\<rparr>"
  have u: "w_proto_ver u = ver" "w_db u = w_db w" "w_dbhash u = w_dbhash w" "w_code u = SUCCESS" "w_pid u = nng_msg_get_pipe B m"
    using w(2) m(2) by (simp_all add: u_def load_msg_def Let_def worker_defs)
  have agree: "tables_agree tree subs (sub_part u)" and pid: "sw_pid (sub_part u) = nng_msg_get_pipe B m"
    using w(3) u by (simp_all add: tables_agree_def sub_part_def)
  obtain s where s: "sub_ctx_loop (br_sub B) (br_sub_db B) (sp_node pkt) Null (sub_part u) = Some s"
    using sub_ctx_loop_total [OF p(4)] by blast
  have h: "sub_ctx_handle (br_sub B) (br_sub_db B) (Some pkt) (sub_part u) = Some (0, s)"
    using s p by (simp add: sub_ctx_handle_def)
  have tables: "tables_agree tree subs s" "subs (sw_dbhash s) = subs (w_dbhash w) \<union> {nng_msg_get_pipe B m} \<times> node_topics (sp_node pkt)"
    using sub_ctx_loop_tables [OF laws(2) s agree] u pid by (simp_all add: sub_part_def)
  define sm where "sm = snd (encode_suback_msg (br_sub B) ver (Some pkt) m)"
  have "server_cb B conf fuel 0 (Some m) w = recv_subscribe B fuel m (load_msg B m w)"
    using w m(1) by (simp add: server_cb_def server_recv_def accept_msg_def idle_def dispatch_def load_msg_def Let_def)
  also have "\<dots> = Some (emit (send_retained B (w_pid u) (sw_msg_ret s) @
      [Ctx_send Broker_ctx (nng_msg_set_pipe B (w_pid u) (nng_msg_set_cmd_type (br_sub B) CMD_SUBACK sm)), Aio_finish])
    ((set_sub s u)\<lparr>w_sub_pkt := None, w_msg_ret := [], w_msg := None, w_state := SEND\<rparr>))"
    using laws(1) u h p(1) unfolding recv_subscribe_def u_def [symmetric] by (simp add: Let_def sm_def)
  finally show ?thesis
    using tables w(3) by (auto simp: tables_agree_def)
qed

text \<open>A client entered at a topic of the tree is found there.\<close>

definition tree_laws :: "('m, 'p, 'd, 'h, 'a, 'r, 'c) broker_ops \<Rightarrow> ('d \<Rightarrow> (bytes \<times> u32) set) \<Rightarrow> bool" where
  "tree_laws B tree \<longleftrightarrow> (\<forall>d t p. (t, p) \<in> tree d \<longrightarrow> (\<exists>cs. dbtree_find_clients (br_pub_db B d) t = Some cs \<and> p \<in> set cs))"

section \<open>Bridging\<close>

fun clones :: "('m, 'c) broker_event list \<Rightarrow> nat" where
  "clones [] = 0"
| "clones (e # es) = (case e of Msg_clone m \<Rightarrow> 1 | _ \<Rightarrow> 0) + clones es"

fun handed_on :: "('m, 'c) broker_event list \<Rightarrow> nat" where
  "handed_on [] = 0"
| "handed_on (e # es) = (case e of Msg_free m \<Rightarrow> 1 | Bridge_send t m \<Rightarrow> 1 | _ \<Rightarrow> 0) + handed_on es"

lemma clones_append [simp]: "clones (es @ fs) = clones es + clones fs"
  by (induction es) simp_all

lemma handed_on_append [simp]: "handed_on (es @ fs) = handed_on es + handed_on fs"
  by (induction es) simp_all

definition forwards_to :: "('m, 'p, 'd, 'h, 'a, 'r, 'c) broker_ops \<Rightarrow> bytes option \<Rightarrow> bridge_node \<Rightarrow> bool" where
  "forwards_to B topic n \<longleftrightarrow> bn_enable n \<and> (\<exists>f \<in> set (bn_forwards n). topic_filter (br_hook B) f topic)"

lemma bridge_forwards_effect:
  fixes w :: "('m, 'p, 'd, 'h, 'a, 'r, 'c) nano_work"
  shows "\<exists>es. w_events (snd (bridge_forwards B t fs topic m (rv, w))) = w_events w @ es \<and> clones es = handed_on es \<and>
    (\<forall>i x. Bridge_send i x \<in> set es \<longrightarrow> i = t \<and> x = m \<and> (\<exists>f \<in> set fs. topic_filter (br_hook B) f topic)) \<and>
    fst (bridge_forwards B t fs topic m (rv, w)) = (rv \<or> (\<exists>f \<in> set fs. topic_filter (br_hook B) f topic))"
proof (induction fs arbitrary: rv w)
  case (Cons f fs)
  show ?case
  proof (cases "topic_filter (br_hook B) f topic")
    case True
    define v where "v = emit [Msg_clone m, Aio_set_msg m] (w\<lparr>w_state := SEND\<rparr>)"
    define x :: "('m, 'c) broker_event" where "x = (if nng_aio_busy B (w_events v) then Msg_free m else Bridge_send t m)"
    obtain es where es: "w_events (snd (bridge_forwards B t fs topic m (True, emit [x] v))) = w_events (emit [x] v) @ es"
      "clones es = handed_on es"
      "\<forall>i x. Bridge_send i x \<in> set es \<longrightarrow> i = t \<and> x = m \<and> (\<exists>f \<in> set fs. topic_filter (br_hook B) f topic)"
      "fst (bridge_forwards B t fs topic m (True, emit [x] v)) = (True \<or> (\<exists>f \<in> set fs. topic_filter (br_hook B) f topic))"
      using Cons.IH by blast
    have step: "bridge_forwards B t (f # fs) topic m (rv, w) = bridge_forwards B t fs topic m (True, emit [x] v)"
      using True by (simp add: Let_def v_def x_def)
    have "clones (Msg_clone m # Aio_set_msg m # x # es) = handed_on (Msg_clone m # Aio_set_msg m # x # es)"
      using es(2) by (simp add: x_def)
    moreover have "w_events (emit [x] v) @ es = w_events w @ Msg_clone m # Aio_set_msg m # x # es"
      by (simp add: v_def)
    ultimately show ?thesis
      unfolding step using es True by (intro exI [of _ "Msg_clone m # Aio_set_msg m # x # es"]) (auto simp: x_def)
  next
    case False
    then have "bridge_forwards B t (f # fs) topic m (rv, w) = bridge_forwards B t fs topic m (rv, w)" by simp
    then show ?thesis using Cons.IH [of rv w] False by auto
  qed
qed simp

lemma bridge_nodes_loop_effect:
  "\<exists>es. w_events (snd (bridge_nodes_loop B t ns topic m s)) = w_events (snd s) @ es \<and> clones es = handed_on es \<and>
    (\<forall>i x. Bridge_send i x \<in> set es \<longrightarrow> t \<le> i \<and> i - t < length ns \<and> x = m \<and> forwards_to B topic (ns ! (i - t))) \<and>
    fst (bridge_nodes_loop B t ns topic m s) = (fst s \<or> (\<exists>n \<in> set ns. forwards_to B topic n))"
proof (induction ns arbitrary: t s)
  case (Cons n ns)
  let ?s = "if bn_enable n then bridge_forwards B t (bn_forwards n) topic m s else s"
  have "\<exists>es. w_events (snd ?s) = w_events (snd s) @ es \<and> clones es = handed_on es \<and>
    (\<forall>i x. Bridge_send i x \<in> set es \<longrightarrow> i = t \<and> x = m \<and> forwards_to B topic n) \<and> fst ?s = (fst s \<or> forwards_to B topic n)"
    using bridge_forwards_effect [of B t "bn_forwards n" topic m "fst s" "snd s"] by (auto simp: forwards_to_def)
  then obtain es where es: "w_events (snd ?s) = w_events (snd s) @ es" "clones es = handed_on es"
    "\<forall>i x. Bridge_send i x \<in> set es \<longrightarrow> i = t \<and> x = m \<and> forwards_to B topic n" "fst ?s = (fst s \<or> forwards_to B topic n)"
    by blast
  obtain fs where fs: "w_events (snd (bridge_nodes_loop B (Suc t) ns topic m ?s)) = w_events (snd ?s) @ fs" "clones fs = handed_on fs"
    "\<forall>i x. Bridge_send i x \<in> set fs \<longrightarrow> Suc t \<le> i \<and> i - Suc t < length ns \<and> x = m \<and> forwards_to B topic (ns ! (i - Suc t))"
    "fst (bridge_nodes_loop B (Suc t) ns topic m ?s) = (fst ?s \<or> (\<exists>n \<in> set ns. forwards_to B topic n))"
    using Cons.IH by blast
  have "t \<le> i \<and> i - t < length (n # ns) \<and> x = m \<and> forwards_to B topic ((n # ns) ! (i - t))"
    if "Bridge_send i x \<in> set (es @ fs)" for i x
  proof (cases "Bridge_send i x \<in> set es")
    case True
    then show ?thesis using es(3) by auto
  next
    case False
    then have "Suc t \<le> i \<and> i - Suc t < length ns \<and> x = m \<and> forwards_to B topic (ns ! (i - Suc t))"
      using that fs(3) by auto
    moreover from this have "i - t = Suc (i - Suc t)" by auto
    ultimately show ?thesis by auto
  qed
  then show ?case
    using es fs by (intro exI [of _ "es @ fs"]) auto
qed simp

section \<open>An instance of the interface\<close>

text \<open>The type on the wire is read from the first header byte; the length field doubles as the pipe.\<close>

definition wire_type :: "list_msg \<Rightarrow> cmd_type" where
  "wire_type m = (case fst m of [] \<Rightarrow> CMD_NONE | b # _ \<Rightarrow> if drop_bit 4 b = 3 then CMD_PUBLISH else CMD_OTHER (unat b))"

definition list_unsub_ops :: "(list_msg, bool) unsub_ops" where
  "list_unsub_ops = sub_ops.extend list_sub_ops
     \<lparr> get_utf8_str = (\<lambda>src pos. case list_copyn src pos 0 of (b, p, l) \<Rightarrow> (case b of None \<Rightarrow> ([], p, - 1) | Some t \<Rightarrow> (t, p, l))) \<rparr>"

definition list_mqtt_ops :: "(list_msg, u8) mqtt_ops" where
  "list_mqtt_ops = nng_msg_ops.extend (list_msg_ops (0, CMD_PUBLISH))
     \<lparr> nng_mqtt_msg_alloc = Inr ([], [], 0, CMD_PUBLISH), nng_mqtt_msg_encode = id, nng_mqttv5_msg_encode = id,
       nng_mqtt_msg_decode = id, nng_mqttv5_msg_decode = id, nng_msg_set_conn_param = (\<lambda>c m. m),
       conn_param_alloc = 4, conn_param_set_clientid = (\<lambda>i c. c), conn_param_set_proto_ver = (\<lambda>v c. v), MQTT_PROTOCOL_VERSION_v5 = 5 \<rparr>"

definition tree_subdb :: "(list_msg, (bytes \<times> u32) list, (u32 \<times> bytes) list, bytes \<rightharpoonup> list_msg retain_msg) subdb_ops" where
  "tree_subdb = \<lparr> dbhash_check_topic = (\<lambda>pid t h. (pid, t) \<in> set h),
     dbhash_insert_topic = (\<lambda>pid t q h. (pid, t) # h), dbhash_del_topic = (\<lambda>pid t h. filter (\<lambda>x. x \<noteq> (pid, t)) h),
     dbhash_del_topic_queue = (\<lambda>pid h. (map snd (filter (\<lambda>x. fst x = pid) h), filter (\<lambda>x. fst x \<noteq> pid) h)),
     dbtree_insert_client = (\<lambda>t pid d. (t, pid) # d), dbtree_delete_client = (\<lambda>t pid d. filter (\<lambda>x. x \<noteq> (t, pid)) d),
     dbtree_find_retain = (\<lambda>t r. map_option (\<lambda>m. [Some (rt_message m)]) (r t)) \<rparr>"

definition tree_pubdb :: "(bytes \<times> u32) list \<Rightarrow> (list_msg, bool, u32 \<times> u16 \<rightharpoonup> bytes, bytes \<rightharpoonup> list_msg retain_msg) db_ops" where
  "tree_pubdb d = map_db_ops\<lparr>dbtree_find_clients := (\<lambda>t. if t \<in> fst ` set d then Some (map snd (filter (\<lambda>x. fst x = t) d)) else None)\<rparr>"

type_synonym list_broker_ops = "(list_msg, bool, (bytes \<times> u32) list, (u32 \<times> bytes) list, u32 \<times> u16 \<rightharpoonup> bytes,
  bytes \<rightharpoonup> list_msg retain_msg, u8) broker_ops"

type_synonym list_work = "(list_msg, bool, (bytes \<times> u32) list, (u32 \<times> bytes) list, u32 \<times> u16 \<rightharpoonup> bytes,
  bytes \<rightharpoonup> list_msg retain_msg, u8) nano_work"

definition list_broker :: list_broker_ops where
  "list_broker = \<lparr> br_pub = list_pub_ops, br_sub = list_sub_ops, br_unsub = list_unsub_ops, br_mqtt = list_mqtt_ops,
     br_pub_db = tree_pubdb, br_sub_db = tree_subdb, br_hook = quiet_hook,
     nng_msg_get_type = wire_type, nng_msg_get_pipe = (\<lambda>(h, b, n, c). n), nng_msg_set_pipe = (\<lambda>p (h, b, n, c). (h, b, p, c)),
     nng_msg_get_conn_param = (\<lambda>m. 4), nng_msg_get_proto_data = (\<lambda>m. None), nng_clock = 0,
     conn_view_of = (\<lambda>v. \<lparr> cp_protover = v, cp_keepalive = 60, cp_username = None, cp_clientid = None \<rparr>),
     will_flag = (\<lambda>c. True), will_retain = (\<lambda>c. False), will_qos = (\<lambda>c. 0), will_topic = (\<lambda>c. Some [97]), will_msg = (\<lambda>c. Some [104]),
     will_property = (\<lambda>c. None), property_pub_by_will = id, get_properties_len = (\<lambda>p. 0),
     nano_msg_notify_connect = (\<lambda>c r. ([0x30, 4], [0, 1, 97, 104], 4, CMD_PUBLISH)),
     nano_pubmsg_composer = (\<lambda>r q m t v n. ([0x30, 4], [0, 1, 97, 104], 4, CMD_PUBLISH)),
     nano_dismsg_composer = (\<lambda>c. ([0xE0, 0], [], 0, CMD_DISCONNECT)),
     dbhash_check_id = (\<lambda>p h. p \<in> fst ` set h), sub_pkt_alloc = True, unsub_pkt_alloc = True,
     unsub_fresh = \<lparr> up_packet_id = 0, up_properties = None, up_prop_len = 0, up_node = None \<rparr>, unsub_garbage = 0,
     nng_aio_busy = (\<lambda>es. False), set_packet_type_publish = id, set_publish_dup = (\<lambda>b m. m), set_publish_qos = (\<lambda>q m. m),
     set_publish_retain = (\<lambda>b m. m), set_publish_payload = (\<lambda>p n m. m), set_publish_topic = (\<lambda>t m. m),
     set_publish_property = (\<lambda>p m. m), NNG_ECONNSHUT = 1 \<rparr>"

definition fresh_worker :: list_work where
  "fresh_worker = \<lparr> w_state = INIT, w_proto = PROTO_MQTT_BROKER, w_proto_ver = 0, w_flag = CMD_NONE, w_msg = None, w_msg_ret = [],
     w_pid = 0, w_code = SUCCESS, w_msg_infos = [], w_cparam = 0, w_pub_packet = None, w_sub_pkt = None, w_unsub_pkt = None,
     w_db = [], w_dbhash = [], w_atpairs = Map.empty, w_db_ret = Map.empty,
     w_stats = \<lparr> st_initialed = False, st_msg_in = 0, st_msg_out = 0, st_msg_drop = 0 \<rparr>, w_events = [] \<rparr>"

definition plain_conf :: broker_conf where
  "plain_conf = \<lparr> bc_bridge_mode = False, bc_bridge_nodes = [\<lparr> bn_enable = True, bn_forwards = [[97, 98], [99]] \<rparr>],
     bc_web_hook = \<lparr> hook_enable = False, hook_rules = [], hook_encode_payload = Plain \<rparr> \<rparr>"

lemma list_broker_laws:
  "pipe_laws list_broker" "type_laws list_broker" "subdb_laws (br_sub_db list_broker) set set" "tree_laws list_broker set"
  "property_laws list_broker" "bridge_memory list_broker conf" "cmd_laws list_broker"
  subgoal by (auto simp: pipe_laws_def list_broker_def list_pub_simps)
  subgoal by (auto simp: type_laws_def list_broker_def list_pub_simps wire_type_def tree_pubdb_def map_db_ops_def)
  subgoal by (force simp: subdb_laws_def list_broker_def tree_subdb_def)
  subgoal by (force simp: tree_laws_def list_broker_def tree_pubdb_def)
  subgoal by (auto simp: property_laws_def list_broker_def list_pub_simps tree_pubdb_def map_db_ops_def)
  subgoal by (simp add: bridge_memory_def list_broker_def list_mqtt_ops_def nng_msg_ops.defs)
  subgoal by (auto simp: cmd_laws_def list_broker_def list_pub_simps)
  done

lemma list_broker_simps:
  "br_pub list_broker = list_pub_ops" "br_sub list_broker = list_sub_ops" "sub_pkt_alloc list_broker"
  "br_pub_db list_broker = tree_pubdb"
  "nng_msg_get_pipe list_broker m = fst (snd (snd m))" "nng_msg_get_conn_param list_broker m = 4"
  "cp_protover (conn_view_of list_broker v) = v" "nng_msg_get_type list_broker = wire_type"
  by (simp_all add: list_broker_def split_beta)

lemma list_ops_simps:
  "PROTOCOL_v5 list_pub_ops = 5" "PROTOCOL_v311 list_pub_ops = 4" "PROTOCOL_v5 list_sub_ops = 5"
  "nng_msg_cmd_type list_pub_ops m = snd (snd (snd m))"
  "nng_msg_set_cmd_type list_pub_ops c (h, b, n, c') = (h, b, n, c)"
  by (simp_all add: list_pub_simps list_sub_simps split_beta)

definition sub_ab_msg :: list_msg where
  "sub_ab_msg = ([0x82, 7], [0, 9, 0, 2, 97, 98, 0], 7, CMD_SUBSCRIBE)"

lemma sub_ab_decodes:
  "decode_sub_msg 2 list_sub_ops sub_ab_msg 4 = Ret (SUCCESS,
     \<lparr> sp_packet_id = 9, sp_properties = None, sp_prop_len = 0, sp_node = [granted_node ([97, 98], 0)] \<rparr>)"
  using decode_sub_msg_ok [OF list_utf8_laws, where proto_ver = 4 and msg = sub_ab_msg and packet_id = 9 and props = None and vpos = 2 and plen = 0 and ts = "[([97, 98], 0)]" and fuel = 2]
  by (simp add: sub_ab_msg_def list_sub_simps NNI_GET16_def topic_bytes_def NNI_PUT16_def topic_ok_def)

definition sample_received :: "bool pub_packet_struct" where
  "sample_received = sample_packet\<lparr>pp_fixed_header := (pp_fixed_header sample_packet)\<lparr>fh_packet_type := 3, fh_remain_len := 8\<rparr>\<rparr>"

lemma sample_publish_ok:
  "nng_msg_cmd_type (br_pub list_broker) sample_msg = CMD_PUBLISH" "consistent list_broker (Some sample_msg)"
  "4 = cp_protover (conn_view_of list_broker (nng_msg_get_conn_param list_broker sample_msg))"
  "publishes (br_pub list_broker) 4 (marked list_broker 4 sample_msg) sample_received [97, 98]"
  "well_formed_publish (br_pub list_broker) (\<lambda>t. True) (\<lambda>p. 1) (publish_proto list_broker 4) sample_received"
  "pub_codec_laws (br_pub list_broker) (\<lambda>t. True) list_penc (\<lambda>p. 1)"
proof -
  have m: "nng_msg_set_cmd_type list_pub_ops CMD_PUBLISH sample_msg = sample_msg"
    by (simp add: sample_msg_def list_ops_simps)
  have "wire_proto list_pub_ops ([], [], 0, CMD_PUBLISH) = 4"
    by (simp add: wire_proto_def list_ops_simps)
  then show "well_formed_publish (br_pub list_broker) (\<lambda>t. True) (\<lambda>p. 1) (publish_proto list_broker 4) sample_received"
    using sample_well_formed by (simp add: well_formed_publish_def sample_received_def list_broker_simps list_ops_simps)
qed (use sample_publishes in \<open>simp_all add: sample_received_def list_broker_simps list_ops_simps consistent_def wire_type_def
  sample_msg_def list_pub_laws\<close>)

section \<open>Runs of a worker\<close>

text \<open>A worker of the broker from its start on, over any sequence of results and messages.\<close>

inductive worker_reach :: "('m, 'p, 'd, 'h, 'a, 'r, 'c) broker_ops \<Rightarrow> broker_conf \<Rightarrow> nat \<Rightarrow> ('m, 'p, 'd, 'h, 'a, 'r, 'c) nano_work \<Rightarrow> bool"
  for B conf fuel where
  start: "w_state w = INIT \<Longrightarrow> idle w \<Longrightarrow> worker_reach B conf fuel w"
| step: "worker_reach B conf fuel w \<Longrightarrow> consistent B aio_msg \<Longrightarrow> server_cb B conf fuel rv aio_msg w = Some w'
    \<Longrightarrow> worker_reach B conf fuel w'"

text \<open>The steps between two messages.\<close>

inductive busy_step :: "('m, 'p, 'd, 'h, 'a, 'r, 'c) broker_ops \<Rightarrow> broker_conf \<Rightarrow> nat \<Rightarrow> ('m, 'p, 'd, 'h, 'a, 'r, 'c) nano_work
    \<Rightarrow> ('m, 'p, 'd, 'h, 'a, 'r, 'c) nano_work \<Rightarrow> bool" for B conf fuel where
  "w_state w \<noteq> RECV \<Longrightarrow> server_cb B conf fuel rv None w = Some w' \<Longrightarrow> busy_step B conf fuel w w'"

lemma worker_reach_inv:
  assumes "type_laws B" "worker_reach B conf fuel w"
  shows "worker_inv B w"
  using assms(2)
proof induction
  case (start w)
  then show ?case by (simp add: worker_defs)
next
  case (step w aio_msg rv w')
  show ?case by (rule server_cb_step(1) [OF assms(1) step.hyps(2,3) step.IH])
qed

definition started_worker :: list_work where
  "started_worker = emit [Ctx_recv Broker_ctx] (fresh_worker\<lparr>w_state := RECV\<rparr>)"

lemma started_reach:
  "worker_reach list_broker plain_conf 2 started_worker" "w_state started_worker = RECV" "idle started_worker"
  "w_events started_worker = [Ctx_recv Broker_ctx]"
proof -
  have "server_cb list_broker plain_conf 2 0 None fresh_worker = Some started_worker"
    by (simp add: server_cb_def fresh_worker_def recv_ctx_def started_worker_def)
  moreover have "worker_reach list_broker plain_conf 2 fresh_worker"
    by (rule worker_reach.start) (simp_all add: fresh_worker_def worker_defs)
  ultimately show "worker_reach list_broker plain_conf 2 started_worker"
    using worker_reach.step by (fastforce simp: consistent_def)
qed (simp_all add: started_worker_def fresh_worker_def worker_defs)

lemma busy_steps_balance:
  assumes "type_laws B" "(busy_step B conf fuel)\<^sup>*\<^sup>* w w'" "worker_inv B w"
  shows "worker_inv B w' \<and> balance B w' = balance B w"
  using assms(2)
proof (induction rule: rtranclp_induct)
  case (step x y)
  from step.hyps(2) show ?case
  proof cases
    case (1 rv)
    have "consistent B None" by (simp add: consistent_def)
    from server_cb_step [OF assms(1) this 1(2)] 1(1) step.IH show ?thesis by simp
  qed
qed (simp add: assms(3))

section \<open>Workers of every kind\<close>

text \<open>What the handlers keep for a worker of the broker, of a bridge, of the HTTP server or of the AWS bridge.\<close>

abbreviation kept :: "('m, 'p, 'd, 'h, 'a, 'r, 'c) broker_ops \<Rightarrow> ('m, 'p, 'd, 'h, 'a, 'r, 'c) nano_work
    \<Rightarrow> ('m, 'p, 'd, 'h, 'a, 'r, 'c) nano_work \<Rightarrow> bool" where
  "kept B w w' \<equiv> tidy B w' \<and> w_proto w' = w_proto w"

lemma dispatch_kept:
  assumes L: "type_laws B" and r: "dispatch B conf fuel m w = Some w'" and w: "clean w"
    and m: "w_flag w \<in> {CMD_PUBLISH, CMD_DISCONNECT_EV} \<longrightarrow> nng_msg_get_type B m = CMD_PUBLISH"
  shows "kept B w w'"
proof -
  have pub: "holds_publish B y \<and> w_proto y = w_proto x"
    if "call_handle_pub B p (nng_msg_set_cmd_type (br_pub B) c n) x = Some (code, y)" "nng_msg_get_type B n = CMD_PUBLISH"
    for p c n x code y
    using call_handle_pub_frame [OF that(1)] call_handle_pub_type [OF L that(1)] that(2) by (simp add: type_lawsD [OF L])
  let ?P = "nng_msg_get_type B m = CMD_PUBLISH"
  have "recv_subscribe B fuel m w = Some w' \<or> recv_unsubscribe B fuel m w = Some w' \<or> recv_publish B m w = Some w' \<and> ?P \<or>
     recv_connack B conf m w = Some w' \<or> recv_disconnect_ev B conf m w = Some w' \<and> ?P \<or> w' = emit [Aio_finish] (w\<lparr>w_state := WAIT\<rparr>)"
    using r m by (simp add: dispatch_def split: if_splits)
  then consider "recv_subscribe B fuel m w = Some w'" | "recv_unsubscribe B fuel m w = Some w'" | "recv_publish B m w = Some w'" ?P
    | "recv_connack B conf m w = Some w'" | "recv_disconnect_ev B conf m w = Some w'" ?P | "w' = emit [Aio_finish] (w\<lparr>w_state := WAIT\<rparr>)"
    by blast
  then show ?thesis
  proof cases
    case 1
    then show ?thesis using w
      by (auto simp: recv_subscribe_def Let_def bind_eq_Some_conv tidy_def clean_def split: outcome.splits if_splits)
  next
    case 2
    then show ?thesis using w
      by (auto simp: recv_unsubscribe_def Let_def bind_eq_Some_conv split_beta tidy_def clean_def split: outcome.splits if_splits)
  next
    case 3
    then obtain code w1 where c: "call_handle_pub B (w_proto_ver w) (marked B (w_proto_ver w) m) w = Some (code, w1)"
      by (auto simp: recv_publish_def bind_eq_Some_conv)
    from 3(1) pub [OF c 3(2)] show ?thesis
      by (auto simp: recv_publish_def c Let_def tidy_def clean_def split: if_splits sum.splits)
  next
    case 4
    let ?m = "nng_msg_set_pipe B (w_pid w) m"
    obtain u n where n: "w_proto u = w_proto w" "do {
       reason_code \<leftarrow> (if 1 < length (nng_msg_body (br_pub B) m) then Some (nng_msg_body (br_pub B) m ! 1) else None);
       let smsg = nano_msg_notify_connect B (w_cparam u) reason_code;
       v \<leftarrow> call_webhook B conf reason_code u;
       (code, w1) \<leftarrow> call_handle_pub B (PROTOCOL_v311 (br_pub B)) (nng_msg_set_cmd_type (br_pub B) CMD_PUBLISH smsg)
         (emit [Msg_free n] (v\<lparr>w_flag := CMD_PUBLISH\<rparr>));
       Some (emit [Aio_finish] (w1\<lparr>w_state := WAIT\<rparr>)) } = Some w'"
    proof (cases "w_proto w = PROTO_MQTT_BROKER")
      case True
      then show thesis
        using 4 that [of "emit [Msg_clone ?m, Ctx_send Broker_ctx ?m] w" ?m] by (simp add: recv_connack_def Let_def)
    qed (use 4 that [of w m] in \<open>simp add: recv_connack_def Let_def\<close>)
    then obtain reason v code w1 where v: "call_webhook B conf reason u = Some v" and
      c: "call_handle_pub B (PROTOCOL_v311 (br_pub B)) (nng_msg_set_cmd_type (br_pub B) CMD_PUBLISH
          (nano_msg_notify_connect B (w_cparam u) reason)) (emit [Msg_free n] (v\<lparr>w_flag := CMD_PUBLISH\<rparr>)) = Some (code, w1)"
      and w': "w' = emit [Aio_finish] (w1\<lparr>w_state := WAIT\<rparr>)"
      by (auto simp: Let_def bind_eq_Some_conv)
    show ?thesis
      using pub [OF c] call_webhook_frame(2) [OF v] n(1) by (simp add: w' tidy_def type_lawsD [OF L])
  next
    case 5
    then obtain v code w1 where v: "call_webhook B conf 0 w = Some v" and
      c: "call_handle_pub B (PROTOCOL_v311 (br_pub B)) (nng_msg_set_cmd_type (br_pub B) CMD_PUBLISH m)
          (v\<lparr>w_flag := CMD_PUBLISH\<rparr>) = Some (code, w1)"
      by (auto simp: recv_disconnect_ev_def Let_def bind_eq_Some_conv)
    from 5(1) pub [OF c 5(2)] call_webhook_frame(2) [OF v] show ?thesis
      by (auto simp: recv_disconnect_ev_def v c Let_def tidy_def split: if_splits)
  next
    case 6
    then show ?thesis using w by (simp add: tidy_def clean_def)
  qed
qed

lemma accept_msg_kept:
  assumes "type_laws B" "cmd_laws B" "consistent B (Some m)" "accept_msg B m w = Some a" "clean w"
  shows "case a of Inl w' \<Rightarrow> kept B w w'
    | Inr (m', w') \<Rightarrow> clean w' \<and> w_proto w' = w_proto w \<and>
        (nng_msg_cmd_type (br_pub B) m' \<in> {CMD_PUBLISH, CMD_DISCONNECT_EV} \<longrightarrow> nng_msg_get_type B m' = CMD_PUBLISH)"
  using assms type_lawsD(1) [OF assms(1)]
  by (auto simp: accept_msg_def Let_def consistent_def cmd_laws_def tidy_def clean_def split: work_proto.splits option.splits sum.splits if_splits prod.splits)

lemma server_recv_kept:
  assumes "type_laws B" "cmd_laws B" "consistent B aio_msg" "server_recv B conf fuel rv aio_msg w = Some w'" "clean w"
  shows "kept B w w'"
proof (cases "rv \<noteq> 0 \<and> (w_proto w = PROTO_MQTT_BROKER \<or> rv \<noteq> NNG_ECONNSHUT B)")
  case True
  then show ?thesis using assms(4,5) by (auto simp: server_recv_def tidy_def clean_def)
next
  case False
  then obtain m a where m: "aio_msg = Some m" and a: "accept_msg B m w = Some a"
    and r: "(case a of Inl w \<Rightarrow> Some w | Inr (msg, w) \<Rightarrow> dispatch B conf fuel msg (load_msg B msg w)) = Some w'"
    using assms(4) by (auto simp: server_recv_def bind_eq_Some_conv)
  have c: "consistent B (Some m)" using assms(3) m by simp
  note k = accept_msg_kept [OF assms(1,2) c a assms(5)]
  show ?thesis
  proof (cases a)
    case (Inl x)
    then show ?thesis using r k by simp
  next
    case (Inr x)
    then show ?thesis
      using r k dispatch_kept [OF assms(1), of conf fuel "fst x" "load_msg B (fst x) (snd x)" w']
      by (simp add: split_beta load_msg_def Let_def clean_def)
  qed
qed

lemma server_wait_kept:
  assumes "server_wait B conf rv w = Some w'" "tidy B w" "w_state w = WAIT"
  shows "kept B w w'"
proof -
  obtain msg where m: "w_msg w = Some msg"
    using assms(1) by (auto simp: server_wait_def bind_eq_Some_conv)
  show ?thesis
  proof (cases "nng_msg_get_type B msg = CMD_PUBLISH")
    case False
    then show ?thesis using assms m by (auto simp: server_wait_def tidy_def holds_publish_def clean_def)
  next
    case True
    then obtain smsg v where v: "deliver B msg w = Some (smsg, v)"
      using assms(1) m by (auto simp: server_wait_def bind_eq_Some_conv split: if_splits)
    obtain x where x: "(if bc_bridge_mode conf then map_option snd (bridge_handler B conf (v\<lparr>w_msg := Some smsg\<rparr>))
        else Some (v\<lparr>w_msg := Some smsg\<rparr>)) = Some x"
      and w': "w' = (if hook_enable (bc_web_hook conf) then emit [Aio_finish] (x\<lparr>w_state := SEND\<rparr>)
         else emit [Msg_free smsg, Conn_free (w_cparam x), Ctx_recv (recv_ctx x)]
                (x\<lparr>w_msg := None, w_pub_packet := None, w_msg_infos := [], w_state := RECV\<rparr>))"
      using assms(1) m True v by (auto simp: server_wait_def Let_def bind_eq_Some_conv split: if_splits)
    have "w_proto x = w_proto w"
      using x deliver_frame(2) [OF v] by (auto dest: bridge_handler_frame split: if_splits)
    then show ?thesis by (simp add: w' tidy_def clean_def)
  qed
qed

lemma server_end_kept:
  assumes L: "type_laws B" and r: "server_end B conf rv w = Some w'" and i: "tidy B w" "w_state w = END"
  shows "kept B w w'"
proof -
  obtain msg where m: "w_msg w = Some msg" "nng_msg_get_type B msg = CMD_PUBLISH" and will: "will_flag B (w_cparam w)"
    using i by (auto simp: tidy_def holds_publish_def)
  obtain smsg v u where v: "deliver B msg (w\<lparr>w_msg := None\<rparr>) = Some (smsg, v)" and u: "call_webhook B conf 0 v = Some u"
    using r m by (auto simp: server_end_def Let_def bind_eq_Some_conv split: if_splits)
  have f: "w_cparam u = w_cparam w" "w_proto u = w_proto w"
    using deliver_frame [OF v] call_webhook_frame [OF u] by simp_all
  obtain y where y: "send_will B (emit [Msg_free smsg] (u\<lparr>w_msg := None, w_pub_packet := None, w_msg_infos := []\<rparr>)) = Some y"
    and w': "w' = emit [Conn_free (w_cparam y)] y"
    using r m will by (auto simp: server_end_def v u f Let_def bind_eq_Some_conv split: if_splits)
  show ?thesis
    using send_will_step [OF L y] f by (simp add: w' tidy_def)
qed

lemma server_send_fields:
  assumes "server_send B conf rv w = Some w'"
  shows "w_state w' = RECV" "clean w'" "w_proto w' = w_proto w" "w_code w' = w_code w"
proof -
  obtain v where v: "call_webhook B conf 0 w = Some v"
    using assms by (auto simp: server_send_def bind_eq_Some_conv)
  show "w_state w' = RECV" "clean w'" "w_proto w' = w_proto w" "w_code w' = w_code w"
    using assms call_webhook_frame(2,5) [OF v] by (auto simp: server_send_def v Let_def clean_def split: if_splits)
qed

lemma server_cb_kept:
  assumes L: "type_laws B" "cmd_laws B" and t: "consistent B aio_msg" and r: "server_cb B conf fuel rv aio_msg w = Some w'" and i: "tidy B w"
  shows "kept B w w'"
proof (cases "w_state w")
  case INIT
  then show ?thesis using r i by (auto simp: server_cb_def tidy_def clean_def)
next
  case RECV
  then have "clean w" using i by (simp add: tidy_def)
  then show ?thesis using RECV r server_recv_kept [OF L t, of conf fuel rv w w'] by (simp add: server_cb_def)
next
  case WAIT
  then show ?thesis using r i server_wait_kept [of B conf rv w w'] by (simp add: server_cb_def)
next
  case SEND
  then have "server_send B conf rv w = Some w'" using r by (simp add: server_cb_def)
  then show ?thesis using server_send_fields [of B conf rv w w'] by (simp add: tidy_def)
next
  case END
  then show ?thesis using r i server_end_kept [OF L(1), of conf rv w w'] by (simp add: server_cb_def)
next
  case CLOSE
  then show ?thesis using r i by (auto simp: server_cb_def server_close_def Let_def tidy_def clean_def split: option.splits)
qed (use r in \<open>simp add: server_cb_def\<close>)

text \<open>A worker of any kind from its start on.\<close>

inductive any_worker_reach :: "('m, 'p, 'd, 'h, 'a, 'r, 'c) broker_ops \<Rightarrow> broker_conf \<Rightarrow> nat \<Rightarrow> ('m, 'p, 'd, 'h, 'a, 'r, 'c) nano_work \<Rightarrow> bool"
  for B conf fuel where
  any_start: "w_state w = INIT \<Longrightarrow> clean w \<Longrightarrow> w_code w = SUCCESS \<Longrightarrow> any_worker_reach B conf fuel w"
| any_step: "any_worker_reach B conf fuel w \<Longrightarrow> consistent B aio_msg \<Longrightarrow> server_cb B conf fuel rv aio_msg w = Some w'
    \<Longrightarrow> any_worker_reach B conf fuel w'"

lemma any_worker_inv:
  assumes "type_laws B" "cmd_laws B" "any_worker_reach B conf fuel w"
  shows "tidy B w \<and> (w_proto w = PROTO_MQTT_BROKER \<longrightarrow> worker_inv B w)"
  using assms(3)
proof induction
  case (any_start w)
  then show ?case by (simp add: worker_defs)
next
  case (any_step w aio_msg rv w')
  have "kept B w w'"
    using server_cb_kept [OF assms(1,2) any_step.hyps(2,3)] any_step.IH by blast
  then show ?case
    using server_cb_step(1) [OF assms(1) any_step.hyps(2,3)] any_step.IH by auto
qed

text \<open>
  The reason code of a failed PUBLISH stays with a worker of the HTTP server or of the AWS bridge: it passes
  through SEND, which does not reset it.  Such a worker handles nothing but PUBLISH messages,
  which set the code before it is read.
\<close>

lemma http_code_stays:
  assumes "w_proto w = PROTO_HTTP_SERVER \<or> w_proto w = PROTO_AWS_BRIDGE" "recv_publish B m w = Some w1" "w_code w1 \<noteq> SUCCESS"
    and "server_cb B conf fuel rv None w1 = Some w2"
  shows "w_state w2 = RECV \<and> w_code w2 = w_code w1"
proof -
  have "w_state w1 = SEND"
  proof -
    obtain code x where c: "call_handle_pub B (w_proto_ver w) (marked B (w_proto_ver w) m) w = Some (code, x)"
      using assms(2) by (auto simp: recv_publish_def bind_eq_Some_conv)
    show ?thesis
      using assms(1-3) call_handle_pub_frame(2) [OF c] by (auto simp: recv_publish_def c Let_def split: if_splits sum.splits)
  qed
  then have "server_send B conf rv w1 = Some w2"
    using assms(4) by (simp add: server_cb_def)
  then show ?thesis using server_send_fields [of B conf rv w1 w2] by simp
qed

lemma malformed_cycle:
  assumes w: "w_state w = RECV" "idle w"
    and m: "nng_msg_cmd_type (br_pub B) m = CMD_PUBLISH" "ver = cp_protover (conn_view_of B (nng_msg_get_conn_param B m))"
    and d: "decode_pub_message (br_pub B) (nng_msg_set_cmd_type (br_pub B) (if ver = 5 then CMD_PUBLISH_V5 else CMD_PUBLISH) m)
        ver zero_packet = Some (r, pkt)" "r \<noteq> SUCCESS"
  shows "\<exists>w1 w2. server_cb B conf fuel 0 (Some m) w = Some w1 \<and> w_state w1 = CLOSE \<and> w_code w1 = r \<and>
    server_cb B conf fuel 0 None w1 = Some w2 \<and> w_state w2 = RECV \<and> idle w2 \<and>
    sent (w_events w2) = sent (w_events w) @ [nng_msg_set_pipe B (nng_msg_get_pipe B m) (nano_dismsg_composer B r)] \<and>
    w_db w2 = w_db w \<and> w_dbhash w2 = w_dbhash w \<and> w_atpairs w2 = w_atpairs w \<and> w_db_ret w2 = w_db_ret w"
proof -
  let ?m = "nng_msg_set_cmd_type (br_pub B) (if ver = 5 then CMD_PUBLISH_V5 else CMD_PUBLISH) m"
  let ?u = "load_msg B m w"
  have u: "w_proto_ver ?u = ver" "w_proto ?u = PROTO_MQTT_BROKER" "w_flag ?u = CMD_PUBLISH" "w_pid ?u = nng_msg_get_pipe B m"
    "w_db ?u = w_db w" "w_dbhash ?u = w_dbhash w" "w_atpairs ?u = w_atpairs w" "w_db_ret ?u = w_db_ret w" "w_events ?u = w_events w"
    using w(2) m by (simp_all add: load_msg_def Let_def worker_defs)
  have c: "\<exists>v. call_handle_pub B ver ?m ?u = Some (r, v) \<and> w_atpairs v = w_atpairs w \<and> w_db_ret v = w_db_ret w \<and> w_events v = w_events w"
    using d u by (simp add: call_handle_pub_def handle_pub_def Let_def pub_part_def set_pub_def emit_def)
  then obtain v where v: "call_handle_pub B ver ?m ?u = Some (r, v)" "w_atpairs v = w_atpairs w" "w_db_ret v = w_db_ret w"
    "w_events v = w_events w" by blast
  note f = call_handle_pub_frame [OF v(1)]
  define w1 where "w1 = emit [Conn_free (w_cparam v), Aio_finish]
    (v\<lparr>w_code := r, w_pub_packet := None, w_msg_infos := [], w_state := CLOSE\<rparr>)"
  have "server_cb B conf fuel 0 (Some m) w = Some w1"
    using w f u v(1) d(2)
    by (simp add: server_cb_def server_recv_def accept_msg_def idle_def dispatch_def recv_publish_def w1_def Let_def)
  moreover obtain w2 where "server_close B w1 = Some w2" "w_state w2 = RECV" "idle w2" "w_db w2 = w_db w" "w_dbhash w2 = w_dbhash w"
    "w_atpairs w2 = w_atpairs w" "w_db_ret w2 = w_db_ret w"
    "sent (w_events w2) = sent (w_events w) @ [nng_msg_set_pipe B (nng_msg_get_pipe B m) (nano_dismsg_composer B r)]"
    using f u v by (simp add: server_close_def Let_def w1_def worker_defs emit_def split: option.splits)
  moreover have "w_state w1 = CLOSE" "w_code w1 = r" by (simp_all add: w1_def)
  ultimately show ?thesis by (simp add: server_cb_def)
qed

text \<open>A PUBLISH that the decoder rejects, and a configuration with the hook and the bridge on.\<close>

definition bad_publish :: list_msg where
  "bad_publish = ([0x33, 9], [0, 2, 97, 98, 0, 7, 104, 105], 9, CMD_PUBLISH)"

lemma bad_publish_facts:
  "nng_msg_cmd_type (br_pub list_broker) bad_publish = CMD_PUBLISH" "consistent list_broker (Some bad_publish)"
  "4 = cp_protover (conn_view_of list_broker (nng_msg_get_conn_param list_broker bad_publish))"
  "\<exists>pkt. decode_pub_message (br_pub list_broker) (marked list_broker 4 bad_publish) 4 zero_packet = Some (PROTOCOL_ERROR, pkt)"
  by (simp_all add: list_broker_simps list_ops_simps bad_publish_def consistent_def wire_type_def)
    (simp add: decode_pub_message_def list_pub_simps header_of_byte_def Let_def)

definition full_conf :: broker_conf where
  "full_conf = plain_conf\<lparr>bc_bridge_mode := True,
     bc_web_hook := \<lparr> hook_enable = True, hook_rules = [\<lparr> hr_event = MESSAGE_PUBLISH, hr_topic = None \<rparr>], hook_encode_payload = Plain \<rparr>\<rparr>"

lemma started_any: "any_worker_reach list_broker plain_conf 2 started_worker"
proof -
  have "server_cb list_broker plain_conf 2 0 None fresh_worker = Some started_worker"
    by (simp add: server_cb_def fresh_worker_def recv_ctx_def started_worker_def)
  moreover have "any_worker_reach list_broker plain_conf 2 fresh_worker"
    by (rule any_worker_reach.any_start) (simp_all add: fresh_worker_def worker_defs)
  ultimately show ?thesis
    using any_worker_reach.any_step by (fastforce simp: consistent_def)
qed

section \<open>Properties\<close>

text \<open>
  C2: A PUBLISH with a topic of its own (not an alias) that a worker for the clients of the broker
  (PROTO_MQTT_BROKER) receives goes through, in every version of MQTT: the worker passes from RECV
  to WAIT without a fault, and its next call sends the message, as encode_pub_message writes it, to exactly
  the nonzero pipes the subscription tree lists for its topic, in that order, and to no other client.
  When the web hook is off the worker is then back in RECV with no packet, pipe list or reason
  code left over; when it is on the worker is in SEND, and its next call, which sends nothing
  to clients, ends in RECV in the same way.  A bridge may be on or off; when it is on, its message can be allocated.
\<close>
theorem publish_delivered:
  assumes "pipe_laws B" "type_laws B" "property_laws B" "pub_codec_laws (br_pub B) utf8 penc plen" "bridge_memory B conf"
    and "w_state w = RECV" "idle w"
    and "nng_msg_cmd_type (br_pub B) m = CMD_PUBLISH" "consistent B (Some m)"
      "ver = cp_protover (conn_view_of B (nng_msg_get_conn_param B m))"
    and "publishes (br_pub B) ver (marked B ver m) pkt t" "well_formed_publish (br_pub B) utf8 plen (publish_proto B ver) pkt"
  shows "\<exists>w1 w2 m1 e pkt' ms. server_cb B conf fuel 0 (Some m) w = Some w1 \<and> w_state w1 = WAIT \<and>
    w_msg w1 = Some m1 \<and> carries B (w_db w) (marked B ver m) m1 \<and>
    encode_pub_message (br_pub B) m1 pkt PUBLISH = Some (True, e, pkt') \<and>
    server_cb B conf fuel 0 None w1 = Some w2 \<and>
    sent (w_events w2) = sent (w_events w) @ ms \<and> (\<forall>x \<in> set ms. same_packet B e x) \<and>
    map (nng_msg_get_pipe B) ms = filter (\<lambda>q. q \<noteq> 0) (receivers (br_pub_db B (w_db w)) (cstr t)) \<and>
    finishes B conf fuel w2"
  using assms by (rule publish_cycle)

theorem publish_delivered_witness:
  "\<exists>w1 w2. server_cb list_broker full_conf 2 0 (Some sample_msg)
      (fresh_worker\<lparr>w_state := RECV, w_db := [([97, 98], 4), ([97, 98], 9), ([97], 5)]\<rparr>) = Some w1 \<and>
    server_cb list_broker full_conf 2 0 None w1 = Some w2 \<and> map (nng_msg_get_pipe list_broker) (sent (w_events w2)) = [4, 9] \<and>
    w_state w2 = SEND \<and> server_cb list_broker full_conf 2 0 None w2 \<noteq> None"
proof -
  let ?w = "fresh_worker\<lparr>w_state := RECV, w_db := [([97, 98], 4), ([97, 98], 9), ([97], 5)]\<rparr>"
  have w: "w_state ?w = RECV" "idle ?w" "w_events ?w = []"
    by (simp_all add: fresh_worker_def worker_defs)
  have rec: "filter (\<lambda>q. q \<noteq> 0) (receivers (br_pub_db list_broker (w_db ?w)) (cstr [97, 98])) = [4, 9]"
    by (simp add: receivers_def list_broker_simps tree_pubdb_def map_db_ops_def cstr_def)
  note p = sample_publish_ok
  obtain w1 w2 ms where r: "server_cb list_broker full_conf 2 0 (Some sample_msg) ?w = Some w1"
    "server_cb list_broker full_conf 2 0 None w1 = Some w2" "sent (w_events w2) = ms"
    "map (nng_msg_get_pipe list_broker) ms = [4, 9]" "finishes list_broker full_conf 2 w2"
    using publish_delivered [OF list_broker_laws(1,2,5) p(6) list_broker_laws(6) w(1,2) p(1-5), of full_conf 2,
      unfolded rec w(3) sent.simps append_Nil]
    by - (elim exE conjE, rule that, assumption+)
  moreover have "w_state w2 = SEND" "server_cb list_broker full_conf 2 0 None w2 \<noteq> None"
    using r(5) by (simp_all add: finishes_def full_conf_def)
  ultimately show ?thesis by (intro exI [of _ w1] exI [of _ w2]) simp
qed

text \<open>
  C3: The worker cleans up: whatever messages and results a worker gets from its start on, be it a
  worker for clients, for a bridge or for the HTTP server, each time it is back in RECV it holds no decoded packet and no list
  of pipes of an earlier message.  A worker for clients (PROTO_MQTT_BROKER) holds no reason code either, so
  that a SUBSCRIBE is never rejected because of an older error; the other workers keep the code of a PUBLISH that
  failed, until the next PUBLISH sets it (http_code_stays).
\<close>
theorem worker_cleans_up:
  assumes "type_laws B" "cmd_laws B" "any_worker_reach B conf fuel w" "w_state w = RECV"
  shows "w_pub_packet w = None \<and> w_msg_infos w = [] \<and> (w_proto w = PROTO_MQTT_BROKER \<longrightarrow> w_code w = SUCCESS)"
  using any_worker_inv [OF assms(1-3)] assms(4) by (auto simp: worker_defs)

theorem worker_cleans_up_witness:
  "\<exists>w1 w2. server_cb list_broker plain_conf 2 0 (Some bad_publish) started_worker = Some w1 \<and> w_code w1 = PROTOCOL_ERROR \<and>
     server_cb list_broker plain_conf 2 0 None w1 = Some w2 \<and> w_state w2 = RECV \<and>
     w_pub_packet w2 = None \<and> w_msg_infos w2 = [] \<and> w_code w2 = SUCCESS"
proof -
  obtain pkt where d: "decode_pub_message (br_pub list_broker) (marked list_broker 4 bad_publish) 4 zero_packet = Some (PROTOCOL_ERROR, pkt)"
    using bad_publish_facts(4) by blast
  obtain w1 w2 where r: "server_cb list_broker plain_conf 2 0 (Some bad_publish) started_worker = Some w1" "w_code w1 = PROTOCOL_ERROR"
    "server_cb list_broker plain_conf 2 0 None w1 = Some w2" "w_state w2 = RECV" "idle w2"
    using malformed_cycle [OF started_reach(2,3) bad_publish_facts(1,3) d, of plain_conf 2] by auto
  have none: "consistent list_broker None" by (simp add: consistent_def)
  have "any_worker_reach list_broker plain_conf 2 w2"
    by (rule any_worker_reach.any_step [OF any_worker_reach.any_step [OF started_any bad_publish_facts(2) r(1)] none r(3)])
  from worker_cleans_up [OF list_broker_laws(2,7) this r(4)] r show ?thesis
    by (auto simp: worker_defs)
qed

text \<open>
  C4: The connection parameters of a message are released a fixed number of times for each kind of
  message, whatever path a worker for clients (PROTO_MQTT_BROKER) takes through its states: between a received message and the
  next time it is in RECV, whatever results it gets, once for a SUBSCRIBE, UNSUBSCRIBE, PUBLISH or CONNACK, twice for
  the event of a disconnect (with or without a will), and for any other message once when it
  is a PUBLISH on the wire and not at all otherwise.  (The references themselves are counted by the protocol layer, outside the repository.)
\<close>
theorem conn_param_balance:
  assumes "type_laws B" "worker_reach B conf fuel w" "w_state w = RECV" "consistent B (Some m)"
    and "server_cb B conf fuel 0 (Some m) w = Some w1" "(busy_step B conf fuel)\<^sup>*\<^sup>* w1 w2" "w_state w2 = RECV"
  shows "conn_frees (w_events w2) = conn_frees (w_events w) + conn_due B m"
proof -
  have inv: "worker_inv B w" by (rule worker_reach_inv [OF assms(1,2)])
  then have i: "idle w" using assms(3) by (simp add: worker_defs)
  have "worker_inv B w1" "balance B w1 = conn_frees (w_events w) + conn_due B m"
    using server_recv_step [OF assms(1,4) _ i, of conf fuel 0 w1] assms(3,5) by (auto simp: server_cb_def)
  then have "balance B w2 = conn_frees (w_events w) + conn_due B m"
    using busy_steps_balance [OF assms(1,6)] by simp
  then show ?thesis using assms(7) by (simp add: owed_def)
qed

theorem conn_param_balance_witness:
  "\<exists>w1 w2. server_cb list_broker plain_conf 2 0 (Some sample_msg) started_worker = Some w1 \<and>
     server_cb list_broker plain_conf 2 0 None w1 = Some w2 \<and> conn_frees (w_events w2) = 1"
proof -
  note p = sample_publish_ok
  obtain w1 w2 where w: "server_cb list_broker plain_conf 2 0 (Some sample_msg) started_worker = Some w1" "w_state w1 = WAIT"
    "server_cb list_broker plain_conf 2 0 None w1 = Some w2" "w_state w2 = RECV"
    using publish_cycle [OF list_broker_laws(1,2,5) p(6) list_broker_laws(6) started_reach(2,3) p(1-5), of plain_conf 2]
    by - (elim exE conjE, rule that, (assumption | simp add: finishes_def plain_conf_def)+)
  have "busy_step list_broker plain_conf 2 w1 w2"
    using w by (auto intro: busy_step.intros)
  moreover have "conn_due list_broker sample_msg = 1"
    using p(1) by (simp add: conn_due_def)
  ultimately have "conn_frees (w_events w2) = 1"
    using conn_param_balance [OF list_broker_laws(2) started_reach(1,2) p(2) w(1) r_into_rtranclp w(4)] started_reach(4) by simp
  then show ?thesis using w(1,3) by blast
qed

text \<open>
  C5: A PUBLISH that cannot be decoded ends the connection of a client: the worker for clients (PROTO_MQTT_BROKER) goes to CLOSE with the
  reason code of the decoder and then back to RECV; the only thing it sends is one DISCONNECT
  with that reason code to the pipe the message came from, and the subscriptions, topic
  aliases and retained messages are as before.
\<close>
theorem malformed_publish_closes:
  assumes w: "w_state w = RECV" "idle w"
    and m: "nng_msg_cmd_type (br_pub B) m = CMD_PUBLISH" "ver = cp_protover (conn_view_of B (nng_msg_get_conn_param B m))"
    and d: "decode_pub_message (br_pub B) (nng_msg_set_cmd_type (br_pub B) (if ver = 5 then CMD_PUBLISH_V5 else CMD_PUBLISH) m)
        ver zero_packet = Some (r, pkt)" "r \<noteq> SUCCESS"
  shows "\<exists>w1 w2. server_cb B conf fuel 0 (Some m) w = Some w1 \<and> w_state w1 = CLOSE \<and> w_code w1 = r \<and>
    server_cb B conf fuel 0 None w1 = Some w2 \<and> w_state w2 = RECV \<and> idle w2 \<and>
    sent (w_events w2) = sent (w_events w) @ [nng_msg_set_pipe B (nng_msg_get_pipe B m) (nano_dismsg_composer B r)] \<and>
    w_db w2 = w_db w \<and> w_dbhash w2 = w_dbhash w \<and> w_atpairs w2 = w_atpairs w \<and> w_db_ret w2 = w_db_ret w"
  using assms by (rule malformed_cycle)

theorem malformed_publish_closes_witness:
  "\<exists>w1 w2. server_cb list_broker plain_conf 2 0 (Some bad_publish) started_worker = Some w1 \<and>
     w_code w1 = PROTOCOL_ERROR \<and> server_cb list_broker plain_conf 2 0 None w1 = Some w2 \<and>
     sent (w_events w2) = [([0xE0, 0], [], 9, CMD_DISCONNECT)]"
proof -
  obtain pkt where d: "decode_pub_message (br_pub list_broker) (marked list_broker 4 bad_publish) 4 zero_packet = Some (PROTOCOL_ERROR, pkt)"
    using bad_publish_facts(4) by blast
  have "nng_msg_set_pipe list_broker (nng_msg_get_pipe list_broker bad_publish) (nano_dismsg_composer list_broker PROTOCOL_ERROR)
      = ([0xE0, 0], [], 9, CMD_DISCONNECT)" "sent (w_events started_worker) = []"
    by (simp_all add: list_broker_def bad_publish_def started_reach(4))
  then show ?thesis
    using malformed_publish_closes [OF started_reach(2,3) bad_publish_facts(1,3) d, of plain_conf 2] by auto
qed

text \<open>
  C13: Bridging is selective and leaks nothing: bridge_handler reports a forward exactly when some
  enabled bridge node has a filter that matches the topic, it hands messages only to such
  nodes, and every reference to the bridged message it creates is either handed on or released.
\<close>
theorem bridge_handler_correct:
  assumes "bridge_handler B conf w = Some (rv, w')" "w_pub_packet w = Some pkt"
    and "topic = str_body (vh_topic_name (pp_var_header pkt))"
  shows "rv = (\<exists>n \<in> set (bc_bridge_nodes conf). forwards_to B topic n) \<and>
    (\<exists>es. w_events w' = w_events w @ es \<and> clones es + 1 = handed_on es \<and>
      (\<forall>i x. Bridge_send i x \<in> set es \<longrightarrow>
         i < length (bc_bridge_nodes conf) \<and> forwards_to B topic (bc_bridge_nodes conf ! i)))"
proof -
  obtain smsg smsg' where r: "(rv, w') = (fst (bridge_nodes_loop B 0 (bc_bridge_nodes conf) topic smsg (False, w)),
      emit [Msg_free smsg'] (snd (bridge_nodes_loop B 0 (bc_bridge_nodes conf) topic smsg (False, w))))"
    using assms by (auto simp: bridge_handler_def Let_def bind_eq_Some_conv split_beta)
  obtain es where es: "w_events (snd (bridge_nodes_loop B 0 (bc_bridge_nodes conf) topic smsg (False, w))) = w_events w @ es"
    "clones es = handed_on es" "\<forall>i x. Bridge_send i x \<in> set es \<longrightarrow> i < length (bc_bridge_nodes conf) \<and> forwards_to B topic (bc_bridge_nodes conf ! i)"
    "fst (bridge_nodes_loop B 0 (bc_bridge_nodes conf) topic smsg (False, w)) = (\<exists>n \<in> set (bc_bridge_nodes conf). forwards_to B topic n)"
    using bridge_nodes_loop_effect [of B 0 "bc_bridge_nodes conf" topic smsg "(False, w)"] by auto
  have "w_events w' = w_events w @ es @ [Msg_free smsg']" "rv = (\<exists>n \<in> set (bc_bridge_nodes conf). forwards_to B topic n)"
    using r es by auto
  then show ?thesis
    using es by (intro conjI exI [of _ "es @ [Msg_free smsg']"]) auto
qed

theorem bridge_handler_correct_witness:
  "\<exists>rv w' es. bridge_handler list_broker plain_conf (started_worker\<lparr>w_pub_packet := Some sample_packet\<rparr>) = Some (rv, w') \<and> rv \<and>
     w_events w' = [Ctx_recv Broker_ctx] @ es \<and> clones es + 1 = handed_on es"
proof -
  let ?w = "started_worker\<lparr>w_pub_packet := Some sample_packet\<rparr>"
  have "nng_mqtt_msg_alloc (br_mqtt list_broker) = Inr ([], [], 0, CMD_PUBLISH)"
    by (simp add: list_broker_def list_mqtt_ops_def nng_msg_ops.defs)
  then have "\<exists>rv w'. bridge_handler list_broker plain_conf ?w = Some (rv, w')"
    by (simp add: bridge_handler_def bridge_publish_msg_def Let_def split_beta)
  then obtain rv w' where b: "bridge_handler list_broker plain_conf ?w = Some (rv, w')" by blast
  have t: "Some [97, 98] = str_body (vh_topic_name (pp_var_header sample_packet))"
    by (simp add: sample_packet_def)
  have "\<exists>n \<in> set (bc_bridge_nodes plain_conf). forwards_to list_broker (Some [97, 98]) n"
    by (simp add: plain_conf_def forwards_to_def list_broker_def quiet_hook_def)
  then show ?thesis
    using bridge_handler_correct [OF b _ t] b started_reach(4) by auto
qed

end
