(* ===== verification/ListLink.thy ===== *)
theory ListLink
  imports Prelude
begin

text \<open>
  SylixOS kernel, list/listLink.c and list/listOp.h: doubly linked lists (LINE) and doubly linked
  rings (RING) that live inside other structures.  The heap gives the two pointers of every
  node; None is LW_NULL.
\<close>

section \<open>Nodes\<close>

type_synonym addr = nat

record link =
  plistNext :: "addr option"
  plistPrev :: "addr option"

type_synonym links = "addr \<Rightarrow> link"

definition no_links :: links where
  "no_links = (\<lambda>_. \<lparr> plistNext = None, plistPrev = None \<rparr>)"

definition set_next :: "addr \<Rightarrow> addr option \<Rightarrow> links \<Rightarrow> links" where
  "set_next p v h = h(p := (h p)\<lparr>plistNext := v\<rparr>)"

definition set_prev :: "addr \<Rightarrow> addr option \<Rightarrow> links \<Rightarrow> links" where
  "set_prev p v h = h(p := (h p)\<lparr>plistPrev := v\<rparr>)"

definition list_line_get_next :: "addr \<Rightarrow> links \<Rightarrow> addr option" where
  "list_line_get_next p h = plistNext (h p)"

definition list_line_get_prev :: "addr \<Rightarrow> links \<Rightarrow> addr option" where
  "list_line_get_prev p h = plistPrev (h p)"

section \<open>Lines\<close>

text \<open>A line is its heap and its header.\<close>

type_synonym line = "links \<times> addr option"

definition List_Line_Add_Ahead :: "addr \<Rightarrow> line \<Rightarrow> line" where
  "List_Line_Add_Ahead new = (\<lambda>(h, header).
     let h = set_next new header h;
         h = set_prev new None h;
         h = (case header of None \<Rightarrow> h | Some p \<Rightarrow> set_prev p (Some new) h)
     in (h, Some new))"

definition List_Line_Add_Tail :: "addr \<Rightarrow> line \<Rightarrow> line" where
  "List_Line_Add_Tail new = (\<lambda>(h, header). case header of
     Some p \<Rightarrow>
      (case plistNext (h p) of
         Some q \<Rightarrow>
          (let h = set_next new (plistNext (h p)) h;
               h = set_prev new (Some p) h;
               h = set_prev q (Some new) h;
               h = set_next p (Some new) h
           in (h, header))
       | None \<Rightarrow>
          (let h = set_next p (Some new) h;
               h = set_prev new (Some p) h;
               h = set_next new None h
           in (h, header)))
   | None \<Rightarrow>
      (let h = set_prev new None h;
           h = set_next new None h
       in (h, Some new)))"

definition List_Line_Add_Left :: "addr \<Rightarrow> addr \<Rightarrow> links \<Rightarrow> links" where
  "List_Line_Add_Left new right h =
    (let left = plistPrev (h right);
         h = set_next new (Some right) h;
         h = set_prev new left h;
         h = (case left of None \<Rightarrow> h | Some l \<Rightarrow> set_next l (Some new) h)
     in set_prev right (Some new) h)"

definition List_Line_Add_Right :: "addr \<Rightarrow> addr \<Rightarrow> links \<Rightarrow> links" where
  "List_Line_Add_Right new left h =
    (let right = plistNext (h left);
         h = set_next new right h;
         h = set_prev new (Some left) h;
         h = (case right of None \<Rightarrow> h | Some r \<Rightarrow> set_prev r (Some new) h)
     in set_next left (Some new) h)"

definition List_Line_Del :: "addr \<Rightarrow> line \<Rightarrow> line" where
  "List_Line_Del del = (\<lambda>(h, header).
     let (h, header) = (case plistPrev (h del) of
           None \<Rightarrow> (h, plistNext (h del))
         | Some p \<Rightarrow> (set_next p (plistNext (h del)) h, header));
         h = (case plistNext (h del) of None \<Rightarrow> h | Some q \<Rightarrow> set_prev q (plistPrev (h del)) h)
     in (h, header))"

section \<open>Rings\<close>

text \<open>The outcome None is the use of a null pointer.\<close>

definition List_Ring_Add_Ahead :: "addr \<Rightarrow> line \<Rightarrow> line option" where
  "List_Ring_Add_Ahead new = (\<lambda>(h, header). case header of
     Some p \<Rightarrow>
      (let h = set_next new (Some p) h;
           h = set_prev new (plistPrev (h p)) h
       in case plistPrev (h p) of None \<Rightarrow> None
          | Some q \<Rightarrow> Some (set_prev p (Some new) (set_next q (Some new) h), Some new))
   | None \<Rightarrow> Some (set_next new (Some new) (set_prev new (Some new) h), Some new))"

definition List_Ring_Add_Front :: "addr \<Rightarrow> line \<Rightarrow> line option" where
  "List_Ring_Add_Front new = (\<lambda>(h, header). case header of
     Some p \<Rightarrow>
      (let h = set_prev new (Some p) h;
           h = set_next new (plistNext (h p)) h
       in case plistNext (h p) of None \<Rightarrow> None
          | Some q \<Rightarrow> Some (set_next p (Some new) (set_prev q (Some new) h), header))
   | None \<Rightarrow> Some (set_next new (Some new) (set_prev new (Some new) h), Some new))"

definition List_Ring_Add_Last :: "addr \<Rightarrow> line \<Rightarrow> line option" where
  "List_Ring_Add_Last new = (\<lambda>(h, header). case header of
     Some p \<Rightarrow>
      (case plistPrev (h p) of None \<Rightarrow> None
       | Some q \<Rightarrow>
          (let h = set_next q (Some new) h;
               h = set_prev new (plistPrev (h p)) h;
               h = set_next new (Some p) h
           in Some (set_prev p (Some new) h, header)))
   | None \<Rightarrow> Some (set_next new (Some new) (set_prev new (Some new) h), Some new))"

definition INIT_LIST_RING_HEAD :: "addr \<Rightarrow> links \<Rightarrow> links" where
  "INIT_LIST_RING_HEAD p h = set_prev p None (set_next p None h)"

definition List_Ring_Del :: "addr \<Rightarrow> line \<Rightarrow> line option" where
  "List_Ring_Del del = (\<lambda>(h, header).
     if plistNext (h del) = Some del then Some (INIT_LIST_RING_HEAD del h, None)
     else let header = (if header = Some del then plistNext (h del) else header)
          in case plistPrev (h del) of None \<Rightarrow> None
             | Some p \<Rightarrow>
                (let h = set_next p (plistNext (h del)) h
                 in case plistNext (h del) of None \<Rightarrow> None
                    | Some q \<Rightarrow> Some (INIT_LIST_RING_HEAD del (set_prev q (Some p) h), header)))"

section \<open>Segments\<close>

lemma set_link_simps [simp]:
  "plistNext (set_next p v h q) = (if q = p then v else plistNext (h q))"
  "plistPrev (set_next p v h q) = plistPrev (h q)"
  "plistNext (set_prev p v h q) = plistNext (h q)"
  "plistPrev (set_prev p v h q) = (if q = p then v else plistPrev (h q))"
  by (simp_all add: set_next_def set_prev_def)

lemma links_eqI:
  assumes "\<And>x. plistNext (h x) = plistNext (h' x)" "\<And>x. plistPrev (h x) = plistPrev (h' x)"
  shows "h = (h' :: links)"
  by (rule ext, rule link.equality) (simp_all add: assms)

text \<open>
  seg h prv first xs lst nxt: the nodes xs are linked one after the other, starting at the pointer
  first and ending with the pointer nxt; prv and lst are the predecessors of first and of nxt.
\<close>

fun seg :: "links \<Rightarrow> addr option \<Rightarrow> addr option \<Rightarrow> addr list \<Rightarrow> addr option \<Rightarrow> addr option \<Rightarrow> bool" where
  "seg h prv first [] lst nxt \<longleftrightarrow> first = nxt \<and> prv = lst"
| "seg h prv first (x # xs) lst nxt \<longleftrightarrow> first = Some x \<and> plistPrev (h x) = prv \<and> seg h (Some x) (plistNext (h x)) xs lst nxt"

lemma seg_append:
  "seg h p f (xs @ ys) l n \<longleftrightarrow> (\<exists>m k. seg h p f xs m k \<and> seg h m k ys l n)"
  by (induction xs arbitrary: p f) auto

lemma seg_snoc:
  "seg h p f (xs @ [x]) l n \<longleftrightarrow> l = Some x \<and> plistNext (h x) = n \<and> seg h p f xs (plistPrev (h x)) (Some x)"
  by (auto simp: seg_append)

lemma seg_cong:
  assumes "\<And>x. x \<in> set xs \<Longrightarrow> plistNext (h' x) = plistNext (h x) \<and> plistPrev (h' x) = plistPrev (h x)"
  shows "seg h' p f xs l n = seg h p f xs l n"
  using assms by (induction xs arbitrary: p f) auto

lemma seg_ends:
  assumes "seg h p f xs l n" "xs \<noteq> []"
  shows "f = Some (hd xs)" "l = Some (last xs)" "plistPrev (h (hd xs)) = p" "plistNext (h (last xs)) = n"
proof -
  show "f = Some (hd xs)" "plistPrev (h (hd xs)) = p"
    using assms by (cases xs; simp)+
  obtain ys y where "xs = ys @ [y]"
    using assms(2) by (cases xs rule: rev_cases) auto
  then show "l = Some (last xs)" "plistNext (h (last xs)) = n"
    using assms by (simp_all add: seg_snoc)
qed

text \<open>Changing the pointers into and out of a segment changes only its first and last node.\<close>

lemma seg_relink:
  assumes "seg h p f xs l n" "xs \<noteq> []" "distinct xs"
    and "\<forall>y \<in> set xs. plistNext (h' y) = (if y = last xs then n' else plistNext (h y)) \<and>
       plistPrev (h' y) = (if y = hd xs then p' else plistPrev (h y))"
  shows "seg h' p' f xs l n'"
  using assms
proof (induction xs arbitrary: p f p')
  case (Cons x xs)
  have x: "f = Some x" "plistPrev (h' x) = p'" "seg h (Some x) (plistNext (h x)) xs l n"
    using Cons.prems by simp_all
  show ?case
  proof (cases "xs = []")
    case True
    then show ?thesis using Cons.prems x by simp
  next
    case False
    have y: "plistPrev (h (hd xs)) = Some x" "last (x # xs) = last xs" "hd xs \<in> set xs"
      using seg_ends(3) [OF x(3) False] False by simp_all
    have "seg h' (Some x) (plistNext (h x)) xs l n'"
    proof (rule Cons.IH [OF x(3) False])
      show "distinct xs" using Cons.prems(3) by simp
      show "\<forall>y \<in> set xs. plistNext (h' y) = (if y = last xs then n' else plistNext (h y)) \<and>
          plistPrev (h' y) = (if y = hd xs then Some x else plistPrev (h y))"
        using Cons.prems(3,4) y by auto
    qed
    moreover have "x \<noteq> last xs" using Cons.prems(3) False by auto
    ultimately show ?thesis
      using x(1,2) y(2) Cons.prems(4) by simp
  qed
qed simp

definition is_line :: "line \<Rightarrow> addr list \<Rightarrow> bool" where
  "is_line s xs \<longleftrightarrow> distinct xs \<and> (\<exists>l. seg (fst s) None (snd s) xs l None)"

definition is_ring :: "line \<Rightarrow> addr list \<Rightarrow> bool" where
  "is_ring s xs \<longleftrightarrow> distinct xs \<and> (if xs = [] then snd s = None
     else seg (fst s) (Some (last xs)) (snd s) xs (Some (last xs)) (Some (hd xs)))"

section \<open>Lines represent lists\<close>

lemma line_ahead:
  assumes "is_line s xs" "x \<notin> set xs"
  shows "is_line (List_Line_Add_Ahead x s) (x # xs)"
proof (cases xs)
  case Nil
  then show ?thesis using assms by (auto simp: is_line_def List_Line_Add_Ahead_def split_beta Let_def)
next
  case (Cons y ys)
  obtain h where s: "s = (h, Some y)" and d: "distinct (y # ys)" "x \<notin> set (y # ys)"
    using assms Cons by (cases s) (auto simp: is_line_def)
  obtain l where l: "seg h None (Some y) (y # ys) l None"
    using assms Cons s by (auto simp: is_line_def)
  let ?h = "set_prev y (Some x) (set_prev x None (set_next x (Some y) h))"
  have n: "plistNext (h (last (y # ys))) = None"
    using seg_ends(4) [OF l] by simp
  have "seg ?h (Some x) (Some y) (y # ys) l None"
    by (rule seg_relink [OF l _ d(1)]) (use d n in auto)
  moreover have "plistPrev (?h x) = None" "plistNext (?h x) = Some y"
    using d by auto
  ultimately have "seg ?h None (Some x) (x # y # ys) l None"
    by (simp only: seg.simps simp_thms)
  then show ?thesis
    using d unfolding Cons s is_line_def List_Line_Add_Ahead_def by (simp only: Let_def prod.case option.case fst_conv snd_conv) auto
qed

text \<open>A line around one of its nodes.\<close>

lemma line_split:
  assumes "is_line s (xs @ x # ys)"
  obtains l where "seg (fst s) None (snd s) xs (plistPrev (fst s x)) (Some x)"
    "seg (fst s) (Some x) (plistNext (fst s x)) ys l None" "distinct (xs @ x # ys)"
  using assms by (auto simp: is_line_def seg_append)

lemma line_neighbours:
  assumes "is_line s (xs @ x # ys)"
  shows "plistNext (fst s x) = (case ys of [] \<Rightarrow> None | y # _ \<Rightarrow> Some y)"
    and "plistPrev (fst s x) = (if xs = [] then None else Some (last xs))"
    and "snd s = Some (hd (xs @ [x]))"
proof -
  from assms obtain l where l: "seg (fst s) None (snd s) xs (plistPrev (fst s x)) (Some x)"
    "seg (fst s) (Some x) (plistNext (fst s x)) ys l None" by (rule line_split)
  show "plistNext (fst s x) = (case ys of [] \<Rightarrow> None | y # _ \<Rightarrow> Some y)"
    using l(2) by (cases ys) auto
  show "plistPrev (fst s x) = (if xs = [] then None else Some (last xs))"
    using l(1) seg_ends(2) [OF l(1)] by (cases "xs = []") auto
  show "snd s = Some (hd (xs @ [x]))"
    using l(1) by (cases xs) auto
qed

lemma line_right:
  assumes "is_line (h, f) (xs @ l # ys)" "x \<notin> set (xs @ l # ys)"
  shows "is_line (List_Line_Add_Right x l h, f) (xs @ l # x # ys)"
proof -
  obtain e where e: "seg h None f xs (plistPrev (h l)) (Some l)" "seg h (Some l) (plistNext (h l)) ys e None"
    and d: "distinct (xs @ l # ys)"
    using line_split [OF assms(1)] by auto
  define h' where "h' = List_Line_Add_Right x l h"
  have next': "plistNext (h' y) = (if y = l then Some x else if y = x then plistNext (h l) else plistNext (h y))"
    and prev': "plistPrev (h' y) = (if Some y = plistNext (h l) then Some x else if y = x then Some l else plistPrev (h y))" for y
    by (auto simp: h'_def List_Line_Add_Right_def Let_def split: option.splits)
  have out: "y \<in> set ys" if "plistNext (h l) = Some y" for y
    using e(2) that by (cases ys) auto
  have "plistNext (h' y) = plistNext (h y) \<and> plistPrev (h' y) = plistPrev (h y)" if "y \<in> set xs" for y
    using that d assms(2) out [of y] by (auto simp: next' prev')
  then have 1: "seg h' None f xs (plistPrev (h l)) (Some l)"
    using e(1) seg_cong [of xs h' h] by blast
  obtain e' where 2: "seg h' (Some x) (plistNext (h l)) ys e' None"
  proof (cases "ys = []")
    case False
    note ends = seg_ends [OF e(2) False]
    have "plistNext (h' y) = (if y = last ys then None else plistNext (h y)) \<and>
       plistPrev (h' y) = (if y = hd ys then Some x else plistPrev (h y))" if "y \<in> set ys" for y
      using that d assms(2) ends(1,4) by (auto simp: next' prev')
    then have "seg h' (Some x) (plistNext (h l)) ys e None"
      using d by (intro seg_relink [OF e(2) False]) auto
    then show thesis by (rule that)
  next
    case True
    then show thesis using e(2) that [of "Some x"] by simp
  qed
  have n: "l \<noteq> x" "Some l \<noteq> plistNext (h l)" "Some x \<noteq> plistNext (h l)"
    using assms(2) d out by auto
  have "seg h' (plistPrev (h l)) (Some l) (l # x # ys) e' None"
    using 2 n by (simp add: next' prev')
  with 1 have "seg h' None f (xs @ l # x # ys) e' None"
    by (auto simp only: seg_append)
  then show ?thesis
    using d assms(2) unfolding is_line_def h'_def [symmetric] by auto
qed

lemma Add_Left_Right:
  assumes "plistPrev (h r) = Some l" "plistNext (h l) = Some r" "x \<noteq> r" "x \<noteq> l"
  shows "List_Line_Add_Left x r h = List_Line_Add_Right x l h"
  by (rule links_eqI) (use assms in \<open>auto simp: List_Line_Add_Left_def List_Line_Add_Right_def Let_def\<close>)

lemma line_left:
  assumes "is_line (h, f) (xs @ r # ys)" "x \<notin> set (xs @ r # ys)" "xs \<noteq> []"
  shows "is_line (List_Line_Add_Left x r h, f) (xs @ x # r # ys)"
proof -
  obtain zs l where xs: "xs = zs @ [l]"
    using assms(3) by (cases xs rule: rev_cases) auto
  have "plistPrev (h r) = Some l" "plistNext (h l) = Some r"
    using line_neighbours(2) [OF assms(1)] line_neighbours(1) [of "(h, f)" zs l "r # ys"] assms(1) by (auto simp: xs)
  then have "List_Line_Add_Left x r h = List_Line_Add_Right x l h"
    using assms(2) by (intro Add_Left_Right) (auto simp: xs)
  then show ?thesis
    using line_right [of h f zs l "r # ys" x] assms(1,2) by (simp add: xs)
qed

lemma line_tail:
  assumes "is_line s xs" "x \<notin> set xs"
  shows "is_line (List_Line_Add_Tail x s) (case xs of [] \<Rightarrow> [x] | y # ys \<Rightarrow> y # x # ys)"
proof (cases xs)
  case Nil
  then show ?thesis using assms by (auto simp: is_line_def List_Line_Add_Tail_def split_beta Let_def)
next
  case (Cons y ys)
  obtain h where s: "s = (h, Some y)"
    using assms Cons by (cases s) (auto simp: is_line_def)
  have "List_Line_Add_Tail x (h, Some y) = (List_Line_Add_Right x y h, Some y)"
  proof (cases "plistNext (h y)")
    case None
    then show ?thesis
      using assms(2) Cons by (auto simp: List_Line_Add_Tail_def List_Line_Add_Right_def Let_def intro!: links_eqI)
  next
    case (Some z)
    then show ?thesis
      using assms(2) Cons by (auto simp: List_Line_Add_Tail_def List_Line_Add_Right_def Let_def intro!: links_eqI)
  qed
  then show ?thesis
    using line_right [of h "Some y" "[]" y ys x] assms Cons s by simp
qed

lemma line_del:
  assumes "is_line (h, f) (xs @ x # ys)"
  shows "is_line (List_Line_Del x (h, f)) (xs @ ys)"
proof -
  obtain e where e: "seg h None f xs (plistPrev (h x)) (Some x)" "seg h (Some x) (plistNext (h x)) ys e None"
    and d: "distinct (xs @ x # ys)"
    using line_split [OF assms] by auto
  define h' f' where "h' = fst (List_Line_Del x (h, f))" and "f' = snd (List_Line_Del x (h, f))"
  have next': "plistNext (h' y) = (if Some y = plistPrev (h x) then plistNext (h x) else plistNext (h y))"
    and prev': "plistPrev (h' y) = (if Some y = plistNext (h x) then plistPrev (h x) else plistPrev (h y))"
    if "y \<noteq> x" for y
    using that by (auto simp: h'_def List_Line_Del_def Let_def split: option.splits)
  have f': "f' = (if plistPrev (h x) = None then plistNext (h x) else f)"
    by (auto simp: f'_def List_Line_Del_def Let_def split: option.splits)
  have left: "seg h' None f' xs (plistPrev (h x)) (plistNext (h x))"
  proof (cases "xs = []")
    case True
    then show ?thesis using e(1) f' by simp
  next
    case False
    note ends = seg_ends [OF e(1) False]
    have "plistNext (h' y) = (if y = last xs then plistNext (h x) else plistNext (h y)) \<and>
       plistPrev (h' y) = (if y = hd xs then None else plistPrev (h y))" if "y \<in> set xs" for y
    proof -
      have y: "y \<noteq> x" "Some y \<noteq> plistNext (h x)"
        using that d e(2) by (cases ys; auto)+
      show ?thesis using next' [OF y(1)] prev' [OF y(1)] y(2) ends(2,3) by simp
    qed
    then have "seg h' None f xs (plistPrev (h x)) (plistNext (h x))"
      using d by (intro seg_relink [OF e(1) False]) auto
    then show ?thesis using f' ends(2) by simp
  qed
  have "\<exists>e'. seg h' (plistPrev (h x)) (plistNext (h x)) ys e' None"
  proof (cases "ys = []")
    case False
    note ends = seg_ends [OF e(2) False]
    have "plistNext (h' y) = (if y = last ys then None else plistNext (h y)) \<and>
       plistPrev (h' y) = (if y = hd ys then plistPrev (h x) else plistPrev (h y))" if "y \<in> set ys" for y
    proof -
      have y: "y \<noteq> x" using that d by auto
      have "Some y \<noteq> plistPrev (h x)"
      proof (cases "xs = []")
        case False
        then have "plistPrev (h x) = Some (last xs)" "last xs \<in> set xs"
          using seg_ends(2) [OF e(1)] by auto
        then show ?thesis using that d by (metis IntI disjoint_iff distinct_append list.set_intros(2) option.inject)
      qed (use e(1) in simp)
      then show ?thesis using next' [OF y] prev' [OF y] ends(1,4) by simp
    qed
    then have "seg h' (plistPrev (h x)) (plistNext (h x)) ys e None"
      using d by (intro seg_relink [OF e(2) False]) auto
    then show ?thesis ..
  qed (use e(2) in simp)
  with left have "\<exists>e'. seg h' None f' (xs @ ys) e' None"
    by (auto simp only: seg_append)
  then show ?thesis
    using d unfolding is_line_def h'_def [symmetric] f'_def [symmetric] by auto
qed

section \<open>The contract of a linked list\<close>

text \<open>
  What the kernel relies on: nodes can be put in front of the list, behind a node and (unless it
  is the first) before a node, taken out, and their neighbours read.
\<close>

locale linked_list =
  fixes repr :: "'s \<Rightarrow> 'a list \<Rightarrow> bool"
    and ahead :: "'a \<Rightarrow> 's \<Rightarrow> 's" and left :: "'a \<Rightarrow> 'a \<Rightarrow> 's \<Rightarrow> 's" and right :: "'a \<Rightarrow> 'a \<Rightarrow> 's \<Rightarrow> 's"
    and del :: "'a \<Rightarrow> 's \<Rightarrow> 's" and header :: "'s \<Rightarrow> 'a option" and succ :: "'a \<Rightarrow> 's \<Rightarrow> 'a option"
  assumes repr_distinct: "repr s xs \<Longrightarrow> distinct xs"
    and repr_ahead: "repr s xs \<Longrightarrow> x \<notin> set xs \<Longrightarrow> repr (ahead x s) (x # xs)"
    and repr_left: "repr s (xs @ r # ys) \<Longrightarrow> x \<notin> set (xs @ r # ys) \<Longrightarrow> xs \<noteq> [] \<Longrightarrow> repr (left x r s) (xs @ x # r # ys)"
    and repr_right: "repr s (xs @ l # ys) \<Longrightarrow> x \<notin> set (xs @ l # ys) \<Longrightarrow> repr (right x l s) (xs @ l # x # ys)"
    and repr_del: "repr s (xs @ x # ys) \<Longrightarrow> repr (del x s) (xs @ ys)"
    and repr_header: "repr s xs \<Longrightarrow> header s = (case xs of [] \<Rightarrow> None | x # _ \<Rightarrow> Some x)"
    and repr_succ: "repr s (xs @ x # ys) \<Longrightarrow> succ x s = (case ys of [] \<Rightarrow> None | y # _ \<Rightarrow> Some y)"
begin

text \<open>Insertion at any place, with the operation the place calls for.\<close>

lemma insert_anywhere:
  assumes "repr s (xs @ ys)" "x \<notin> set (xs @ ys)"
  shows "repr (if xs = [] then ahead x s else case ys of [] \<Rightarrow> right x (last xs) s | y # _ \<Rightarrow> left x y s) (xs @ x # ys)"
proof (cases "xs = []")
  case True
  then show ?thesis using repr_ahead [of s ys x] assms by simp
next
  case False
  then obtain zs l where xs: "xs = zs @ [l]" by (cases xs rule: rev_cases) auto
  then show ?thesis
    using repr_right [of s zs l "[]" x] repr_left [of s xs _ _ x] assms False by (cases ys) auto
qed

lemma del_undoes_ahead: "repr s xs \<Longrightarrow> x \<notin> set xs \<Longrightarrow> repr (del x (ahead x s)) xs"
  using repr_del [of _ "[]" x xs] repr_ahead by simp

end

interpretation line: linked_list is_line List_Line_Add_Ahead "\<lambda>x r s. (List_Line_Add_Left x r (fst s), snd s)"
  "\<lambda>x l s. (List_Line_Add_Right x l (fst s), snd s)" List_Line_Del snd "\<lambda>x s. list_line_get_next x (fst s)"
proof
  fix s xs
  assume "is_line s xs"
  then show "distinct xs" "snd s = (case xs of [] \<Rightarrow> None | x # _ \<Rightarrow> Some x)"
    by (auto simp: is_line_def split: list.split)
qed (auto simp: line_ahead line_left line_right line_del list_line_get_next_def line_neighbours(1) simp del: split_paired_All)

section \<open>Rings represent lists\<close>

lemma ring_nonempty:
  "is_ring (h, f) xs \<Longrightarrow> xs \<noteq> [] \<Longrightarrow>
    f = Some (hd xs) \<and> seg h (Some (last xs)) f xs (Some (last xs)) (Some (hd xs)) \<and> distinct xs"
  by (auto simp: is_ring_def dest: seg_ends(1))

text \<open>The heap after a node has been linked in between the last and the first node of a ring.\<close>

lemma ring_link_in:
  assumes r: "is_ring (h, f) xs" "xs \<noteq> []" "x \<notin> set xs"
    and h': "\<And>y. plistNext (h' y) = (if y = last xs then Some x else if y = x then Some (hd xs) else plistNext (h y))"
      "\<And>y. plistPrev (h' y) = (if y = hd xs then Some x else if y = x then Some (last xs) else plistPrev (h y))"
  shows "is_ring (h', Some x) (x # xs)" "is_ring (h', f) (xs @ [x])"
proof -
  have s: "f = Some (hd xs)" "seg h (Some (last xs)) f xs (Some (last xs)) (Some (hd xs))" "distinct xs"
    using ring_nonempty [OF r(1,2)] by auto
  have "\<forall>y \<in> set xs. plistNext (h' y) = (if y = last xs then Some x else plistNext (h y)) \<and>
      plistPrev (h' y) = (if y = hd xs then Some x else plistPrev (h y))"
    using r(3) by (auto simp: h')
  then have seg: "seg h' (Some x) f xs (Some (last xs)) (Some x)"
    by (intro seg_relink [OF s(2) r(2) s(3)])
  have x: "x \<noteq> last xs" "x \<noteq> hd xs"
    using r(2,3) by auto
  show "is_ring (h', Some x) (x # xs)"
    using seg x s r(2,3) by (simp add: is_ring_def h')
  show "is_ring (h', f) (xs @ [x])"
    using seg x s r(2,3) by (simp add: is_ring_def seg_snoc h')
qed

lemma ring_first: "is_ring (set_next x (Some x) (set_prev x (Some x) h), Some x) [x]"
  by (simp add: is_ring_def)

lemma ring_add_ahead:
  assumes "is_ring s xs" "x \<notin> set xs"
  shows "\<exists>s'. List_Ring_Add_Ahead x s = Some s' \<and> is_ring s' (x # xs)"
proof (cases "xs = []")
  case True
  then show ?thesis using assms ring_first by (cases s) (auto simp: is_ring_def List_Ring_Add_Ahead_def)
next
  case False
  obtain h f where s: "s = (h, f)" by (cases s)
  have f: "f = Some (hd xs)" "plistPrev (h (hd xs)) = Some (last xs)"
    using ring_nonempty [of h f xs] assms(1) False seg_ends(3) by (auto simp: s)
  have x: "x \<noteq> hd xs" "x \<noteq> last xs" using assms(2) False by auto
  let ?h = "set_prev (hd xs) (Some x) (set_next (last xs) (Some x) (set_prev x (Some (last xs)) (set_next x (Some (hd xs)) h)))"
  have "List_Ring_Add_Ahead x s = Some (?h, Some x)"
    using x by (simp add: s List_Ring_Add_Ahead_def f Let_def)
  moreover have "is_ring (?h, Some x) (x # xs)"
    by (rule ring_link_in(1) [of h f]) (use assms False x in \<open>auto simp: s\<close>)
  ultimately show ?thesis by blast
qed

lemma ring_add_last:
  assumes "is_ring s xs" "x \<notin> set xs"
  shows "\<exists>s'. List_Ring_Add_Last x s = Some s' \<and> is_ring s' (xs @ [x])"
proof (cases "xs = []")
  case True
  then show ?thesis using assms ring_first by (cases s) (auto simp: is_ring_def List_Ring_Add_Last_def)
next
  case False
  obtain h f where s: "s = (h, f)" by (cases s)
  have f: "f = Some (hd xs)" "plistPrev (h (hd xs)) = Some (last xs)"
    using ring_nonempty [of h f xs] assms(1) False seg_ends(3) by (auto simp: s)
  have x: "x \<noteq> hd xs" "x \<noteq> last xs" using assms(2) False by auto
  let ?h = "set_prev (hd xs) (Some x) (set_next x (Some (hd xs)) (set_prev x (Some (last xs)) (set_next (last xs) (Some x) h)))"
  have "List_Ring_Add_Last x s = Some (?h, f)"
    using x by (simp add: s List_Ring_Add_Last_def f Let_def)
  moreover have "is_ring (?h, f) (xs @ [x])"
    by (rule ring_link_in(2) [of h f]) (use assms False x in \<open>auto simp: s\<close>)
  ultimately show ?thesis by blast
qed

lemma ring_rotate:
  assumes "is_ring (h, f) (xs @ ys)" "ys \<noteq> []"
  shows "is_ring (h, Some (hd ys)) (ys @ xs)"
proof (cases "xs = []")
  case True
  then show ?thesis using assms ring_nonempty [of h f ys] by simp
next
  case False
  have r: "seg h (Some (last ys)) f (xs @ ys) (Some (last ys)) (Some (hd xs))" "distinct (xs @ ys)"
    using ring_nonempty [OF assms(1)] assms(2) False by (auto simp: hd_append)
  then obtain m k where m: "seg h (Some (last ys)) f xs m k" "seg h m k ys (Some (last ys)) (Some (hd xs))"
    by (auto simp: seg_append)
  have "m = Some (last xs)" "k = Some (hd ys)" "f = Some (hd xs)"
    using seg_ends [OF m(1) False] seg_ends [OF m(2) assms(2)] by auto
  then have "seg h (Some (last xs)) (Some (hd ys)) (ys @ xs) (Some (last xs)) (Some (hd ys))"
    using m by (auto simp only: seg_append)
  then show ?thesis
    using r(2) False assms(2) by (auto simp: is_ring_def)
qed

text \<open>Behind the first node is the end of the ring that starts at the second.\<close>

lemma ring_add_front:
  assumes "is_ring s xs" "x \<notin> set xs"
  shows "\<exists>s'. List_Ring_Add_Front x s = Some s' \<and> is_ring s' (case xs of [] \<Rightarrow> [x] | y # ys \<Rightarrow> y # x # ys)"
proof (cases xs)
  case Nil
  then show ?thesis using assms ring_first by (cases s) (auto simp: is_ring_def List_Ring_Add_Front_def)
next
  case (Cons y ys)
  obtain h f where s: "s = (h, f)" by (cases s)
  define q where "q = hd (ys @ [y])"
  have r: "is_ring (h, Some q) (ys @ [y])"
    using ring_rotate [of h f "[y]" ys] ring_nonempty [of h f "[y]"] assms(1) by (cases "ys = []") (auto simp: s Cons q_def)
  have f: "f = Some y" "plistNext (h y) = Some q"
    using ring_nonempty [of h f xs] assms(1) ring_nonempty [OF r] seg_ends(4) [of h _ _ "ys @ [y]"] by (auto simp: s Cons q_def)
  have x: "x \<noteq> y" "x \<noteq> q" "x \<notin> set (ys @ [y])" using assms(2) by (cases ys; auto simp: Cons q_def)+
  let ?h = "set_next y (Some x) (set_prev q (Some x) (set_next x (Some q) (set_prev x (Some y) h)))"
  have "List_Ring_Add_Front x s = Some (?h, Some y)"
    using x by (simp add: s List_Ring_Add_Front_def f Let_def)
  moreover have "is_ring (?h, Some x) (x # ys @ [y])"
    by (rule ring_link_in(1) [OF r]) (use x in \<open>auto simp: q_def\<close>)
  then have "is_ring (?h, Some y) (y # x # ys)"
    using ring_rotate [of ?h "Some x" "x # ys" "[y]"] by simp
  ultimately show ?thesis using Cons by auto
qed

text \<open>Taking out the first node leaves the ring that starts at the second.\<close>

lemma ring_unlink_first:
  assumes r: "is_ring (h, Some x) (x # ys)" "ys \<noteq> []"
    and h': "\<And>y. y \<noteq> x \<Longrightarrow> plistNext (h' y) = (if y = last ys then Some (hd ys) else plistNext (h y))"
      "\<And>y. y \<noteq> x \<Longrightarrow> plistPrev (h' y) = (if y = hd ys then Some (last ys) else plistPrev (h y))"
  shows "is_ring (h', Some (hd ys)) ys"
proof -
  have s: "seg h (Some x) (plistNext (h x)) ys (Some (last ys)) (Some x)" "distinct ys" "x \<notin> set ys"
    using ring_nonempty [OF r(1)] r(2) by auto
  have n: "plistNext (h x) = Some (hd ys)" using seg_ends(1) [OF s(1) r(2)] .
  have "\<forall>y \<in> set ys. plistNext (h' y) = (if y = last ys then Some (hd ys) else plistNext (h y)) \<and>
      plistPrev (h' y) = (if y = hd ys then Some (last ys) else plistPrev (h y))"
    using s(3) h' by metis
  then have "seg h' (Some (last ys)) (Some (hd ys)) ys (Some (last ys)) (Some (hd ys))"
    using seg_relink [OF s(1) r(2) s(2)] n by simp
  then show ?thesis using s r(2) by (simp add: is_ring_def)
qed

lemma ring_del:
  assumes "is_ring (h, f) (xs @ x # ys)"
  shows "\<exists>s'. List_Ring_Del x (h, f) = Some s' \<and> is_ring s' (xs @ ys) \<and> plistNext (fst s' x) = None \<and> plistPrev (fst s' x) = None"
proof (cases "xs @ ys = []")
  case True
  then have "plistNext (h x) = Some x" using assms by (simp add: is_ring_def)
  then show ?thesis
    using True by (simp add: List_Ring_Del_def INIT_LIST_RING_HEAD_def is_ring_def)
next
  case False
  let ?zs = "ys @ xs"
  have zs: "?zs \<noteq> []" using False by auto
  have r: "is_ring (h, Some x) (x # ?zs)"
    using ring_rotate [OF assms] by simp
  have d: "distinct (x # ?zs)" using r by (simp add: is_ring_def)
  have p: "plistPrev (h x) = Some (last ?zs)" "plistNext (h x) = Some (hd ?zs)"
    using ring_nonempty [OF r] zs by (auto dest!: seg_ends(1))
  have x: "hd ?zs \<noteq> x" "last ?zs \<noteq> x"
    using d zs by (metis distinct.simps(2) hd_in_set, metis distinct.simps(2) last_in_set)
  let ?f = "if f = Some x then Some (hd ?zs) else f"
  let ?h = "INIT_LIST_RING_HEAD x (set_prev (hd ?zs) (Some (last ?zs)) (set_next (last ?zs) (Some (hd ?zs)) h))"
  have del: "List_Ring_Del x (h, f) = Some (?h, ?f)"
    using x p by (simp add: List_Ring_Del_def Let_def)
  have "is_ring (?h, Some (hd ?zs)) ?zs"
    by (rule ring_unlink_first [OF r zs]) (auto simp: INIT_LIST_RING_HEAD_def)
  moreover have "?f = Some (hd (xs @ ys))"
  proof (cases xs)
    case Nil
    then show ?thesis using ring_nonempty [OF assms] by simp
  next
    case (Cons z zs)
    then show ?thesis using ring_nonempty [OF assms] d by auto
  qed
  ultimately have "is_ring (?h, ?f) (xs @ ys)"
    using ring_rotate [of ?h "Some (hd ?zs)" ys xs] by (cases "xs = []") auto
  then show ?thesis
    using del by (auto simp: INIT_LIST_RING_HEAD_def)
qed

section \<open>Properties\<close>

text \<open>
  C33: The line operations of the kernel implement operations on a sequence of nodes: on a well
  linked line they put a new node in front (Add_Ahead), behind the first node (Add_Tail),
  right behind or right before a given node (Add_Right, and Add_Left for a node that is not the first), or
  take a node out (Del), and the result is well linked in both directions.
\<close>
theorem line_operations_refine:
  assumes "is_line (h, f) xs"
  shows "(x \<notin> set xs \<longrightarrow> is_line (List_Line_Add_Ahead x (h, f)) (x # xs) \<and>
      is_line (List_Line_Add_Tail x (h, f)) (case xs of [] \<Rightarrow> [x] | y # ys \<Rightarrow> y # x # ys) \<and>
      (\<forall>as l bs. xs = as @ l # bs \<longrightarrow> is_line (List_Line_Add_Right x l h, f) (as @ l # x # bs) \<and>
         (as \<noteq> [] \<longrightarrow> is_line (List_Line_Add_Left x l h, f) (as @ x # l # bs)))) \<and>
    (\<forall>as bs. xs = as @ x # bs \<longrightarrow> is_line (List_Line_Del x (h, f)) (as @ bs))"
proof (intro conjI impI allI)
  show "is_line (List_Line_Add_Ahead x (h, f)) (x # xs)" if "x \<notin> set xs"
    using assms that by (rule line_ahead)
  show "is_line (List_Line_Add_Tail x (h, f)) (case xs of [] \<Rightarrow> [x] | y # ys \<Rightarrow> y # x # ys)" if "x \<notin> set xs"
    using assms that by (rule line_tail)
  show "is_line (List_Line_Add_Right x l h, f) (as @ l # x # bs)" if "x \<notin> set xs" "xs = as @ l # bs" for as l bs
    using assms that by (intro line_right) simp_all
  show "is_line (List_Line_Add_Left x l h, f) (as @ x # l # bs)" if "x \<notin> set xs" "xs = as @ l # bs" "as \<noteq> []" for as l bs
    using assms that by (intro line_left) simp_all
  show "is_line (List_Line_Del x (h, f)) (as @ bs)" if "xs = as @ x # bs" for as bs
    using assms that by (intro line_del) simp
qed

theorem line_operations_refine_witness:
  "is_line (List_Line_Del 2 (List_Line_Add_Ahead 3 (List_Line_Add_Ahead 2 (no_links, None)))) [3]"
proof -
  have 0: "is_line (no_links, None) []" by (simp add: is_line_def)
  define s1 where "s1 = List_Line_Add_Ahead 2 (no_links, None)"
  define s2 where "s2 = List_Line_Add_Ahead 3 s1"
  have 1: "is_line (fst s1, snd s1) [2]"
    unfolding s1_def prod.collapse
    by (rule line_operations_refine [OF 0, of 2, THEN conjunct1, THEN mp, THEN conjunct1]) simp
  have 2: "is_line (fst s2, snd s2) [3, 2]"
    using line_operations_refine [OF 1, of 3, THEN conjunct1, THEN mp, THEN conjunct1]
    unfolding s2_def prod.collapse by simp
  have "is_line (List_Line_Del 2 s2) ([3] @ [])"
    using line_operations_refine [OF 2, of 2, THEN conjunct2, rule_format, of "[3]" "[]"]
    unfolding prod.collapse by simp
  then show ?thesis by (simp only: s1_def s2_def append.simps)
qed

text \<open>
  C34: The ring operations of the kernel implement operations on a circular sequence: on a well
  linked ring they never follow a null pointer, they put a new node in front as the new
  header (Add_Ahead), behind the header (Add_Front) or at the end (Add_Last), or take a node
  out, advancing the header when it is the one, and unlink it.
\<close>
theorem ring_operations_refine:
  assumes "is_ring (h, f) xs"
  shows "(x \<notin> set xs \<longrightarrow> (\<exists>s. List_Ring_Add_Ahead x (h, f) = Some s \<and> is_ring s (x # xs)) \<and>
      (\<exists>s. List_Ring_Add_Front x (h, f) = Some s \<and> is_ring s (case xs of [] \<Rightarrow> [x] | y # ys \<Rightarrow> y # x # ys)) \<and>
      (\<exists>s. List_Ring_Add_Last x (h, f) = Some s \<and> is_ring s (xs @ [x]))) \<and>
    (\<forall>as bs. xs = as @ x # bs \<longrightarrow> (\<exists>s. List_Ring_Del x (h, f) = Some s \<and> is_ring s (as @ bs) \<and>
       plistNext (fst s x) = None \<and> plistPrev (fst s x) = None))"
proof (intro conjI impI allI)
  show "\<exists>s. List_Ring_Add_Ahead x (h, f) = Some s \<and> is_ring s (x # xs)" if "x \<notin> set xs"
    using assms that by (rule ring_add_ahead)
  show "\<exists>s. List_Ring_Add_Front x (h, f) = Some s \<and> is_ring s (case xs of [] \<Rightarrow> [x] | y # ys \<Rightarrow> y # x # ys)" if "x \<notin> set xs"
    using assms that by (rule ring_add_front)
  show "\<exists>s. List_Ring_Add_Last x (h, f) = Some s \<and> is_ring s (xs @ [x])" if "x \<notin> set xs"
    using assms that by (rule ring_add_last)
  show "\<exists>s. List_Ring_Del x (h, f) = Some s \<and> is_ring s (as @ bs) \<and>
       plistNext (fst s x) = None \<and> plistPrev (fst s x) = None" if "xs = as @ x # bs" for as bs
    using assms unfolding that by (rule ring_del)
qed

theorem ring_operations_refine_witness:
  "\<exists>s s'. List_Ring_Add_Last 2 (no_links, None) = Some s \<and> List_Ring_Del 2 s = Some s' \<and> is_ring s' []"
proof -
  have 0: "is_ring (no_links, None) []" by (simp add: is_ring_def)
  have "\<exists>s. List_Ring_Add_Last 2 (no_links, None) = Some s \<and> is_ring s ([] @ [2])"
    by (rule ring_operations_refine [OF 0, of 2, THEN conjunct1, THEN mp, THEN conjunct2, THEN conjunct2]) simp
  then obtain s where s: "List_Ring_Add_Last 2 (no_links, None) = Some s" "is_ring s ([] @ [2])"
    by (elim exE conjE) (rule that)
  from s(2) have "is_ring (fst s, snd s) [2]" by simp
  then have "\<exists>s'. List_Ring_Del 2 (fst s, snd s) = Some s' \<and> is_ring s' ([] @ []) \<and>
       plistNext (fst s' 2) = None \<and> plistPrev (fst s' 2) = None"
    by (rule ring_operations_refine [THEN conjunct2, rule_format]) simp
  then obtain s' where "List_Ring_Del 2 s = Some s'" "is_ring s' []"
    unfolding prod.collapse append_Nil by (elim exE conjE) (rule that)
  with s(1) show ?thesis by (intro exI conjI) simp_all
qed

end
