(* ===== verification/Wakeup.thy ===== *)
theory Wakeup
  imports ListLink "HOL-Library.Monad_Syntax"
begin

text \<open>
  SylixOS kernel, core/_WakeupLine.c, the macros of include/k_scanlink.h and core/_TimeTick.c: the
  queues of nodes that wait for a time, kept as linear lists in which every node counts the
  ticks from the node before it.  A queue is modelled with the nodes that can be on it; the
  width of ULONG is the type parameter of the model.
\<close>

section \<open>Queues\<close>

record (overloaded) 'w wakeup_node =
  WUN_bInQ :: bool
  WUN_ulCounter :: "'w word"

text \<open>
  The links WUN_lineManage of the nodes are the heap of the lists.  The function
  WU_pfuncWakeup only wakes a thread: the model keeps whether there is one and counts its calls.
\<close>

record (overloaded) 'w wakeup =
  WU_lines :: links
  WU_nodes :: "addr \<Rightarrow> 'w wakeup_node"
  WU_plineHeader :: "addr option"
  WU_plineOp :: "addr option"
  WU_i64LastTime :: "64 word"
  WU_pfuncWakeup :: bool
  WU_woken :: nat

definition counter :: "'w wakeup \<Rightarrow> addr \<Rightarrow> 'w::len word" where
  "counter w p = WUN_ulCounter (WU_nodes w p)"

definition set_counter :: "addr \<Rightarrow> 'w::len word \<Rightarrow> 'w wakeup \<Rightarrow> 'w wakeup" where
  "set_counter p c w = w\<lparr>WU_nodes := (WU_nodes w)(p := (WU_nodes w p)\<lparr>WUN_ulCounter := c\<rparr>)\<rparr>"

definition set_inq :: "addr \<Rightarrow> bool \<Rightarrow> 'w::len wakeup \<Rightarrow> 'w wakeup" where
  "set_inq p b w = w\<lparr>WU_nodes := (WU_nodes w)(p := (WU_nodes w p)\<lparr>WUN_bInQ := b\<rparr>)\<rparr>"

definition on_line :: "(line \<Rightarrow> line) \<Rightarrow> 'w::len wakeup \<Rightarrow> 'w wakeup" where
  "on_line f w = (let l = f (WU_lines w, WU_plineHeader w) in w\<lparr>WU_lines := fst l, WU_plineHeader := snd l\<rparr>)"

definition WAKEUP_INIT :: "bool \<Rightarrow> 'w::len wakeup \<Rightarrow> 'w wakeup" where
  "WAKEUP_INIT f w = w\<lparr>WU_plineHeader := None, WU_plineOp := None, WU_pfuncWakeup := f\<rparr>"

definition WAKEUP_NODE_INIT :: "addr \<Rightarrow> 'w::len wakeup \<Rightarrow> 'w wakeup" where
  "WAKEUP_NODE_INIT p w =
    w\<lparr>WU_lines := set_prev p None (set_next p None (WU_lines w)),
      WU_nodes := (WU_nodes w)(p := \<lparr> WUN_bInQ = False, WUN_ulCounter = 0 \<rparr>)\<rparr>"

text \<open>The time since the last processing is taken off the first node, whose counter stops at 0.\<close>

definition wakeup_elapse :: "64 word \<Rightarrow> addr option \<Rightarrow> 'w::len wakeup \<Rightarrow> 'w wakeup" where
  "wakeup_elapse now first w =
    (let e = ucast (now - WU_i64LastTime w);
         w = w\<lparr>WU_i64LastTime := now\<rparr>
     in case first of None \<Rightarrow> w
        | Some p \<Rightarrow> set_counter p (if counter w p > e then counter w p - e else 0) w)"

partial_function (option) wakeup_seek ::
  "addr \<Rightarrow> addr option \<Rightarrow> addr option \<Rightarrow> 'w::len wakeup \<Rightarrow> (addr option \<times> addr option \<times> 'w wakeup) option" where
  "wakeup_seek pwun plineTemp pwunTemp w = (case plineTemp of
     None \<Rightarrow> Some (None, pwunTemp, w)
   | Some p \<Rightarrow>
      if counter w pwun \<ge> counter w p
      then wakeup_seek pwun (list_line_get_next p (WU_lines w)) (Some p) (set_counter pwun (counter w pwun - counter w p) w)
      else let w = (if plineTemp = WU_plineHeader w then on_line (List_Line_Add_Ahead pwun) w
                    else w\<lparr>WU_lines := List_Line_Add_Left pwun p (WU_lines w)\<rparr>);
               w = set_counter p (counter w p - counter w pwun) w
           in Some (plineTemp, Some p, w))"

definition wakeup_append :: "addr \<Rightarrow> addr option \<Rightarrow> 'w::len wakeup \<Rightarrow> ('w wakeup \<times> bool) option" where
  "wakeup_append pwun pwunTemp w =
    (if WU_plineHeader w = None then Some (on_line (List_Line_Add_Ahead pwun) w, True)
     else case pwunTemp of None \<Rightarrow> None
          | Some t \<Rightarrow> Some (w\<lparr>WU_lines := List_Line_Add_Right pwun t (WU_lines w)\<rparr>, False))"

definition WakeupAdd :: "addr \<Rightarrow> bool \<Rightarrow> 64 word \<Rightarrow> 'w::len wakeup \<Rightarrow> 'w wakeup option" where
  "WakeupAdd pwun bProcTime now w =
    (let pre = bProcTime \<and> WU_plineHeader w \<noteq> None \<and> WU_pfuncWakeup w;
         w = (if pre then wakeup_elapse now (WU_plineHeader w) w else w)
     in do {
       (plineTemp, pwunTemp, w) \<leftarrow> wakeup_seek pwun (WU_plineHeader w) (if pre then WU_plineHeader w else None) w;
       (w, bSaveTime) \<leftarrow> (if plineTemp = None then wakeup_append pwun pwunTemp w else Some (w, False));
       let w = set_inq pwun True w;
       Some (if bProcTime \<and> WU_pfuncWakeup w
             then let w = (if bSaveTime then w\<lparr>WU_i64LastTime := now\<rparr> else w) in w\<lparr>WU_woken := Suc (WU_woken w)\<rparr>
             else w)
     })"

definition WakeupDel :: "addr \<Rightarrow> bool \<Rightarrow> 64 word \<Rightarrow> 'w::len wakeup \<Rightarrow> 'w wakeup" where
  "WakeupDel pwun bProcTime now w =
    (let w = (if WU_plineOp w = Some pwun then w\<lparr>WU_plineOp := list_line_get_next pwun (WU_lines w)\<rparr> else w);
         plineRight = list_line_get_next pwun (WU_lines w);
         w = (case plineRight of None \<Rightarrow> w | Some r \<Rightarrow> set_counter r (counter w r + counter w pwun) w);
         w = (if bProcTime \<and> list_line_get_prev pwun (WU_lines w) = None \<and> WU_pfuncWakeup w
              then wakeup_elapse now plineRight w else w);
         w = on_line (List_Line_Del pwun) w
     in set_inq pwun False w)"

partial_function (option) wakeup_total :: "addr \<Rightarrow> addr option \<Rightarrow> 'w::len word \<Rightarrow> 'w wakeup \<Rightarrow> 'w word option option" where
  "wakeup_total pwun plineTemp ulCounter w = (case plineTemp of
     None \<Rightarrow> Some None
   | Some p \<Rightarrow>
      (let ulCounter = ulCounter + counter w p
       in if p = pwun then Some (Some ulCounter)
          else wakeup_total pwun (list_line_get_next p (WU_lines w)) ulCounter w))"

definition WakeupStatus :: "addr \<Rightarrow> 64 word \<Rightarrow> 'w::len wakeup \<Rightarrow> 'w word option" where
  "WakeupStatus pwun now w = map_option (\<lambda>r. case r of
       Some ulCounter \<Rightarrow>
        (if WU_i64LastTime w \<noteq> 0
         then let ulDelta = ucast (now - WU_i64LastTime w)
              in if ulCounter > ulDelta then ulCounter - ulDelta else 0
         else ulCounter)
     | None \<Rightarrow> 0)
     (wakeup_total pwun (WU_plineHeader w) 0 w)"

definition set_op :: "addr option \<Rightarrow> 'w::len wakeup \<Rightarrow> 'w wakeup" where
  "set_op p w = w\<lparr>WU_plineOp := p\<rparr>"

text \<open>
  The scan between __WAKEUP_PASS_FIRST and __WAKEUP_PASS_END with the statements between the
  macros as body.  The queue is a part of the state of the kernel, read by get and changed by
  upd.
\<close>

partial_function (option) wakeup_pass ::
  "('k \<Rightarrow> 'w::len wakeup) \<Rightarrow> (('w wakeup \<Rightarrow> 'w wakeup) \<Rightarrow> 'k \<Rightarrow> 'k) \<Rightarrow> (addr \<Rightarrow> 'k \<Rightarrow> 'k option) \<Rightarrow> 'w word \<Rightarrow> 'k \<Rightarrow> 'k option" where
  "wakeup_pass get upd body ulCounter k = (case WU_plineOp (get k) of
     None \<Rightarrow> Some k
   | Some pwun \<Rightarrow>
      (let k = upd (set_op (list_line_get_next pwun (WU_lines (get k)))) k
       in if counter (get k) pwun > ulCounter
          then Some (upd (set_counter pwun (counter (get k) pwun - ulCounter)) k)
          else body pwun (upd (set_counter pwun 0) k) \<bind>
            wakeup_pass get upd body (ulCounter - counter (get k) pwun)))"

definition WAKEUP_PASS ::
  "('k \<Rightarrow> 'w::len wakeup) \<Rightarrow> (('w wakeup \<Rightarrow> 'w wakeup) \<Rightarrow> 'k \<Rightarrow> 'k) \<Rightarrow> (addr \<Rightarrow> 'k \<Rightarrow> 'k option) \<Rightarrow> 'w word \<Rightarrow> 'k \<Rightarrow> 'k option" where
  "WAKEUP_PASS get upd body ulCounter k = wakeup_pass get upd body ulCounter (upd (set_op (WU_plineHeader (get k))) k)"

text \<open>The software watchdog: the threads whose watchdog has run out are reported to the hooks.\<close>

record (overloaded) 'w watchdog =
  K_wuWatchDog :: "'w wakeup"
  WD_hooked :: "addr list"

definition WatchDogTick :: "'w::len watchdog \<Rightarrow> 'w watchdog option" where
  "WatchDogTick = WAKEUP_PASS K_wuWatchDog K_wuWatchDog_update
     (\<lambda>pwun k. Some (k\<lparr>K_wuWatchDog := WakeupDel pwun False 0 (K_wuWatchDog k), WD_hooked := WD_hooked k @ [pwun]\<rparr>)) 1"

section \<open>Agendas\<close>

text \<open>
  What a queue stands for: the nodes with the time each has still to wait, in the order of
  their times.
\<close>

type_synonym agenda = "(addr \<times> nat) list"

fun times :: "(addr \<Rightarrow> 'w::len word) \<Rightarrow> nat \<Rightarrow> addr list \<Rightarrow> agenda" where
  "times c b [] = []"
| "times c b (x # xs) = (x, b + unat (c x)) # times c (b + unat (c x)) xs"

definition is_agenda :: "'w::len wakeup \<Rightarrow> agenda \<Rightarrow> bool" where
  "is_agenda w ag \<longleftrightarrow> is_line (WU_lines w, WU_plineHeader w) (map fst ag) \<and> times (counter w) 0 (map fst ag) = ag \<and>
    (\<forall>e \<in> set ag. snd e < 2 ^ LENGTH('w)) \<and> (\<forall>x. WUN_bInQ (WU_nodes w x) \<longleftrightarrow> x \<in> fst ` set ag)"

fun agenda_insert :: "addr \<Rightarrow> nat \<Rightarrow> agenda \<Rightarrow> agenda" where
  "agenda_insert x t [] = [(x, t)]"
| "agenda_insert x t ((y, u) # ag) = (if u \<le> t then (y, u) # agenda_insert x t ag else (x, t) # (y, u) # ag)"

definition agenda_remove :: "addr \<Rightarrow> agenda \<Rightarrow> agenda" where
  "agenda_remove x ag = filter (\<lambda>e. fst e \<noteq> x) ag"

text \<open>Time is only taken off as long as the first node waits.\<close>

definition agenda_advance :: "nat \<Rightarrow> agenda \<Rightarrow> agenda" where
  "agenda_advance n ag = map (\<lambda>e. (fst e, snd e - min n (snd (hd ag)))) ag"

section \<open>Fields\<close>

abbreviation wline :: "'w::len wakeup \<Rightarrow> line" where
  "wline w \<equiv> (WU_lines w, WU_plineHeader w)"

lemma counter_simps [simp]:
  "counter (set_counter p c w) q = (if q = p then c else counter w q)"
  "counter (set_inq p b w) = counter w" "counter (on_line f w) = counter w"
  "counter (w\<lparr>WU_lines := h\<rparr>) = counter w" "counter (w\<lparr>WU_plineOp := a\<rparr>) = counter w"
  "counter (w\<lparr>WU_i64LastTime := t\<rparr>) = counter w" "counter (w\<lparr>WU_woken := n\<rparr>) = counter w"
  by (auto simp: counter_def set_counter_def set_inq_def on_line_def Let_def)

lemma set_counter_fields [simp]:
  "WU_lines (set_counter p c w) = WU_lines w" "WU_plineHeader (set_counter p c w) = WU_plineHeader w"
  "WU_plineOp (set_counter p c w) = WU_plineOp w" "WU_i64LastTime (set_counter p c w) = WU_i64LastTime w"
  "WU_pfuncWakeup (set_counter p c w) = WU_pfuncWakeup w" "WU_woken (set_counter p c w) = WU_woken w"
  "WUN_bInQ (WU_nodes (set_counter p c w) q) = WUN_bInQ (WU_nodes w q)"
  by (simp_all add: set_counter_def)

lemma set_inq_fields [simp]:
  "WU_lines (set_inq p b w) = WU_lines w" "WU_plineHeader (set_inq p b w) = WU_plineHeader w"
  "WU_plineOp (set_inq p b w) = WU_plineOp w" "WU_i64LastTime (set_inq p b w) = WU_i64LastTime w"
  "WU_pfuncWakeup (set_inq p b w) = WU_pfuncWakeup w" "WU_woken (set_inq p b w) = WU_woken w"
  "WUN_bInQ (WU_nodes (set_inq p b w) q) = (if q = p then b else WUN_bInQ (WU_nodes w q))"
  by (simp_all add: set_inq_def)

lemma on_line_fields [simp]:
  "wline (on_line f w) = f (wline w)"
  "WU_plineOp (on_line f w) = WU_plineOp w" "WU_i64LastTime (on_line f w) = WU_i64LastTime w"
  "WU_pfuncWakeup (on_line f w) = WU_pfuncWakeup w" "WU_woken (on_line f w) = WU_woken w"
  "WU_nodes (on_line f w) = WU_nodes w"
  by (simp_all add: on_line_def Let_def)

lemma set_counter_twice [simp]: "set_counter p c (set_counter p d w) = set_counter p c w"
  by (simp add: set_counter_def)

section \<open>Times\<close>

abbreviation span :: "(addr \<Rightarrow> 'w::len word) \<Rightarrow> addr list \<Rightarrow> nat" where
  "span c xs \<equiv> sum_list (map (\<lambda>x. unat (c x)) xs)"

lemma times_append: "times c b (xs @ ys) = times c b xs @ times c (b + span c xs) ys"
  by (induction xs arbitrary: b) (simp_all add: add.assoc)

lemma times_cong: "(\<And>x. x \<in> set xs \<Longrightarrow> c x = d x) \<Longrightarrow> times c b xs = times d b xs"
  by (induction xs arbitrary: b) simp_all

lemma fst_times [simp]: "map fst (times c b xs) = xs"
  by (induction xs arbitrary: b) simp_all

lemma fst_set_times [simp]: "fst ` set (times c b xs) = set xs"
  by (metis fst_times list.set_map)

lemma times_bounds: "e \<in> set (times c b xs) \<Longrightarrow> b \<le> snd e \<and> snd e \<le> b + span c xs"
  by (induction xs arbitrary: b) (auto, fastforce+)

lemma times_shift: "times c b xs = map (\<lambda>e. (fst e, snd e + b)) (times c 0 xs)"
proof (induction xs arbitrary: b)
  case (Cons x xs)
  show ?case by (simp add: Cons [of "b + unat (c x)"] Cons [of "unat (c x)"] comp_def add_ac)
qed simp

lemma agenda_insert_later:
  "\<forall>e \<in> set as. snd e \<le> t \<Longrightarrow> agenda_insert x t (as @ bs) = as @ agenda_insert x t bs"
  by (induction as) auto

text \<open>Splitting the count of the node behind the new one inserts the new one at its time.\<close>

lemma times_insert:
  assumes d: "distinct (as @ bs)" "x \<notin> set (as @ bs)"
    and t: "unat (c' x) + span c as = t" "bs = y # ys \<Longrightarrow> unat (c' x) + unat (c' y) = unat (c y) \<and> 0 < unat (c' y)"
    and c': "\<And>z. z \<noteq> x \<Longrightarrow> z \<noteq> hd (bs @ [x]) \<Longrightarrow> c' z = c z"
    and bs: "bs = [] \<or> bs = y # ys"
  shows "times c' 0 (as @ x # bs) = agenda_insert x t (times c 0 (as @ bs))"
proof -
  have as: "c' z = c z" if "z \<in> set as" for z
    using d that bs by (intro c') auto
  then have "times c' 0 as = times c 0 as" "span c' as = span c as"
    by (auto intro: times_cong cong: map_cong)
  moreover have "agenda_insert x t (times c 0 (as @ bs)) = times c 0 as @ agenda_insert x t (times c (span c as) bs)"
    using t(1) by (simp add: times_append) (rule agenda_insert_later, auto dest: times_bounds)
  moreover have "times c' (span c as) (x # bs) = agenda_insert x t (times c (span c as) bs)"
  proof (cases "bs = []")
    case False
    then have bs: "bs = y # ys" using bs by simp
    then have "c' z = c z" if "z \<in> set ys" for z
      using d that bs by (intro c') auto
    then have "times c' b ys = times c b ys" for b
      by (intro times_cong)
    then show ?thesis using t bs by (auto simp: add.assoc [symmetric] add.commute)
  qed (use t(1) in simp)
  ultimately show ?thesis by (simp add: times_append)
qed

section \<open>Adding a node\<close>

lemma set_counter_id [simp]: "set_counter p (counter w p) w = w"
  by (simp add: set_counter_def counter_def)

definition seek_result :: "addr \<Rightarrow> addr list \<Rightarrow> addr list \<Rightarrow> addr option \<Rightarrow> 'w::len wakeup \<Rightarrow> addr option \<times> addr option \<times> 'w wakeup" where
  "seek_result x as bs tmp w = (case bs of
     [] \<Rightarrow> (None, tmp, w)
   | y # _ \<Rightarrow> (Some y, Some y, set_counter y (counter w y - counter w x)
       (if as = [] then on_line (List_Line_Add_Ahead x) w else w\<lparr>WU_lines := List_Line_Add_Left x y (WU_lines w)\<rparr>)))"

lemma line_first: "is_line s (xs @ ys) \<Longrightarrow> ys \<noteq> [] \<Longrightarrow> snd s = Some (hd ys) \<longleftrightarrow> xs = []"
  by (cases xs; cases ys) (auto dest: line.repr_header line.repr_distinct simp: is_line_def)

lemma wakeup_seek_stops:
  assumes "is_line (wline w) (as @ bs)" "x \<notin> set (as @ bs)"
  shows "\<exists>bs1 bs2 d. bs = bs1 @ bs2 \<and> unat (counter w x) = span (counter w) bs1 + unat d \<and> (bs2 \<noteq> [] \<longrightarrow> d < counter w (hd bs2)) \<and>
    wakeup_seek x (case bs of [] \<Rightarrow> None | b # _ \<Rightarrow> Some b) tmp w =
      Some (seek_result x (as @ bs1) bs2 (if bs1 = [] then tmp else Some (last bs1)) (set_counter x d w))"
  using assms
proof (induction bs arbitrary: as tmp w)
  case Nil
  show ?case by (intro exI [of _ "[]"] exI [of _ "counter w x"]) (simp add: wakeup_seek.simps seek_result_def)
next
  case (Cons b bs)
  have header: "Some b = WU_plineHeader w \<longleftrightarrow> as = []"
    using line_first [of "wline w" as "b # bs"] Cons.prems(1) by auto
  show ?case
  proof (cases "counter w b \<le> counter w x")
    case True
    let ?w = "set_counter x (counter w x - counter w b) w"
    have next_b: "list_line_get_next b (WU_lines w) = (case bs of [] \<Rightarrow> None | b # _ \<Rightarrow> Some b)"
      using line.repr_succ [OF Cons.prems(1)] by simp
    have "is_line (wline ?w) ((as @ [b]) @ bs)" "x \<notin> set ((as @ [b]) @ bs)"
      using Cons.prems by simp_all
    from Cons.IH [OF this, of "Some b"] obtain bs1 bs2 d where IH: "bs = bs1 @ bs2" "unat (counter ?w x) = span (counter ?w) bs1 + unat d"
      "bs2 \<noteq> [] \<longrightarrow> d < counter ?w (hd bs2)"
      "wakeup_seek x (case bs of [] \<Rightarrow> None | b # _ \<Rightarrow> Some b) (Some b) ?w =
        Some (seek_result x ((as @ [b]) @ bs1) bs2 (if bs1 = [] then Some b else Some (last bs1)) (set_counter x d ?w))"
      by (elim exE conjE) (rule that)
    have "span (counter ?w) bs1 = span (counter w) bs1"
      using Cons.prems(2) IH(1) by (auto intro!: arg_cong [of _ _ sum_list])
    moreover have "unat (counter w x) = unat (counter w b) + unat (counter w x - counter w b)"
      using True by (simp add: unat_sub word_le_nat_alt)
    ultimately have "unat (counter w x) = span (counter w) (b # bs1) + unat d"
      using IH(2) by simp
    moreover have "bs2 \<noteq> [] \<longrightarrow> d < counter w (hd bs2)"
      using IH(1,3) Cons.prems(2) by (cases bs2) auto
    moreover have "wakeup_seek x (Some b) tmp w = wakeup_seek x (list_line_get_next b (WU_lines w)) (Some b) ?w"
      using True by (simp add: wakeup_seek.simps [of x "Some b"])
    ultimately show ?thesis
      using IH(1,4) next_b by (intro exI [of _ "b # bs1"] exI [of _ bs2] exI [of _ d]) simp
  next
    case False
    moreover have "x \<noteq> b" using Cons.prems(2) by auto
    ultimately show ?thesis
      by (intro exI [of _ "[]"] exI [of _ "b # bs"] exI [of _ "counter w x"])
        (simp add: wakeup_seek.simps [of x "Some b"] seek_result_def header Let_def)
  qed
qed

lemma set_agenda_insert [simp]: "set (agenda_insert x t ag) = insert (x, t) (set ag)"
  by (induction x t ag rule: agenda_insert.induct) auto

lemma map_fst_agenda_advance [simp]: "map fst (agenda_advance n ag) = map fst ag"
  by (simp add: agenda_advance_def)

lemma fst_set_agenda_advance [simp]: "fst ` set (agenda_advance n ag) = fst ` set ag"
  by (simp add: agenda_advance_def image_image)

lemma is_agendaD:
  assumes "is_agenda w ag"
  shows "is_line (wline w) (map fst ag)" "times (counter w) 0 (map fst ag) = ag" "distinct (map fst ag)"
  using assms by (auto simp: is_agenda_def is_line_def)

lemma is_agenda_fields [simp]:
  "is_agenda (w\<lparr>WU_i64LastTime := t\<rparr>) ag = is_agenda w ag" "is_agenda (w\<lparr>WU_woken := n\<rparr>) ag = is_agenda w ag"
  "is_agenda (w\<lparr>WU_plineOp := a\<rparr>) ag = is_agenda w ag"
  by (simp_all add: is_agenda_def)

definition elapsed :: "64 word \<Rightarrow> 'w::len wakeup \<Rightarrow> nat" where
  "elapsed now w = unat (ucast (now - WU_i64LastTime w) :: 'w word)"

lemma wakeup_elapse_fields [simp]:
  "wline (wakeup_elapse now f w) = wline w" "WU_lines (wakeup_elapse now f w) = WU_lines w"
  "WU_plineHeader (wakeup_elapse now f w) = WU_plineHeader w" "WU_plineOp (wakeup_elapse now f w) = WU_plineOp w"
  "WU_i64LastTime (wakeup_elapse now f w) = now" "WU_pfuncWakeup (wakeup_elapse now f w) = WU_pfuncWakeup w"
  "WU_woken (wakeup_elapse now f w) = WU_woken w" "WUN_bInQ (WU_nodes (wakeup_elapse now f w) q) = WUN_bInQ (WU_nodes w q)"
  by (simp_all add: wakeup_elapse_def Let_def split: option.split)

lemma counter_wakeup_elapse:
  "unat (counter (wakeup_elapse now (Some p) w) q) = (if q = p then unat (counter w p) - elapsed now w else unat (counter w q))"
  by (cases "ucast (now - WU_i64LastTime w) < counter w p")
    (simp_all add: wakeup_elapse_def Let_def elapsed_def unat_sub less_imp_le, simp add: word_less_nat_alt)

lemma counter_wakeup_elapse_other:
  "f \<noteq> Some q \<Longrightarrow> counter (wakeup_elapse now f w) q = counter w q"
  by (auto simp: wakeup_elapse_def Let_def split: option.split)

lemma is_agenda_header: "is_agenda w ag \<Longrightarrow> WU_plineHeader w = (case map fst ag of [] \<Rightarrow> None | x # _ \<Rightarrow> Some x)"
  using line.repr_header [of "wline w"] by (simp add: is_agenda_def)

lemma counter_hd:
  assumes "is_agenda w ((x, t) # ag)"
  shows "unat (counter w x) = t"
  using is_agendaD(2) [OF assms] by simp

text \<open>Taking time off the first node takes it off every node.\<close>

lemma is_agenda_reduce:
  assumes "is_agenda w ((x, t) # ag)" "n + unat d = t"
  shows "is_agenda (set_counter x d w) (map (\<lambda>e. (fst e, snd e - n)) ((x, t) # ag))"
proof -
  let ?xs = "map fst ag" and ?c = "counter (set_counter x d w)"
  note l = is_agendaD [OF assms(1)]
  have t: "times (counter w) t ?xs = ag" "x \<notin> set ?xs"
    using l(2,3) by auto
  then have "times ?c (unat d) ?xs = times (counter w) (unat d) ?xs"
    by (intro times_cong) auto
  moreover have "times (counter w) (unat d) ?xs = map (\<lambda>e. (fst e, snd e - n)) (times (counter w) t ?xs)"
    using assms(2) by (auto simp: times_shift [of _ t] times_shift [of _ "unat d"] simp del: fst_times)
  ultimately have "times ?c 0 (x # ?xs) = map (\<lambda>e. (fst e, snd e - n)) ((x, t) # ag)"
    using assms(2) t(1) by auto
  moreover have "\<forall>e \<in> set (map (\<lambda>e. (fst e, snd e - n)) ((x, t) # ag)). snd e < 2 ^ LENGTH('a)"
    using assms(1) by (auto simp: is_agenda_def intro: le_less_trans [OF diff_le_self])
  ultimately show ?thesis
    using assms(1) unfolding is_agenda_def list.map(2) list.set(2) image_insert map_map comp_def fst_conv set_map image_image
    by (simp, elim conjE) simp
qed

lemma is_agenda_elapse:
  assumes "is_agenda w ag"
  shows "is_agenda (wakeup_elapse now (WU_plineHeader w) w) (agenda_advance (elapsed now w) ag)"
proof (cases ag)
  case Nil
  then show ?thesis using assms is_agenda_header [OF assms] by (simp add: agenda_advance_def wakeup_elapse_def Let_def)
next
  case (Cons e es)
  obtain x t where e: "e = (x, t)" by (cases e)
  let ?w = "w\<lparr>WU_i64LastTime := now\<rparr>" and ?d = "counter (wakeup_elapse now (WU_plineHeader w) w) x"
  have header: "WU_plineHeader w = Some x"
    using is_agenda_header [OF assms] Cons e by simp
  have t: "unat (counter w x) = t"
    using assms Cons e by (auto intro: counter_hd)
  have "wakeup_elapse now (WU_plineHeader w) w = set_counter x ?d ?w"
    by (simp add: wakeup_elapse_def header Let_def)
  moreover have "min (elapsed now w) t + unat ?d = t"
    by (simp add: header counter_wakeup_elapse t)
  moreover have "is_agenda ?w ((x, t) # es)" using assms Cons e by simp
  ultimately have "is_agenda (wakeup_elapse now (WU_plineHeader w) w)
      (map (\<lambda>e. (fst e, snd e - min (elapsed now w) t)) ((x, t) # es))"
    using is_agenda_reduce [of ?w x t es "min (elapsed now w) t" ?d] by simp
  then show ?thesis by (simp add: agenda_advance_def Cons e)
qed

text \<open>The search and the linking put the node where its time belongs.\<close>

lemma wakeup_insert:
  assumes ag: "is_agenda w ag" and x: "x \<notin> fst ` set ag"
  shows "\<exists>w'. (wakeup_seek x (WU_plineHeader w) tmp w \<bind>
        (\<lambda>(l, t, w). if l = None then wakeup_append x t w else Some (w, False))) = Some (w', ag = []) \<and>
      is_line (wline w') (map fst (agenda_insert x (unat (counter w x)) ag)) \<and>
      times (counter w') 0 (map fst (agenda_insert x (unat (counter w x)) ag)) = agenda_insert x (unat (counter w x)) ag \<and>
      WU_plineOp w' = WU_plineOp w \<and> WU_i64LastTime w' = WU_i64LastTime w \<and> WU_pfuncWakeup w' = WU_pfuncWakeup w \<and>
      WU_woken w' = WU_woken w \<and> (\<forall>q. WUN_bInQ (WU_nodes w' q) = WUN_bInQ (WU_nodes w q))"
proof -
  note l = is_agendaD [OF ag]
  have "is_line (wline w) ([] @ map fst ag)" "x \<notin> set ([] @ map fst ag)" using l x by simp_all
  from wakeup_seek_stops [OF this, of tmp, folded is_agenda_header [OF ag], unfolded append_Nil]
  obtain as bs d where s: "map fst ag = as @ bs" "unat (counter w x) = span (counter w) as + unat d"
    "bs \<noteq> [] \<longrightarrow> d < counter w (hd bs)"
    "wakeup_seek x (WU_plineHeader w) tmp w = Some (seek_result x as bs (if as = [] then tmp else Some (last as)) (set_counter x d w))"
    by (elim exE conjE) (rule that)
  let ?w1 = "set_counter x d w"
  let ?l = "if as = [] then on_line (List_Line_Add_Ahead x) ?w1
    else case bs of [] \<Rightarrow> ?w1\<lparr>WU_lines := List_Line_Add_Right x (last as) (WU_lines w)\<rparr>
      | y # _ \<Rightarrow> ?w1\<lparr>WU_lines := List_Line_Add_Left x y (WU_lines w)\<rparr>"
  let ?w' = "case bs of [] \<Rightarrow> ?l | y # _ \<Rightarrow> set_counter y (counter w y - d) ?l"
  have x': "x \<notin> set (as @ bs)" using x s(1) by (metis list.set_map)
  have "is_line (wline w) (as @ bs)" using l(1) s(1) by simp
  from line.insert_anywhere [OF this x'] have line: "is_line (wline ?w') (as @ x # bs)"
    by (cases bs) (auto split: if_splits)
  have "times (counter ?w') 0 (as @ x # bs) = agenda_insert x (unat (counter w x)) (times (counter w) 0 (as @ bs))"
  proof (rule times_insert [where y = "hd bs" and ys = "tl bs"])
    show "unat (counter ?w' x) + span (counter w) as = unat (counter w x)"
      using s(2) x' by (auto split: list.split)
    show "unat (counter ?w' x) + unat (counter ?w' (hd bs)) = unat (counter w (hd bs)) \<and> 0 < unat (counter ?w' (hd bs))"
      if "bs = hd bs # tl bs"
    proof -
      from that obtain y ys where "bs = y # ys" by blast
      then show ?thesis
        using s(3) x' by (auto simp: unat_sub word_less_nat_alt word_le_nat_alt)
    qed
  qed (use l(3) s(1) x' in \<open>auto split: list.split\<close>)
  then have times: "times (counter ?w') 0 (as @ x # bs) = agenda_insert x (unat (counter w x)) ag"
    using l(2) s(1) by simp
  then have fst: "map fst (agenda_insert x (unat (counter w x)) ag) = as @ x # bs"
    by (simp only: times [symmetric] fst_times)
  have "as = [] \<longleftrightarrow> WU_plineHeader w = None" if "bs = []"
    using is_agenda_header [OF ag] s(1) that by (cases as) auto
  moreover have "x \<notin> set bs" using x' by simp
  ultimately have "(wakeup_seek x (WU_plineHeader w) tmp w \<bind>
        (\<lambda>(l, t, w). if l = None then wakeup_append x t w else Some (w, False))) = Some (?w', ag = [])"
    using s(1) by (cases bs) (auto simp: s(4) seek_result_def wakeup_append_def)
  moreover have "WU_plineOp ?w' = WU_plineOp w" "WU_i64LastTime ?w' = WU_i64LastTime w" "WU_pfuncWakeup ?w' = WU_pfuncWakeup w"
    "WU_woken ?w' = WU_woken w" "\<forall>q. WUN_bInQ (WU_nodes ?w' q) = WUN_bInQ (WU_nodes w q)"
    by (simp_all split: list.split)
  ultimately show ?thesis using line times fst by (intro exI [of _ ?w']) simp
qed

lemma WakeupAdd_agenda:
  assumes "is_agenda w ag" "x \<notin> fst ` set ag"
  shows "\<exists>w'. WakeupAdd x bProcTime now w = Some w' \<and>
    is_agenda w' (agenda_insert x (unat (counter w x))
      (if bProcTime \<and> WU_pfuncWakeup w then agenda_advance (elapsed now w) ag else ag)) \<and>
    WU_i64LastTime w' = (if bProcTime \<and> WU_pfuncWakeup w then now else WU_i64LastTime w) \<and>
    WU_woken w' = (if bProcTime \<and> WU_pfuncWakeup w then Suc (WU_woken w) else WU_woken w) \<and>
    WU_plineOp w' = WU_plineOp w \<and> WU_pfuncWakeup w' = WU_pfuncWakeup w"
proof -
  let ?proc = "bProcTime \<and> WU_pfuncWakeup w" and ?pre = "bProcTime \<and> WU_plineHeader w \<noteq> None \<and> WU_pfuncWakeup w"
  let ?w = "if ?pre then wakeup_elapse now (WU_plineHeader w) w else w"
  let ?ag = "if ?proc then agenda_advance (elapsed now w) ag else ag"
  have empty: "WU_plineHeader w = None \<longleftrightarrow> ag = []"
    using is_agenda_header [OF assms(1)] by (cases ag) auto
  have "is_agenda ?w ?ag"
    using assms(1) is_agenda_elapse [OF assms(1)] empty by (auto simp: agenda_advance_def)
  moreover have "x \<notin> fst ` set ?ag"
    using assms(2) by simp
  ultimately obtain w' where w': "(wakeup_seek x (WU_plineHeader ?w) (if ?pre then WU_plineHeader ?w else None) ?w \<bind>
        (\<lambda>(l, t, w). if l = None then wakeup_append x t w else Some (w, False))) = Some (w', ?ag = [])"
      "is_line (wline w') (map fst (agenda_insert x (unat (counter ?w x)) ?ag))"
      "times (counter w') 0 (map fst (agenda_insert x (unat (counter ?w x)) ?ag)) = agenda_insert x (unat (counter ?w x)) ?ag"
      "WU_plineOp w' = WU_plineOp ?w" "WU_i64LastTime w' = WU_i64LastTime ?w" "WU_pfuncWakeup w' = WU_pfuncWakeup ?w"
      "WU_woken w' = WU_woken ?w" "\<forall>q. WUN_bInQ (WU_nodes w' q) = WUN_bInQ (WU_nodes ?w q)"
    by - (drule (1) wakeup_insert, elim exE conjE, rule that)
  have "WU_plineHeader w \<noteq> Some x"
    using assms(2) is_agenda_header [OF assms(1)] by (cases ag) auto
  then have x: "counter ?w x = counter w x"
    by (simp add: counter_wakeup_elapse_other)
  let ?r = "set_inq x True w'"
  let ?r' = "if ?proc then (let w = (if ag = [] then ?r\<lparr>WU_i64LastTime := now\<rparr> else ?r) in w\<lparr>WU_woken := Suc (WU_woken w)\<rparr>) else ?r"
  have "WakeupAdd x bProcTime now w = (wakeup_seek x (WU_plineHeader ?w) (if ?pre then WU_plineHeader ?w else None) ?w \<bind>
        (\<lambda>(l, t, w). if l = None then wakeup_append x t w else Some (w, False))) \<bind> (\<lambda>(w, bSaveTime).
       let w = set_inq x True w in Some (if bProcTime \<and> WU_pfuncWakeup w
             then let w = (if bSaveTime then w\<lparr>WU_i64LastTime := now\<rparr> else w) in w\<lparr>WU_woken := Suc (WU_woken w)\<rparr>
             else w))"
    unfolding WakeupAdd_def Let_def by (simp only: Option.bind_assoc case_prod_unfold)
  then have "WakeupAdd x bProcTime now w = Some ?r'"
    using w'(6) unfolding w'(1) by (auto simp: agenda_advance_def Let_def)
  moreover have "is_agenda ?r' (agenda_insert x (unat (counter w x)) ?ag)"
  proof -
    have "\<forall>e \<in> set ?ag. snd e < 2 ^ LENGTH('a)" "\<forall>q. WUN_bInQ (WU_nodes ?w q) \<longleftrightarrow> q \<in> fst ` set ?ag"
      using \<open>is_agenda ?w ?ag\<close> unfolding is_agenda_def by blast+
    then have "is_agenda ?r (agenda_insert x (unat (counter w x)) ?ag)"
      unfolding is_agenda_def using w'(2,3,8) unfolding x by simp
    then show ?thesis by (cases ?proc) (auto simp: Let_def)
  qed
  moreover have "WU_i64LastTime ?r' = (if ?proc then now else WU_i64LastTime w)"
    using w'(5) empty by (auto simp: Let_def)
  ultimately show ?thesis
    using w'(4,6,7) by (intro exI [of _ ?r']) (simp add: Let_def)
qed

section \<open>Deleting a node\<close>

lemma agenda_remove_split:
  assumes "distinct (map fst (as @ (x, t) # bs))"
  shows "agenda_remove x (as @ (x, t) # bs) = as @ bs"
proof -
  have "\<forall>e \<in> set (as @ bs). fst e \<noteq> x"
    using assms by force
  then show ?thesis by (simp add: agenda_remove_def)
qed

lemma fst_set_agenda_remove [simp]: "fst ` set (agenda_remove x ag) = fst ` set ag - {x}"
  by (auto simp: agenda_remove_def)

lemma set_counter_inq: "set_counter p c (set_inq q b w) = set_inq q b (set_counter p c w)"
  by (cases "p = q"; cases "WU_nodes w p") (simp_all add: set_counter_def set_inq_def fun_upd_twist)

lemma wakeup_elapse_commutes:
  "wakeup_elapse now f (on_line g w) = on_line g (wakeup_elapse now f w)"
  "wakeup_elapse now f (set_inq p b w) = set_inq p b (wakeup_elapse now f w)"
proof -
  show "wakeup_elapse now f (on_line g w) = on_line g (wakeup_elapse now f w)"
    by (simp add: wakeup_elapse_def on_line_def set_counter_def counter_def Let_def split: option.split)
  have "(set_inq p b w)\<lparr>WU_i64LastTime := now\<rparr> = set_inq p b (w\<lparr>WU_i64LastTime := now\<rparr>)"
    by (simp add: set_inq_def)
  then show "wakeup_elapse now f (set_inq p b w) = set_inq p b (wakeup_elapse now f w)"
    by (simp add: wakeup_elapse_def Let_def set_counter_inq split: option.split)
qed

lemma elapsed_cong: "WU_i64LastTime (w :: 'w wakeup) = WU_i64LastTime v \<Longrightarrow> elapsed now w = elapsed now (v :: 'w::len wakeup)"
  by (simp add: elapsed_def)

text \<open>The node behind the deleted one takes over its count, which does not wrap.\<close>

definition wakeup_unlink :: "addr \<Rightarrow> 'w::len wakeup \<Rightarrow> 'w wakeup" where
  "wakeup_unlink x w = set_inq x False (on_line (List_Line_Del x)
    (case list_line_get_next x (WU_lines w) of None \<Rightarrow> w | Some r \<Rightarrow> set_counter r (counter w r + counter w x) w))"

lemma wakeup_unlink_agenda:
  fixes w :: "'w::len wakeup"
  assumes "is_agenda w ag" "x \<in> fst ` set ag"
  shows "is_agenda (wakeup_unlink x w) (agenda_remove x ag)"
proof -
  note l = is_agendaD [OF assms(1)]
  obtain as bs where xs: "map fst ag = as @ x # bs"
    using assms(2) by (metis list.set_map split_list)
  let ?c = "counter w" and ?w = "wakeup_unlink x w"
  have ag: "ag = times ?c 0 as @ (x, span ?c as + unat (?c x)) # times ?c (span ?c as + unat (?c x)) bs"
    using l(2) by (simp add: xs times_append)
  have rem: "agenda_remove x ag = times ?c 0 as @ times ?c (span ?c as + unat (?c x)) bs"
    using l(3) by (subst ag, subst agenda_remove_split) (simp_all flip: ag)
  have right: "list_line_get_next x (WU_lines w) = (case bs of [] \<Rightarrow> None | r # _ \<Rightarrow> Some r)"
    using line.repr_succ [of "wline w" as x bs] l(1) xs by simp
  have line: "is_line (wline ?w) (as @ bs)"
    using line.repr_del [of "wline w" as x bs] l(1) xs
    by (cases bs) (simp_all add: wakeup_unlink_def right)
  have "times (counter ?w) 0 (as @ bs) = agenda_remove x ag"
  proof (cases bs)
    case Nil
    then show ?thesis by (simp add: rem wakeup_unlink_def right)
  next
    case (Cons r ys)
    have d: "distinct (as @ x # r # ys)" using l(3) xs Cons by simp
    have "snd (r, span ?c as + unat (?c x) + unat (?c r)) < 2 ^ LENGTH('w)"
      using assms(1) Cons unfolding is_agenda_def by (subst (asm) (2) ag) auto
    then have "unat (?c r + ?c x) = unat (?c r) + unat (?c x)"
      by (intro iffD1 [OF unat_add_lem]) simp
    moreover have "times (counter ?w) b as = times ?c b as" "times (counter ?w) b ys = times ?c b ys"
      "span (counter ?w) as = span ?c as" for b
      using d by (auto simp: wakeup_unlink_def right Cons intro!: times_cong arg_cong [of _ _ sum_list])
    ultimately show ?thesis
      by (simp add: rem Cons times_append) (simp add: wakeup_unlink_def right Cons add_ac)
  qed
  moreover from this have "map fst (agenda_remove x ag) = as @ bs"
    by (simp only: fst_times flip: \<open>times (counter ?w) 0 (as @ bs) = agenda_remove x ag\<close>)
  moreover have "WUN_bInQ (WU_nodes ?w q) \<longleftrightarrow> q \<in> fst ` set (agenda_remove x ag)" for q
    using assms(1) unfolding is_agenda_def by (simp add: wakeup_unlink_def split: option.split)
  ultimately show ?thesis
    using assms(1) line by (simp add: is_agenda_def) (simp add: agenda_remove_def)
qed

lemma wakeup_unlink_fields [simp]:
  "WU_plineOp (wakeup_unlink x w) = WU_plineOp w" "WU_i64LastTime (wakeup_unlink x w) = WU_i64LastTime w"
  "WU_pfuncWakeup (wakeup_unlink x w) = WU_pfuncWakeup w" "WU_woken (wakeup_unlink x w) = WU_woken w"
  by (simp_all add: wakeup_unlink_def split: option.split)

lemma WakeupDel_unlink:
  "WakeupDel x bProcTime now w =
    (let w0 = (if WU_plineOp w = Some x then w\<lparr>WU_plineOp := list_line_get_next x (WU_lines w)\<rparr> else w)
     in if bProcTime \<and> list_line_get_prev x (WU_lines w) = None \<and> WU_pfuncWakeup w
        then wakeup_elapse now (list_line_get_next x (WU_lines w)) (wakeup_unlink x w0) else wakeup_unlink x w0)"
  by (auto simp: WakeupDel_def wakeup_unlink_def Let_def wakeup_elapse_commutes split: option.split)

definition agenda_next :: "addr \<Rightarrow> agenda \<Rightarrow> addr option" where
  "agenda_next x ag = (case tl (dropWhile (\<lambda>e. fst e \<noteq> x) ag) of [] \<Rightarrow> None | e # _ \<Rightarrow> Some (fst e))"

lemma agenda_neighbours:
  assumes "is_agenda w ag" "x \<in> fst ` set ag"
  shows "list_line_get_next x (WU_lines w) = agenda_next x ag"
    and "list_line_get_prev x (WU_lines w) = None \<longleftrightarrow> fst (hd ag) = x"
proof -
  note l = is_agendaD [OF assms(1)]
  obtain t where "(x, t) \<in> set ag" using assms(2) by auto
  then obtain as bs where ag: "ag = as @ (x, t) # bs" by (meson split_list)
  then have d: "\<forall>e \<in> set as. fst e \<noteq> x" using l(3) by force
  have line: "is_line (wline w) (map fst as @ x # map fst bs)" using l(1) ag by simp
  have "dropWhile (\<lambda>e. fst e \<noteq> x) ag = (x, t) # bs"
    unfolding ag by (subst dropWhile_append2) (use d in auto)
  then show "list_line_get_next x (WU_lines w) = agenda_next x ag"
    using line.repr_succ [OF line] by (simp add: agenda_next_def split: list.split)
  show "list_line_get_prev x (WU_lines w) = None \<longleftrightarrow> fst (hd ag) = x"
    using line_neighbours(2) [OF line] d by (cases as) (auto simp: ag list_line_get_prev_def)
qed

lemma WakeupDel_agenda:
  assumes "is_agenda w ag" "x \<in> fst ` set ag"
  shows "is_agenda (WakeupDel x bProcTime now w)
      (if bProcTime \<and> WU_pfuncWakeup w \<and> fst (hd ag) = x then agenda_advance (elapsed now w) (agenda_remove x ag) else agenda_remove x ag)"
    and "WU_plineOp (WakeupDel x bProcTime now w) = (if WU_plineOp w = Some x then agenda_next x ag else WU_plineOp w)"
    and "WU_pfuncWakeup (WakeupDel x bProcTime now w) = WU_pfuncWakeup w" "WU_woken (WakeupDel x bProcTime now w) = WU_woken w"
    and "WU_i64LastTime (WakeupDel x bProcTime now w) =
      (if bProcTime \<and> WU_pfuncWakeup w \<and> fst (hd ag) = x then now else WU_i64LastTime w)"
proof -
  note n = agenda_neighbours [OF assms]
  define w0 where "w0 = (if WU_plineOp w = Some x then w\<lparr>WU_plineOp := list_line_get_next x (WU_lines w)\<rparr> else w)"
  define u where "u = wakeup_unlink x w0"
  let ?u = u and ?c = "bProcTime \<and> WU_pfuncWakeup w \<and> fst (hd ag) = x"
  have "is_agenda w0 ag" using assms(1) by (simp add: w0_def)
  from wakeup_unlink_agenda [OF this assms(2)] have u: "is_agenda ?u (agenda_remove x ag)" by (simp only: u_def)
  have D: "WakeupDel x bProcTime now w = (if ?c then wakeup_elapse now (agenda_next x ag) ?u else ?u)"
    unfolding WakeupDel_unlink Let_def n u_def w0_def by auto
  have "WU_plineHeader ?u = agenda_next x ag" if "fst (hd ag) = x"
  proof -
    from assms(2) that obtain t es where ag: "ag = (x, t) # es" by (cases ag) auto
    then have "agenda_remove x ag = es"
      using is_agendaD(3) [OF assms(1)] agenda_remove_split [of "[]" x t es] by simp
    then show ?thesis
      using is_agenda_header [OF u] by (simp add: ag agenda_next_def split: list.split)
  qed
  moreover have "elapsed now ?u = elapsed now w" by (rule elapsed_cong) (simp add: u_def w0_def)
  ultimately show "is_agenda (WakeupDel x bProcTime now w) (if ?c then agenda_advance (elapsed now w) (agenda_remove x ag) else agenda_remove x ag)"
    unfolding D using u is_agenda_elapse [OF u, of now] by auto
qed (simp_all add: WakeupDel_unlink Let_def agenda_neighbours [OF assms])

section \<open>The time left\<close>

lemma wakeup_total_found:
  assumes "is_line (wline w) (as @ bs)" "(x, t) \<in> set (times (counter w) b bs)"
  shows "wakeup_total x (case bs of [] \<Rightarrow> None | y # _ \<Rightarrow> Some y) (word_of_nat b) w = Some (Some (word_of_nat t))"
  using assms
proof (induction bs arbitrary: as b)
  case (Cons y bs)
  have succ: "list_line_get_next y (WU_lines w) = (case bs of [] \<Rightarrow> None | y # _ \<Rightarrow> Some y)"
    using line.repr_succ [OF Cons.prems(1)] by simp
  show ?case
  proof (cases "x = y")
    case True
    then have "x \<notin> set bs" using line.repr_distinct [OF Cons.prems(1)] by simp
    then have "(x, t) \<notin> set (times (counter w) (b + unat (counter w y)) bs)"
      by (metis fst_conv fst_set_times imageI)
    then show ?thesis using Cons.prems(2) True by (simp add: wakeup_total.simps)
  next
    case False
    then show ?thesis
      using Cons.IH [of "as @ [y]" "b + unat (counter w y)"] Cons.prems succ
      by (simp add: wakeup_total.simps [of x "Some y"] split: list.split)
  qed
qed simp

lemma wakeup_total_absent:
  "is_line (wline w) (as @ bs) \<Longrightarrow> x \<notin> set bs \<Longrightarrow>
    wakeup_total x (case bs of [] \<Rightarrow> None | y # _ \<Rightarrow> Some y) c w = Some None"
proof (induction bs arbitrary: as c)
  case (Cons y bs)
  have "list_line_get_next y (WU_lines w) = (case bs of [] \<Rightarrow> None | y # _ \<Rightarrow> Some y)"
    using line.repr_succ [OF Cons.prems(1)] by simp
  then show ?case
    using Cons.IH [of "as @ [y]"] Cons.prems by (simp add: wakeup_total.simps [of x "Some y"])
qed (simp add: wakeup_total.simps)

lemma WakeupStatus_agenda:
  fixes w :: "'w::len wakeup"
  assumes "is_agenda w ag"
  shows "WakeupStatus x now w = Some (word_of_nat (case map_of ag x of None \<Rightarrow> 0
    | Some t \<Rightarrow> if WU_i64LastTime w \<noteq> 0 then t - elapsed now w else t))"
proof -
  note l = is_agendaD [OF assms]
  show ?thesis
  proof (cases "map_of ag x")
    case None
    then have "x \<notin> set (map fst ag)" by (simp add: map_of_eq_None_iff)
    then show ?thesis
      using wakeup_total_absent [of w "[]" "map fst ag" x 0] l(1) is_agenda_header [OF assms] None
      by (simp add: WakeupStatus_def)
  next
    case (Some t)
    then have "(x, t) \<in> set ag" by (rule map_of_SomeD)
    then have t: "(x, t) \<in> set (times (counter w) 0 (map fst ag))" "t < 2 ^ LENGTH('w)"
      using l(2) assms by (auto simp: is_agenda_def)
    from wakeup_total_found [OF _ t(1), of "[]"] have "wakeup_total x (WU_plineHeader w) 0 w = Some (Some (word_of_nat t))"
      using l(1) is_agenda_header [OF assms] by simp
    moreover have "unat (word_of_nat t :: 'w word) = t" using t(2) by (simp add: unat_of_nat)
    ultimately show ?thesis
      by (auto simp: WakeupStatus_def Some elapsed_def word_less_nat_alt of_nat_diff Let_def)
  qed
qed

section \<open>Nodes that are not queued\<close>

lemma is_line_cong:
  assumes "is_line (h, f) xs" "\<And>y. y \<in> set xs \<Longrightarrow> plistNext (h' y) = plistNext (h y) \<and> plistPrev (h' y) = plistPrev (h y)"
  shows "is_line (h', f) xs"
  using assms seg_cong [of xs h' h] by (auto simp: is_line_def)

lemma is_agenda_set_counter:
  assumes "is_agenda w ag" "x \<notin> fst ` set ag"
  shows "is_agenda (set_counter x c w) ag"
proof -
  have "times (counter (set_counter x c w)) 0 (map fst ag) = times (counter w) 0 (map fst ag)"
    using assms(2) by (intro times_cong) auto
  then show ?thesis using assms(1) by (simp add: is_agenda_def)
qed

lemma is_agenda_node_init:
  assumes "is_agenda w ag" "x \<notin> fst ` set ag"
  shows "is_agenda (WAKEUP_NODE_INIT x w) ag"
proof -
  have "times (counter (WAKEUP_NODE_INIT x w)) 0 (map fst ag) = times (counter w) 0 (map fst ag)"
    using assms(2) by (intro times_cong) (auto simp: WAKEUP_NODE_INIT_def counter_def)
  moreover have "is_line (wline (WAKEUP_NODE_INIT x w)) (map fst ag)"
    using assms(2) by (simp add: WAKEUP_NODE_INIT_def) (rule is_line_cong [OF is_agendaD(1) [OF assms(1)]], auto)
  ultimately show ?thesis
    using assms by (auto simp: is_agenda_def WAKEUP_NODE_INIT_def)
qed

lemma seg_unique: "seg h p f xs l None \<Longrightarrow> seg h p f ys m None \<Longrightarrow> xs = ys"
proof (induction xs arbitrary: p f ys)
  case Nil
  then show ?case by (cases ys) auto
next
  case (Cons x xs)
  obtain zs where ys: "ys = x # zs" using Cons.prems by (cases ys) auto
  have "xs = zs" by (rule Cons.IH [of "Some x" "plistNext (h x)"]) (use Cons.prems ys in simp_all)
  then show ?case by (simp add: ys)
qed

text \<open>A queue has one agenda.\<close>

lemma is_agenda_unique:
  assumes "is_agenda w ag" "is_agenda w ag'"
  shows "ag = ag'"
proof -
  from is_agendaD(1) [OF assms(1)] is_agendaD(1) [OF assms(2)]
  obtain l m where "seg (WU_lines w) None (WU_plineHeader w) (map fst ag) l None"
    "seg (WU_lines w) None (WU_plineHeader w) (map fst ag') m None"
    unfolding is_line_def by auto
  then have eq: "map fst ag = map fst ag'" by (rule seg_unique)
  have "ag = times (counter w) 0 (map fst ag)" by (rule is_agendaD(2) [OF assms(1), symmetric])
  also have "\<dots> = ag'" unfolding eq by (rule is_agendaD(2) [OF assms(2)])
  finally show ?thesis .
qed

lemma is_agenda_inq: "is_agenda w ag \<Longrightarrow> WUN_bInQ (WU_nodes w x) \<longleftrightarrow> x \<in> fst ` set ag"
  by (simp add: is_agenda_def)

lemma agenda_remove_id: "x \<notin> fst ` set ag \<Longrightarrow> agenda_remove x ag = ag"
  by (force simp: agenda_remove_def filter_id_conv)

section \<open>Ticks\<close>

lemma times_sorted: "sorted (map snd (times c b xs))"
proof (induction xs arbitrary: b)
  case (Cons x xs)
  then show ?case by (auto dest: times_bounds)
qed simp

lemma is_agenda_sorted: "is_agenda w ag \<Longrightarrow> sorted (map snd ag)"
  using times_sorted [of "counter w" 0 "map fst ag"] is_agendaD(2) [of w ag] by simp

lemma sorted_split:
  "sorted (map snd ag) \<Longrightarrow> filter (\<lambda>e. snd e \<le> n) ag @ filter (\<lambda>e. n < snd e) ag = (ag :: agenda)"
proof (induction ag)
  case (Cons e ag)
  have "filter (\<lambda>e. snd e \<le> n) ag = []" if "n < snd e"
    using Cons.prems that by (auto simp: filter_empty_conv)
  with Cons show ?case by (cases "snd e \<le> n") auto
qed simp

lemma filter_due:
  assumes "sorted (map snd (ag :: agenda))"
  shows "filter (\<lambda>e. snd e \<le> 1) ag = filter (\<lambda>e. snd e \<le> 0) ag @ filter (\<lambda>e. snd e \<le> 1) (filter (\<lambda>e. 0 < snd e) ag)"
    and "filter (\<lambda>e. 1 < snd e) (filter (\<lambda>e. 0 < snd e) ag) = filter (\<lambda>e. 1 < snd e) ag"
proof -
  have "filter (\<lambda>e. snd e \<le> 1) (filter (\<lambda>e. snd e \<le> 0) ag) = filter (\<lambda>e. snd e \<le> 0) ag"
    by (induction ag) auto
  then show "filter (\<lambda>e. snd e \<le> 1) ag = filter (\<lambda>e. snd e \<le> 0) ag @ filter (\<lambda>e. snd e \<le> 1) (filter (\<lambda>e. 0 < snd e) ag)"
    using arg_cong [OF sorted_split [OF assms, of 0], of "filter (\<lambda>e. snd e \<le> 1)"] by (simp only: filter_append)
  show "filter (\<lambda>e. 1 < snd e) (filter (\<lambda>e. 0 < snd e) ag) = filter (\<lambda>e. 1 < snd e) ag"
    by (induction ag) auto
qed

lemma counter_second:
  assumes "is_agenda w (e # (y, t) # ag)"
  shows "unat (counter w y) = t - snd e"
  using is_agendaD(2) [OF assms] by (cases e) auto

lemma set_op_simps [simp]:
  "WU_plineOp (set_op p w) = p" "WU_lines (set_op p w) = WU_lines w" "counter (set_op p w) = counter w"
  "is_agenda (set_op p w) ag = is_agenda w ag" "WU_nodes (set_op p w) = WU_nodes w" "WU_plineHeader (set_op p w) = WU_plineHeader w"
  "WU_pfuncWakeup (set_op p w) = WU_pfuncWakeup w"
  by (simp_all add: set_op_def)

text \<open>What becomes of a queue when the node of an entry is handled: it is put back when it has a period.\<close>

definition restart :: "(addr \<Rightarrow> nat option) \<Rightarrow> agenda \<Rightarrow> addr \<Rightarrow> agenda" where
  "restart period ag p = (case period p of None \<Rightarrow> ag | Some n \<Rightarrow> agenda_insert p n ag)"

definition tick_agenda :: "(addr \<Rightarrow> nat option) \<Rightarrow> agenda \<Rightarrow> agenda" where
  "tick_agenda period ag =
    foldl (restart period) (map (\<lambda>e. (fst e, snd e - 1)) (filter (\<lambda>e. 1 < snd e) ag)) (map fst (filter (\<lambda>e. snd e \<le> 1) ag))"

lemma restart_later:
  assumes "\<forall>e \<in> set zs. snd e = 0" "\<And>n. P z = Some n \<Longrightarrow> 0 < n"
  shows "restart P (zs @ L) z = zs @ restart P L z"
  using assms by (auto simp: restart_def agenda_insert_later split: option.split)

lemma restart_pos:
  "\<forall>e \<in> set L. 0 < snd e \<Longrightarrow> (\<And>n. P z = Some n \<Longrightarrow> 0 < n) \<Longrightarrow> \<forall>e \<in> set (restart P L z). 0 < snd e"
  by (auto simp: restart_def split: option.split)

lemma tick_agenda_pos:
  assumes "\<And>p n. P p = Some n \<Longrightarrow> 0 < n" "e \<in> set (tick_agenda P ag)"
  shows "0 < snd e"
proof -
  have "\<forall>e \<in> set (foldl (restart P) L xs). 0 < snd e" if "\<forall>e \<in> set L. 0 < snd e" for L xs
    using that
  proof (induction xs arbitrary: L)
    case (Cons x xs)
    have "\<forall>e \<in> set (restart P L x). 0 < snd e" by (rule restart_pos [OF Cons.prems assms(1)])
    from Cons.IH [OF this] show ?case by simp
  qed simp
  moreover have "\<forall>e \<in> set (map (\<lambda>e. (fst e, snd e - 1 :: nat)) (filter (\<lambda>e. 1 < snd e) ag)). 0 < snd e"
    by auto
  ultimately show ?thesis using assms(2) unfolding tick_agenda_def by blast
qed

lemma counter_after_restart:
  assumes "is_agenda w (restart P ((c, t) # L) z)" "0 < t"
  shows "0 < counter w c"
proof -
  have "0 < unat (counter w c)"
    using assms counter_hd [of w c t] counter_second [of w _ c t]
    by (auto simp: restart_def split: option.splits if_splits)
  then show ?thesis by (simp add: word_less_nat_alt)
qed

text \<open>
  The contract of the statements between the macros: they take the node off the queue, put
  it back when it has a period, report it, and keep the rest of the state.
\<close>

locale tick_client =
  fixes get :: "'k \<Rightarrow> 'w::len wakeup" and upd :: "('w wakeup \<Rightarrow> 'w wakeup) \<Rightarrow> 'k \<Rightarrow> 'k"
    and body :: "addr \<Rightarrow> 'k \<Rightarrow> 'k option" and period :: "'k \<Rightarrow> addr \<Rightarrow> nat option" and fired :: "'k \<Rightarrow> addr list" and inv :: "'k \<Rightarrow> bool"
  assumes get_upd: "get (upd f k) = f (get k)"
    and frame_upd: "period (upd f k) = period k" "fired (upd f k) = fired k"
    and inv_upd: "inv k \<Longrightarrow> \<forall>q. WUN_bInQ (WU_nodes (f (get k)) q) = WUN_bInQ (WU_nodes (get k) q) \<Longrightarrow>
        WU_pfuncWakeup (f (get k)) = WU_pfuncWakeup (get k) \<Longrightarrow> inv (upd f k)"
    and period_pos: "inv k \<Longrightarrow> period k p = Some n \<Longrightarrow> 0 < n"
    and body_step: "inv k \<Longrightarrow> is_agenda (get k) ((p, 0) # ag) \<Longrightarrow> WU_plineOp (get k) \<noteq> Some p \<Longrightarrow>
        \<exists>k'. body p k = Some k' \<and> inv k' \<and> is_agenda (get k') (restart (period k) ag p) \<and>
          WU_plineOp (get k') = WU_plineOp (get k) \<and> period k' = period k \<and> fired k' = fired k @ [p]"
begin

text \<open>One round of the scan on a first node that is due.\<close>

lemma pass_due:
  assumes "inv k" "is_agenda (get k) ((p, t) # ag)" "WU_plineOp (get k) = Some p" "unat u \<ge> t"
  shows "\<exists>k'. wakeup_pass get upd body u k = wakeup_pass get upd body (u - word_of_nat t) k' \<and> inv k' \<and>
    is_agenda (get k') (restart (period k) (map (\<lambda>e. (fst e, snd e - t)) ag) p) \<and>
    WU_plineOp (get k') = (case ag of [] \<Rightarrow> None | e # _ \<Rightarrow> Some (fst e)) \<and> period k' = period k \<and> fired k' = fired k @ [p]"
proof -
  let ?next = "case ag of [] \<Rightarrow> None | e # _ \<Rightarrow> Some (fst e)"
  have "list_line_get_next p (WU_lines (get k)) = ?next"
    using agenda_neighbours(1) [OF assms(2), of p] by (simp add: agenda_next_def)
  moreover have t: "unat (counter (get k) p) = t" "counter (get k) p = word_of_nat t"
    using counter_hd [OF assms(2)] by auto
  moreover have "\<not> u < counter (get k) p" using assms(4) t by (simp add: word_less_nat_alt)
  moreover define k0 where "k0 = upd (set_counter p 0) (upd (set_op ?next) k)"
  ultimately have step: "wakeup_pass get upd body u k = body p k0 \<bind> wakeup_pass get upd body (u - word_of_nat t)"
    using assms(3) by (simp add: wakeup_pass.simps [of get upd body u k] get_upd Let_def)
  have k0: "get k0 = set_counter p 0 (set_op ?next (get k))" "period k0 = period k" "fired k0 = fired k"
    by (simp_all add: k0_def get_upd frame_upd)
  have "inv k0"
    unfolding k0_def using assms(1) by (intro inv_upd) (simp_all add: get_upd)
  moreover have "is_agenda (get k0) ((p, 0) # map (\<lambda>e. (fst e, snd e - t)) ag)"
    using is_agenda_reduce [of "set_op ?next (get k)" p t ag t 0] assms(2) by (simp add: k0)
  moreover have "WU_plineOp (get k0) \<noteq> Some p"
    using is_agendaD(3) [OF assms(2)] by (cases ag) (auto simp: k0)
  ultimately have "\<exists>k'. body p k0 = Some k' \<and> inv k' \<and> is_agenda (get k') (restart (period k0) (map (\<lambda>e. (fst e, snd e - t)) ag) p) \<and>
      WU_plineOp (get k') = WU_plineOp (get k0) \<and> period k' = period k0 \<and> fired k' = fired k0 @ [p]"
    by (rule body_step)
  then obtain k' where "body p k0 = Some k'" "inv k'" "is_agenda (get k') (restart (period k0) (map (\<lambda>e. (fst e, snd e - t)) ag) p)"
    "WU_plineOp (get k') = WU_plineOp (get k0)" "period k' = period k0" "fired k' = fired k0 @ [p]"
    by (elim exE conjE) (rule that)
  then show ?thesis
    by (intro exI [of _ k']) (simp add: step k0 restart_def)
qed

lemma pass_stops:
  assumes "\<And>c. WU_plineOp (get k) = Some c \<Longrightarrow> 0 < counter (get k) c" "is_agenda (get k) ag" "inv k"
  shows "\<exists>k'. wakeup_pass get upd body 0 k = Some k' \<and> is_agenda (get k') ag \<and> inv k' \<and> period k' = period k \<and> fired k' = fired k"
proof (cases "WU_plineOp (get k)")
  case None
  then show ?thesis using assms by (simp add: wakeup_pass.simps)
next
  case (Some c)
  let ?n = "set_op (list_line_get_next c (WU_lines (get k)))"
  let ?k = "upd (set_counter c (counter (get k) c)) (upd ?n k)"
  have "0 < counter (get k) c" using assms(1) Some by simp
  then have "wakeup_pass get upd body 0 k = Some ?k"
    using Some by (simp add: wakeup_pass.simps get_upd Let_def)
  moreover have "get ?k = ?n (get k)"
    using set_counter_id [of c "?n (get k)"] by (simp add: get_upd)
  moreover have "inv ?k" using assms(3) by (intro inv_upd) (simp_all add: get_upd)
  ultimately show ?thesis using assms(2) by (intro exI [of _ ?k]) (simp add: frame_upd)
qed

lemma pass_zero:
  assumes "inv k" "is_agenda (get k) (zs @ L)" "\<forall>e \<in> set zs. snd e = 0" "\<forall>e \<in> set L. 0 < snd e"
    "zs \<noteq> [] \<Longrightarrow> WU_plineOp (get k) = Some (fst (hd zs))"
    "zs = [] \<Longrightarrow> \<forall>c. WU_plineOp (get k) = Some c \<longrightarrow> 0 < counter (get k) c"
  shows "\<exists>k'. wakeup_pass get upd body 0 k = Some k' \<and> is_agenda (get k') (foldl (restart (period k)) L (map fst zs)) \<and>
    inv k' \<and> period k' = period k \<and> fired k' = fired k @ map fst zs"
  using assms
proof (induction zs arbitrary: k L)
  case Nil
  then show ?case using pass_stops [of k L] by auto
next
  case (Cons z zs)
  obtain p where z: "z = (p, 0)" using Cons.prems(3) by (cases z) auto
  let ?P = "period k" and ?L = "restart (period k) L p"
  have pos: "0 < n" if "?P p = Some n" for n
    using period_pos [OF Cons.prems(1) that] .
  obtain k' where k': "wakeup_pass get upd body 0 k = wakeup_pass get upd body 0 k'" "inv k'"
    "is_agenda (get k') (restart ?P (zs @ L) p)"
    "WU_plineOp (get k') = (case zs @ L of [] \<Rightarrow> None | e # _ \<Rightarrow> Some (fst e))" "period k' = ?P" "fired k' = fired k @ [p]"
    using pass_due [of k p 0 "zs @ L" 0] Cons.prems(1,2,5) by (auto simp: z)
  have "restart ?P (zs @ L) p = zs @ ?L"
    using Cons.prems(3) by (intro restart_later) (auto intro: pos)
  with k'(3) have ag: "is_agenda (get k') (zs @ ?L)" by (simp only:)
  have "\<exists>k''. wakeup_pass get upd body 0 k' = Some k'' \<and> is_agenda (get k'') (foldl (restart (period k')) ?L (map fst zs)) \<and>
    inv k'' \<and> period k'' = period k' \<and> fired k'' = fired k' @ map fst zs"
  proof (rule Cons.IH [OF k'(2) ag])
    show "\<forall>e \<in> set zs. snd e = 0" using Cons.prems(3) by simp
    show "\<forall>e \<in> set ?L. 0 < snd e" using restart_pos [OF Cons.prems(4)] pos by blast
    show "WU_plineOp (get k') = Some (fst (hd zs))" if "zs \<noteq> []"
      using k'(4) that by (cases zs) simp_all
    show "\<forall>c. WU_plineOp (get k') = Some c \<longrightarrow> 0 < counter (get k') c" if "zs = []"
      using k'(4) that ag Cons.prems(4)
      by (cases L) (auto intro: counter_after_restart)
  qed
  then show ?case using k' by (auto simp: z)
qed

lemma pass_one_due:
  assumes "inv k" "is_agenda (get k) ((p, 1) # L)" "WU_plineOp (get k) = Some p"
  shows "\<exists>k'. wakeup_pass get upd body 1 k = Some k' \<and> is_agenda (get k') (tick_agenda (period k) ((p, 1) # L)) \<and>
    inv k' \<and> period k' = period k \<and> fired k' = fired k @ p # map fst (filter (\<lambda>e. snd e \<le> 1) L)"
proof -
  let ?d = "\<lambda>e. (fst e, snd e - 1 :: nat)" and ?P = "period k"
  define zs M where "zs = map ?d (filter (\<lambda>e. snd e \<le> 1) L)" and "M = map ?d (filter (\<lambda>e. 1 < snd e) L)"
  have "sorted (map snd L)"
    using is_agenda_sorted [OF assms(2)] by simp
  then have L: "map ?d L = zs @ M"
    unfolding zs_def M_def by (subst map_append [symmetric], subst sorted_split) simp_all
  have pos: "0 < n" if "?P p = Some n" for n
    using period_pos [OF assms(1) that] .
  have zero: "\<forall>e \<in> set zs. snd e = 0" "\<forall>e \<in> set M. 0 < snd e" by (auto simp: zs_def M_def)
  have "unat (1 :: 'w word) \<ge> 1" by simp
  from pass_due [OF assms this] obtain k' where k': "wakeup_pass get upd body 1 k = wakeup_pass get upd body (1 - word_of_nat 1) k'" "inv k'"
    "is_agenda (get k') (restart ?P (zs @ M) p)"
    "WU_plineOp (get k') = (case L of [] \<Rightarrow> None | e # _ \<Rightarrow> Some (fst e))" "period k' = ?P" "fired k' = fired k @ [p]"
    unfolding L by (elim exE conjE) (rule that)
  have ag: "is_agenda (get k') (zs @ restart ?P M p)"
    using k'(3) by (simp only: restart_later [OF zero(1) pos])
  have op: "WU_plineOp (get k') = (case zs @ M of [] \<Rightarrow> None | e # _ \<Rightarrow> Some (fst e))"
    unfolding L [symmetric] k'(4) by (cases L) simp_all
  have "\<exists>k''. wakeup_pass get upd body 0 k' = Some k'' \<and> is_agenda (get k'') (foldl (restart (period k')) (restart ?P M p) (map fst zs)) \<and>
    inv k'' \<and> period k'' = period k' \<and> fired k'' = fired k' @ map fst zs"
  proof (rule pass_zero [OF k'(2) ag zero(1)])
    show "\<forall>e \<in> set (restart ?P M p). 0 < snd e" by (rule restart_pos [OF zero(2) pos])
    show "WU_plineOp (get k') = Some (fst (hd zs))" if "zs \<noteq> []"
      using op that by (cases zs) simp_all
    show "\<forall>c. WU_plineOp (get k') = Some c \<longrightarrow> 0 < counter (get k') c" if "zs = []"
    proof (cases M)
      case (Cons f M')
      then show ?thesis
        using op ag zero(2) that counter_after_restart [of "get k'" ?P "fst f" "snd f" M' p] by simp
    qed (use op that in simp)
  qed
  moreover have "tick_agenda ?P ((p, 1) # L) = foldl (restart ?P) (restart ?P M p) (map fst zs)"
    by (simp add: tick_agenda_def M_def zs_def comp_def)
  moreover have "map fst zs = map fst (filter (\<lambda>e. snd e \<le> 1) L)"
    by (simp add: zs_def)
  ultimately show ?thesis using k' by simp
qed

lemma pass_one_wait:
  assumes "inv k" "is_agenda (get k) ((p, t) # L)" "WU_plineOp (get k) = Some p" "1 < t"
  shows "\<exists>k'. wakeup_pass get upd body 1 k = Some k' \<and> is_agenda (get k') (tick_agenda (period k) ((p, t) # L)) \<and>
    inv k' \<and> period k' = period k \<and> fired k' = fired k @ map fst (filter (\<lambda>e. snd e \<le> 1) ((p, t) # L))"
proof -
  let ?n = "set_op (list_line_get_next p (WU_lines (get k)))" and ?L = "(p, t) # L"
  let ?k = "upd (set_counter p (counter (get k) p - 1)) (upd ?n k)"
  have t: "unat (counter (get k) p) = t" using assms(2) by (rule counter_hd)
  then have gt: "1 < counter (get k) p" using assms(4) by (simp add: word_less_nat_alt)
  then have "wakeup_pass get upd body 1 k = Some ?k"
    using assms(3) by (simp add: wakeup_pass.simps [of get upd body 1 k] get_upd Let_def)
  moreover have "1 + unat (counter (get k) p - 1) = t"
    using gt t assms(4) by (simp add: unat_sub less_imp_le)
  then have "is_agenda (get ?k) (map (\<lambda>e. (fst e, snd e - 1)) ?L)"
    unfolding get_upd by (intro is_agenda_reduce) (use assms(2) in simp_all)
  moreover have "\<forall>e \<in> set ?L. 1 < snd e"
    using is_agenda_sorted [OF assms(2)] assms(4) by auto
  then have "filter (\<lambda>e. snd e \<le> 1) ?L = []" "filter (\<lambda>e. 1 < snd e) ?L = ?L"
    unfolding filter_empty_conv filter_id_conv by auto
  moreover have "inv ?k" using assms(1) by (intro inv_upd) (simp_all add: get_upd)
  ultimately show ?thesis
    by (intro exI [of _ ?k]) (simp only: tick_agenda_def frame_upd list.map foldl.simps append_Nil2 simp_thms)
qed

lemma pass_one:
  assumes "inv k" "is_agenda (get k) (zs @ L)" "\<forall>e \<in> set zs. snd e = 0 \<and> period k (fst e) = None" "\<forall>e \<in> set L. 0 < snd e"
    "WU_plineOp (get k) = (case zs @ L of [] \<Rightarrow> None | e # _ \<Rightarrow> Some (fst e))"
  shows "\<exists>k'. wakeup_pass get upd body 1 k = Some k' \<and> is_agenda (get k') (tick_agenda (period k) L) \<and>
    inv k' \<and> period k' = period k \<and> fired k' = fired k @ map fst zs @ map fst (filter (\<lambda>e. snd e \<le> 1) L)"
  using assms
proof (induction zs arbitrary: k)
  case (Cons z zs)
  obtain p where z: "z = (p, 0)" "period k p = None" using Cons.prems(3) by (cases z) auto
  have "is_agenda (get k) ((p, 0) # zs @ L)" "WU_plineOp (get k) = Some p" "unat (1 :: 'w word) \<ge> 0"
    using Cons.prems(2,5) z by simp_all
  from pass_due [OF Cons.prems(1) this]
  obtain k' where k': "wakeup_pass get upd body 1 k = wakeup_pass get upd body 1 k'" "inv k'" "is_agenda (get k') (zs @ L)"
    "WU_plineOp (get k') = (case zs @ L of [] \<Rightarrow> None | e # _ \<Rightarrow> Some (fst e))" "period k' = period k" "fired k' = fired k @ [p]"
    unfolding restart_def z(2) by (elim exE conjE) (rule that, simp_all)
  from Cons.IH [OF k'(2,3) _ Cons.prems(4) k'(4)] Cons.prems(3) k'(1,5,6) show ?case by (simp add: z)
next
  case Nil
  show ?case
  proof (cases L)
    case Nil
    with Nil.prems show ?thesis by (intro exI [of _ k]) (simp add: wakeup_pass.simps [of get upd body 1 k] tick_agenda_def)
  next
    case (Cons e L')
    obtain p t where e: "e = (p, t)" by (cases e)
    then have "t = 1 \<or> 1 < t" using Nil.prems(4) Cons by auto
    then show ?thesis
      using pass_one_due [of k p L'] pass_one_wait [of k p t L'] Nil.prems(1,2,5) Cons e by auto
  qed
qed

text \<open>A tick.\<close>

lemma tick:
  assumes "inv k" "is_agenda (get k) ag" "\<forall>e \<in> set ag. snd e = 0 \<longrightarrow> period k (fst e) = None"
  shows "\<exists>k'. WAKEUP_PASS get upd body 1 k = Some k' \<and> is_agenda (get k') (tick_agenda (period k) ag) \<and>
    inv k' \<and> period k' = period k \<and> fired k' = fired k @ map fst (filter (\<lambda>e. snd e \<le> 1) ag)"
proof -
  let ?k = "upd (set_op (WU_plineHeader (get k))) k"
  let ?zs = "filter (\<lambda>e. snd e \<le> 0) ag" and ?L = "filter (\<lambda>e. 0 < snd e) ag"
  have ag: "?zs @ ?L = ag" using sorted_split is_agenda_sorted [OF assms(2)] by blast
  note due = filter_due [OF is_agenda_sorted [OF assms(2)]]
  have "foldl (restart P) M (map fst (zs :: agenda)) = M" if "\<forall>e \<in> set zs. P (fst e) = None" for P M zs
    using that by (induction zs) (simp_all add: restart_def)
  then have "foldl (restart (period k)) M (map fst ?zs) = M" for M
    using assms(3) by simp
  then have "tick_agenda (period k) ag = tick_agenda (period k) ?L"
    unfolding tick_agenda_def due(2) unfolding due(1) by simp
  moreover have "map fst (filter (\<lambda>e. snd e \<le> 1) ag) = map fst ?zs @ map fst (filter (\<lambda>e. snd e \<le> 1) ?L)"
    unfolding due(1) by (rule map_append)
  moreover have "WU_plineOp (get ?k) = (case ?zs @ ?L of [] \<Rightarrow> None | e # _ \<Rightarrow> Some (fst e))"
    unfolding ag using is_agenda_header [OF assms(2)] by (cases ag) (simp_all add: get_upd)
  moreover have "inv ?k" using assms(1) by (intro inv_upd) simp_all
  moreover have "is_agenda (get ?k) (?zs @ ?L)" unfolding ag using assms(2) by (simp add: get_upd)
  moreover have "\<forall>e \<in> set ?zs. snd e = 0 \<and> period ?k (fst e) = None" using assms(3) by (simp add: frame_upd)
  moreover have "\<forall>e \<in> set ?L. 0 < snd e" by simp
  ultimately show ?thesis
    using pass_one [of ?k ?zs ?L] unfolding WAKEUP_PASS_def frame_upd by (simp only: append_assoc)
qed

end

section \<open>The queue of the watchdog\<close>

lemma WakeupDel_first:
  assumes "is_agenda w ((p, t) # ag)" "WU_plineOp w \<noteq> Some p"
  shows "is_agenda (WakeupDel p False now w) ag" "WU_plineOp (WakeupDel p False now w) = WU_plineOp w"
proof -
  have "agenda_remove p ((p, t) # ag) = ag"
    using agenda_remove_split [of "[]" p t ag] is_agendaD(3) [OF assms(1)] by simp
  then show "is_agenda (WakeupDel p False now w) ag"
    using WakeupDel_agenda(1) [OF assms(1), of p False now] by simp
  show "WU_plineOp (WakeupDel p False now w) = WU_plineOp w"
    using WakeupDel_agenda(2) [OF assms(1), of p False now] assms(2) by simp
qed

interpretation watchdog: tick_client K_wuWatchDog K_wuWatchDog_update
  "\<lambda>pwun k. Some (k\<lparr>K_wuWatchDog := WakeupDel pwun False 0 (K_wuWatchDog k), WD_hooked := WD_hooked k @ [pwun]\<rparr>)"
  "\<lambda>_ _. None" WD_hooked "\<lambda>_. True"
  by unfold_locales (simp_all add: restart_def WakeupDel_first)

lemma WatchDogTick_reports:
  assumes "is_agenda (K_wuWatchDog k) ag"
  shows "\<exists>k'. WatchDogTick k = Some k' \<and> WD_hooked k' = WD_hooked k @ map fst (filter (\<lambda>e. snd e \<le> 1) ag) \<and>
    is_agenda (K_wuWatchDog k') (map (\<lambda>e. (fst e, snd e - 1)) (filter (\<lambda>e. 1 < snd e) ag))"
proof -
  have "foldl (restart (\<lambda>_. None)) M xs = M" for M and xs :: "addr list"
    by (induction xs) (simp_all add: restart_def)
  then show ?thesis
    using watchdog.tick [of k ag] assms by (auto simp: WatchDogTick_def tick_agenda_def)
qed

section \<open>Correctness of the queues\<close>

text \<open>
  C35: A wakeup queue stands for the list of its nodes with the time each has still to wait.
  Adding a node puts it behind every node that waits at most as long and leaves the times of the
  others as they are, deleting one leaves the times of the others as they are, both take off the
  time that has passed when they are asked to process it, and the status of a node is the time it has
  to wait.  None of them follows a null pointer, overflows a counter or runs on.
\<close>
theorem wakeup_queue_refines:
  assumes "is_agenda w ag"
  shows "(x \<notin> fst ` set ag \<longrightarrow> (\<exists>w'. WakeupAdd x bProcTime now w = Some w' \<and>
        is_agenda w' (agenda_insert x (unat (counter w x))
          (if bProcTime \<and> WU_pfuncWakeup w then agenda_advance (elapsed now w) ag else ag)) \<and>
        WU_i64LastTime w' = (if bProcTime \<and> WU_pfuncWakeup w then now else WU_i64LastTime w))) \<and>
    (x \<in> fst ` set ag \<longrightarrow> is_agenda (WakeupDel x bProcTime now w)
      (if bProcTime \<and> WU_pfuncWakeup w \<and> fst (hd ag) = x then agenda_advance (elapsed now w) (agenda_remove x ag)
       else agenda_remove x ag)) \<and>
    WakeupStatus x now w = Some (word_of_nat (case map_of ag x of None \<Rightarrow> 0
      | Some t \<Rightarrow> if WU_i64LastTime w \<noteq> 0 then t - elapsed now w else t))"
  using WakeupAdd_agenda [OF assms, of x bProcTime now] WakeupDel_agenda(1) [OF assms, of x bProcTime now]
    WakeupStatus_agenda [OF assms, of x now]
  by blast

definition idle_queue :: "(addr \<Rightarrow> 'w::len word) \<Rightarrow> 'w wakeup" where
  "idle_queue c = \<lparr> WU_lines = no_links, WU_nodes = (\<lambda>x. \<lparr> WUN_bInQ = False, WUN_ulCounter = c x \<rparr>), WU_plineHeader = None,
     WU_plineOp = None, WU_i64LastTime = 0, WU_pfuncWakeup = False, WU_woken = 0 \<rparr>"

lemma idle_queue_agenda [simp]: "is_agenda (idle_queue c) []"
  by (simp add: is_agenda_def idle_queue_def is_line_def)

lemma idle_queue_fields [simp]:
  "counter (idle_queue c) = c" "WU_i64LastTime (idle_queue c) = 0" "WU_pfuncWakeup (idle_queue c) = False"
  by (simp_all add: fun_eq_iff counter_def idle_queue_def)

theorem wakeup_queue_refines_witness:
  "\<exists>w. WakeupAdd 7 False 0 (idle_queue (\<lambda>_. 5 :: 64 word)) = Some w \<and> is_agenda w [(7, 5)] \<and>
    WakeupStatus 7 0 w = Some 5 \<and> is_agenda (WakeupDel 7 False 0 w) []"
proof -
  have "\<exists>w. WakeupAdd 7 False 0 (idle_queue (\<lambda>_. 5 :: 64 word)) = Some w \<and> is_agenda w [(7, 5)] \<and> WU_i64LastTime w = 0"
    using wakeup_queue_refines [of "idle_queue (\<lambda>_. 5 :: 64 word)" "[]" 7 False 0] by simp
  then obtain w where "WakeupAdd 7 False 0 (idle_queue (\<lambda>_. 5 :: 64 word)) = Some w" "is_agenda w [(7, 5)]" "WU_i64LastTime w = 0"
    by blast
  moreover from this(2) have "WakeupStatus 7 0 w = Some 5" "is_agenda (WakeupDel 7 False 0 w) []"
    using wakeup_queue_refines [of w "[(7, 5)]" 7 False 0] \<open>WU_i64LastTime w = 0\<close> by (simp_all add: agenda_remove_def)
  ultimately show ?thesis by blast
qed

end
