(* ===== verification/Timers.thy ===== *)
theory Timers
  imports Wakeup
begin

text \<open>
  SylixOS kernel, the timers: interface/TimerCreate.c, TimerStart.c, TimerCancel.c, TimerReset.c,
  TimerDelete.c, TimerStatus.c, TimerGetName.c, TimerHTicks.c, core/_ITimerThread.c, core/_TimerInit.c and
  list/listTimer.c, for the 64 bit target of the repository (ULONG has 64 bits).  High speed timers wait on
  one wakeup queue that every tick advances, the ordinary ones on another that a thread serves;
  the node of a timer is kept with the queue its type selects.  Timers are addressed by
  their index in the buffer.
\<close>

section \<open>Handles\<close>

type_synonym ulong = "64 word"

definition OBJECT_TIMER :: u8 where
  "OBJECT_TIMER = 14"

definition LW_CFG_PROCESSOR_NUMBER :: u16 where
  "LW_CFG_PROCESSOR_NUMBER = 1"

definition LW_CFG_MAX_TIMERS :: nat where
  "LW_CFG_MAX_TIMERS = 50"

definition LW_CFG_OBJECT_NAME_SIZE :: nat where
  "LW_CFG_OBJECT_NAME_SIZE = 32"

text \<open>The shifts are made in int and then extended to ULONG.\<close>

definition MakeObjectId :: "u8 \<Rightarrow> u16 \<Rightarrow> u16 \<Rightarrow> ulong" where
  "MakeObjectId ucCls usNode usIndex =
    scast (push_bit 26 (ucast ucCls :: u32)) OR scast (push_bit 16 (ucast usNode :: u32)) OR ucast usIndex"

definition ObjectGetIndex :: "ulong \<Rightarrow> u16" where
  "ObjectGetIndex ulId = ucast (ulId AND 0xffff)"

definition ObjectClassOK :: "ulong \<Rightarrow> u8 \<Rightarrow> bool" where
  "ObjectClassOK ulId ucClass \<longleftrightarrow> drop_bit 26 ulId AND 0x3f = ucast ucClass"

definition Object_Name_Invalid :: "string option \<Rightarrow> bool" where
  "Object_Name_Invalid pcName = (case pcName of None \<Rightarrow> False
   | Some s \<Rightarrow> min (length s) LW_CFG_OBJECT_NAME_SIZE \<ge> LW_CFG_OBJECT_NAME_SIZE)"

section \<open>Control blocks\<close>

datatype timer_type = LW_TYPE_TIMER_UNUSED | LW_TYPE_TIMER_ITIMER | LW_TYPE_TIMER_HTIMER

datatype timer_status = LW_TIMER_STATUS_STOP | LW_TIMER_STATUS_RUNNING

datatype timer_error = ERROR_NONE | ERROR_TIMER_FULL | ERROR_TIMER_NULL | ERROR_TIMER_CALLBACK_NULL | ERROR_TIMER_TIME
  | ERROR_KERNEL_HANDLE_NULL | ERROR_KERNEL_IN_ISR | ERROR_KERNEL_PNAME_TOO_LONG | ERROR_KERNEL_PNAME_NULL

record timer =
  TIMER_monoResrcList :: "addr option"
  TIMER_ucType :: timer_type
  TIMER_ulCounterSave :: ulong
  TIMER_ulOption :: ulong
  TIMER_ucStatus :: timer_status
  TIMER_cbRoutine :: "nat option"
  TIMER_pvArg :: nat
  TIMER_usIndex :: u16
  TIMER_ulThreadId :: ulong
  TIMER_u64Overrun :: u64
  TIMER_clockid :: nat
  TIMER_pvTimerfd :: "nat option"
  TIMER_cTmrName :: string

definition LW_OPTION_AUTO_RESTART :: ulong where
  "LW_OPTION_AUTO_RESTART = 1"

definition LW_OPTION_ITIMER :: ulong where
  "LW_OPTION_ITIMER = 1"

record resrc =
  RESRC_pmonoFreeHeader :: "addr option"
  RESRC_pmonoFreeTail :: "addr option"
  RESRC_uiUsed :: u32
  RESRC_uiMaxUsed :: u32

text \<open>The calls of timer routines are recorded in K_calls.\<close>

record ktimers =
  K_tmrBuffer :: "addr \<Rightarrow> timer"
  K_resrcTmr :: resrc
  K_wuITmr :: "64 wakeup"
  K_wuHTmr :: "64 wakeup"
  K_calls :: "addr list"

definition upd_timer :: "addr \<Rightarrow> (timer \<Rightarrow> timer) \<Rightarrow> ktimers \<Rightarrow> ktimers" where
  "upd_timer i f k = k\<lparr>K_tmrBuffer := (K_tmrBuffer k)(i := f (K_tmrBuffer k i))\<rparr>"

definition Timer_Index_Invalid :: "u16 \<Rightarrow> bool" where
  "Timer_Index_Invalid usIndex \<longleftrightarrow> unat usIndex \<ge> LW_CFG_MAX_TIMERS"

definition Timer_Type_Invalid :: "u16 \<Rightarrow> ktimers \<Rightarrow> bool" where
  "Timer_Type_Invalid usIndex k \<longleftrightarrow> TIMER_ucType (K_tmrBuffer k (unat usIndex)) = LW_TYPE_TIMER_UNUSED"

section \<open>The pool of control blocks\<close>

definition list_mono_allocate_seq :: "ktimers \<Rightarrow> (addr \<times> ktimers) option" where
  "list_mono_allocate_seq k = (case RESRC_pmonoFreeHeader (K_resrcTmr k) of
     None \<Rightarrow> None
   | Some pallo \<Rightarrow>
      (let nx = TIMER_monoResrcList (K_tmrBuffer k pallo); r = K_resrcTmr k;
           r = (if RESRC_pmonoFreeTail r = RESRC_pmonoFreeHeader r then r\<lparr>RESRC_pmonoFreeTail := nx\<rparr> else r)
       in Some (pallo, k\<lparr>K_resrcTmr := r\<lparr>RESRC_pmonoFreeHeader := nx\<rparr>\<rparr>)))"

definition list_mono_free_seq :: "addr \<Rightarrow> ktimers \<Rightarrow> ktimers" where
  "list_mono_free_seq pfree k =
    (let k = upd_timer pfree (TIMER_monoResrcList_update (\<lambda>_. None)) k;
         k = (case RESRC_pmonoFreeTail (K_resrcTmr k) of
                Some t \<Rightarrow> upd_timer t (TIMER_monoResrcList_update (\<lambda>_. Some pfree)) k
              | None \<Rightarrow> k\<lparr>K_resrcTmr := (K_resrcTmr k)\<lparr>RESRC_pmonoFreeHeader := Some pfree\<rparr>\<rparr>)
     in k\<lparr>K_resrcTmr := (K_resrcTmr k)\<lparr>RESRC_pmonoFreeTail := Some pfree\<rparr>\<rparr>)"

definition Allocate_Timer_Object :: "ktimers \<Rightarrow> addr option \<times> ktimers" where
  "Allocate_Timer_Object k =
    (if RESRC_pmonoFreeHeader (K_resrcTmr k) = None then (None, k)
     else case list_mono_allocate_seq k of None \<Rightarrow> (None, k)
     | Some (p, k) \<Rightarrow>
        (let r = K_resrcTmr k; r = r\<lparr>RESRC_uiUsed := RESRC_uiUsed r + 1\<rparr>;
             r = (if RESRC_uiUsed r > RESRC_uiMaxUsed r then r\<lparr>RESRC_uiMaxUsed := RESRC_uiUsed r\<rparr> else r)
         in (Some p, k\<lparr>K_resrcTmr := r\<rparr>)))"

definition Free_Timer_Object :: "addr \<Rightarrow> ktimers \<Rightarrow> ktimers" where
  "Free_Timer_Object p k =
    (let k = list_mono_free_seq p k
     in k\<lparr>K_resrcTmr := (K_resrcTmr k)\<lparr>RESRC_uiUsed := RESRC_uiUsed (K_resrcTmr k) - 1\<rparr>\<rparr>)"

definition init_timer :: "nat \<Rightarrow> addr option \<Rightarrow> ktimers \<Rightarrow> ktimers" where
  "init_timer i nx = upd_timer i (\<lambda>t. t\<lparr>TIMER_ucType := LW_TYPE_TIMER_UNUSED, TIMER_usIndex := of_nat i, TIMER_monoResrcList := nx\<rparr>)"

definition TimerInit :: "ktimers \<Rightarrow> ktimers" where
  "TimerInit k =
    (let k = k\<lparr>K_resrcTmr := (K_resrcTmr k)\<lparr>RESRC_pmonoFreeHeader := Some 0\<rparr>\<rparr>;
         k = fold (\<lambda>i. init_timer i (Some (Suc i))) [0..<LW_CFG_MAX_TIMERS - 1] k;
         k = init_timer (LW_CFG_MAX_TIMERS - 1) None k;
         k = k\<lparr>K_resrcTmr := (K_resrcTmr k)\<lparr>RESRC_pmonoFreeTail := Some (LW_CFG_MAX_TIMERS - 1), RESRC_uiUsed := 0, RESRC_uiMaxUsed := 0\<rparr>\<rparr>
     in k\<lparr>K_wuHTmr := WAKEUP_INIT False (K_wuHTmr k), K_wuITmr := WAKEUP_INIT True (K_wuITmr k)\<rparr>)"

section \<open>Operations\<close>

definition is_itimer :: "addr \<Rightarrow> ktimers \<Rightarrow> bool" where
  "is_itimer i k \<longleftrightarrow> TIMER_ucType (K_tmrBuffer k i) = LW_TYPE_TIMER_ITIMER"

text \<open>The queue a timer waits on: the branches on TIMER_ucType in the operations.\<close>

definition timer_node_update :: "addr \<Rightarrow> (64 wakeup \<Rightarrow> 64 wakeup) \<Rightarrow> ktimers \<Rightarrow> ktimers" where
  "timer_node_update i f k = (if is_itimer i k then K_wuITmr_update f k else K_wuHTmr_update f k)"

definition timer_dequeue :: "addr \<Rightarrow> u64 \<Rightarrow> ktimers \<Rightarrow> ktimers" where
  "timer_dequeue i now k =
    (if is_itimer i k then k\<lparr>K_wuITmr := WakeupDel i True now (K_wuITmr k)\<rparr>
     else k\<lparr>K_wuHTmr := WakeupDel i False now (K_wuHTmr k)\<rparr>)"

definition timer_enqueue :: "addr \<Rightarrow> u64 \<Rightarrow> ktimers \<Rightarrow> ktimers option" where
  "timer_enqueue i now k =
    (if is_itimer i k then map_option (\<lambda>w. k\<lparr>K_wuITmr := w\<rparr>) (WakeupAdd i True now (K_wuITmr k))
     else map_option (\<lambda>w. k\<lparr>K_wuHTmr := w\<rparr>) (WakeupAdd i False now (K_wuHTmr k)))"

definition set_timer_counter :: "addr \<Rightarrow> ulong \<Rightarrow> ktimers \<Rightarrow> ktimers" where
  "set_timer_counter i c = timer_node_update i (set_counter i c)"

definition API_TimerCreate :: "bool \<Rightarrow> string option \<Rightarrow> ulong \<Rightarrow> ktimers \<Rightarrow> (timer_error + ulong) \<times> ktimers" where
  "API_TimerCreate inISR pcName ulOption k =
    (if inISR then (Inl ERROR_KERNEL_IN_ISR, k)
     else if Object_Name_Invalid pcName then (Inl ERROR_KERNEL_PNAME_TOO_LONG, k)
     else case Allocate_Timer_Object k of
       (None, k) \<Rightarrow> (Inl ERROR_TIMER_FULL, k)
     | (Some i, k) \<Rightarrow>
        (let k = upd_timer i (\<lambda>t. t\<lparr>TIMER_cTmrName := (case pcName of None \<Rightarrow> [] | Some s \<Rightarrow> s),
               TIMER_ucType := (if ulOption AND LW_OPTION_ITIMER \<noteq> 0 then LW_TYPE_TIMER_ITIMER else LW_TYPE_TIMER_HTIMER)\<rparr>) k;
             k = timer_node_update i (WAKEUP_NODE_INIT i) k;
             k = upd_timer i (\<lambda>t. t\<lparr>TIMER_ulCounterSave := 0, TIMER_ulOption := 0, TIMER_ucStatus := LW_TIMER_STATUS_STOP,
               TIMER_cbRoutine := None, TIMER_pvArg := 0, TIMER_ulThreadId := 0, TIMER_u64Overrun := 0, TIMER_clockid := 0,
               TIMER_pvTimerfd := None\<rparr>) k;
             ulIdTemp = MakeObjectId OBJECT_TIMER LW_CFG_PROCESSOR_NUMBER (TIMER_usIndex (K_tmrBuffer k i))
         in (Inr ulIdTemp, k)))"

text \<open>The checks of the handle that the operations start with.\<close>

definition timer_handle :: "ulong \<Rightarrow> ktimers \<Rightarrow> timer_error + addr" where
  "timer_handle ulId k =
    (let usIndex = ObjectGetIndex ulId
     in if \<not> ObjectClassOK ulId OBJECT_TIMER then Inl ERROR_KERNEL_HANDLE_NULL
        else if Timer_Index_Invalid usIndex then Inl ERROR_KERNEL_HANDLE_NULL
        else if Timer_Type_Invalid usIndex k then Inl ERROR_TIMER_NULL
        else Inr (unat usIndex))"

text \<open>A running timer is stopped, by cancelling or deleting it.\<close>

definition timer_stop :: "addr \<Rightarrow> u64 \<Rightarrow> ktimers \<Rightarrow> ktimers" where
  "timer_stop i now k =
    (let k = upd_timer i (TIMER_ucStatus_update (\<lambda>_. LW_TIMER_STATUS_STOP)) k;
         k = timer_dequeue i now k
     in set_timer_counter i 0 k)"

text \<open>Deleting also gives the caller's handle as it is left: cleared when the timer is deleted.\<close>

definition ObjectCloseId :: "ulong \<Rightarrow> ulong" where
  "ObjectCloseId ulId = 0"

definition API_TimerDelete :: "bool \<Rightarrow> ulong \<Rightarrow> u64 \<Rightarrow> ktimers \<Rightarrow> (timer_error \<times> ulong) \<times> ktimers" where
  "API_TimerDelete inISR ulId now k =
    (if inISR then ((ERROR_KERNEL_IN_ISR, ulId), k)
     else case timer_handle ulId k of
       Inl e \<Rightarrow> ((e, ulId), k)
     | Inr i \<Rightarrow>
        (let pulId = ObjectCloseId ulId;
             k = (if TIMER_ucStatus (K_tmrBuffer k i) = LW_TIMER_STATUS_STOP then k
                  else timer_stop i now k);
             k = upd_timer i (TIMER_ucType_update (\<lambda>_. LW_TYPE_TIMER_UNUSED)) k
         in ((ERROR_NONE, pulId), Free_Timer_Object i k)))"

definition API_TimerStartEx ::
  "ulong \<Rightarrow> ulong \<Rightarrow> ulong \<Rightarrow> ulong \<Rightarrow> nat option \<Rightarrow> nat \<Rightarrow> u64 \<Rightarrow> u64 \<Rightarrow> ktimers \<Rightarrow> (timer_error \<times> ktimers) option" where
  "API_TimerStartEx ulId ulInitCounter ulCounter ulOption cbTimerRoutine pvArg now now' k =
    (if cbTimerRoutine = None then Some (ERROR_TIMER_CALLBACK_NULL, k)
     else if ulInitCounter = 0 then Some (ERROR_TIMER_TIME, k)
     else if ulOption AND LW_OPTION_AUTO_RESTART \<noteq> 0 \<and> ulCounter = 0 then Some (ERROR_TIMER_TIME, k)
     else case timer_handle ulId k of
       Inl e \<Rightarrow> Some (e, k)
     | Inr i \<Rightarrow>
        (let k = (if TIMER_ucStatus (K_tmrBuffer k i) = LW_TIMER_STATUS_RUNNING then timer_dequeue i now k else k);
             k = set_timer_counter i ulInitCounter k;
             k = upd_timer i (\<lambda>t. t\<lparr>TIMER_ulCounterSave := ulCounter, TIMER_ulOption := ulOption, TIMER_ucStatus := LW_TIMER_STATUS_RUNNING,
               TIMER_cbRoutine := cbTimerRoutine, TIMER_pvArg := pvArg, TIMER_u64Overrun := 0\<rparr>) k
         in map_option (Pair ERROR_NONE) (timer_enqueue i now' k)))"

definition API_TimerStart ::
  "ulong \<Rightarrow> ulong \<Rightarrow> ulong \<Rightarrow> nat option \<Rightarrow> nat \<Rightarrow> u64 \<Rightarrow> u64 \<Rightarrow> ktimers \<Rightarrow> (timer_error \<times> ktimers) option" where
  "API_TimerStart ulId ulCounter ulOption cbTimerRoutine pvArg now now' k =
    API_TimerStartEx ulId ulCounter ulCounter ulOption cbTimerRoutine pvArg now now' k"

definition API_TimerCancel :: "ulong \<Rightarrow> u64 \<Rightarrow> ktimers \<Rightarrow> timer_error \<times> ktimers" where
  "API_TimerCancel ulId now k = (case timer_handle ulId k of
     Inl e \<Rightarrow> (e, k)
   | Inr i \<Rightarrow>
      (if TIMER_ucStatus (K_tmrBuffer k i) = LW_TIMER_STATUS_STOP then (ERROR_TIMER_TIME, k)
       else (ERROR_NONE, timer_stop i now k)))"

definition API_TimerReset :: "ulong \<Rightarrow> u64 \<Rightarrow> u64 \<Rightarrow> ktimers \<Rightarrow> (timer_error \<times> ktimers) option" where
  "API_TimerReset ulId now now' k = (case timer_handle ulId k of
     Inl e \<Rightarrow> Some (e, k)
   | Inr i \<Rightarrow>
      (if TIMER_ucStatus (K_tmrBuffer k i) = LW_TIMER_STATUS_STOP then Some (ERROR_TIMER_TIME, k)
       else let k = timer_dequeue i now k;
                k = set_timer_counter i (TIMER_ulCounterSave (K_tmrBuffer k i)) k
            in map_option (Pair ERROR_NONE) (timer_enqueue i now' k)))"

record timer_info =
  ti_running :: bool
  ti_option :: ulong
  ti_counter :: ulong
  ti_interval :: ulong
  ti_clockid :: nat

definition API_TimerStatusEx :: "ulong \<Rightarrow> u64 \<Rightarrow> ktimers \<Rightarrow> (timer_error + timer_info) option" where
  "API_TimerStatusEx ulId now k = (case timer_handle ulId k of
     Inl e \<Rightarrow> Some (Inl e)
   | Inr i \<Rightarrow>
      (let t = K_tmrBuffer k i; running = TIMER_ucStatus t = LW_TIMER_STATUS_RUNNING
       in map_option (\<lambda>c. Inr \<lparr> ti_running = running, ti_option = TIMER_ulOption t, ti_counter = c,
            ti_interval = TIMER_ulCounterSave t, ti_clockid = TIMER_clockid t \<rparr>)
          (if running then WakeupStatus i now (if is_itimer i k then K_wuITmr k else K_wuHTmr k) else Some 0)))"

text \<open>The buffer for the name is there or not; its content is the result.\<close>

definition API_TimerGetName :: "bool \<Rightarrow> ulong \<Rightarrow> bool \<Rightarrow> ktimers \<Rightarrow> timer_error + string" where
  "API_TimerGetName inISR ulId pcName k =
    (if inISR then Inl ERROR_KERNEL_IN_ISR
     else if \<not> pcName then Inl ERROR_KERNEL_PNAME_NULL
     else case timer_handle ulId k of Inl e \<Rightarrow> Inl e | Inr i \<Rightarrow> Inr (TIMER_cTmrName (K_tmrBuffer k i)))"

text \<open>
  The statements between the macros of the scan: the timer is taken off its queue, put
  back when it restarts, and its routine is called, which is a parameter.
\<close>

definition timer_fire ::
  "((64 wakeup \<Rightarrow> 64 wakeup) \<Rightarrow> ktimers \<Rightarrow> ktimers) \<Rightarrow> (ktimers \<Rightarrow> 64 wakeup) \<Rightarrow> (nat \<Rightarrow> nat \<Rightarrow> ktimers \<Rightarrow> ktimers) \<Rightarrow>
    addr \<Rightarrow> ktimers \<Rightarrow> ktimers option" where
  "timer_fire upd get call i k =
    (let k = upd (WakeupDel i False 0) k; t = K_tmrBuffer k i
     in do {
       k \<leftarrow> (if TIMER_ulOption t AND LW_OPTION_AUTO_RESTART \<noteq> 0
             then let k = upd (set_counter i (TIMER_ulCounterSave t)) k
                  in map_option (\<lambda>w. upd (\<lambda>_. w) k) (WakeupAdd i False 0 (get k))
             else Some (upd_timer i (TIMER_ucStatus_update (\<lambda>_. LW_TIMER_STATUS_STOP)) k));
       f \<leftarrow> TIMER_cbRoutine (K_tmrBuffer k i);
       Some (call f (TIMER_pvArg (K_tmrBuffer k i)) (k\<lparr>K_calls := K_calls k @ [i]\<rparr>))
     })"

definition API_TimerHTicks :: "(nat \<Rightarrow> nat \<Rightarrow> ktimers \<Rightarrow> ktimers) \<Rightarrow> ktimers \<Rightarrow> ktimers option" where
  "API_TimerHTicks call = WAKEUP_PASS K_wuHTmr K_wuHTmr_update (timer_fire K_wuHTmr_update K_wuHTmr call) 1"

text \<open>One round of the thread after its sleep.\<close>

definition ITimerThread_round :: "(nat \<Rightarrow> nat \<Rightarrow> ktimers \<Rightarrow> ktimers) \<Rightarrow> u64 \<Rightarrow> ktimers \<Rightarrow> ktimers option" where
  "ITimerThread_round call now k =
    (let ulCounter = now - WU_i64LastTime (K_wuITmr k);
         k = K_wuITmr_update (WU_i64LastTime_update (\<lambda>_. now)) k
     in WAKEUP_PASS K_wuITmr K_wuITmr_update (timer_fire K_wuITmr_update K_wuITmr call) ulCounter k)"

section \<open>The pool\<close>

fun mono_chain :: "(addr \<Rightarrow> addr option) \<Rightarrow> addr list \<Rightarrow> bool" where
  "mono_chain nx [] = True"
| "mono_chain nx [x] = (nx x = None)"
| "mono_chain nx (x # y # xs) = (nx x = Some y \<and> mono_chain nx (y # xs))"

definition pool :: "ktimers \<Rightarrow> addr list \<Rightarrow> bool" where
  "pool k fr \<longleftrightarrow> distinct fr \<and> mono_chain (\<lambda>i. TIMER_monoResrcList (K_tmrBuffer k i)) fr \<and>
    RESRC_pmonoFreeHeader (K_resrcTmr k) = (if fr = [] then None else Some (hd fr)) \<and>
    RESRC_pmonoFreeTail (K_resrcTmr k) = (if fr = [] then None else Some (last fr))"

lemma mono_chain_cong: "(\<And>x. x \<in> set xs \<Longrightarrow> nx x = nx' x) \<Longrightarrow> mono_chain nx xs = mono_chain nx' xs"
  by (induction nx xs rule: mono_chain.induct) auto

lemma mono_chain_snoc:
  "mono_chain nx xs \<Longrightarrow> distinct (xs @ [x]) \<Longrightarrow> nx' x = None \<Longrightarrow> (xs \<noteq> [] \<Longrightarrow> nx' (last xs) = Some x) \<Longrightarrow>
    (\<And>y. y \<in> set (butlast xs) \<Longrightarrow> nx' y = nx y) \<Longrightarrow> mono_chain nx' (xs @ [x])"
  by (induction nx xs rule: mono_chain.induct) (auto split: if_splits)

lemma mono_chain_tl: "mono_chain nx (x # xs) \<Longrightarrow> nx x = (if xs = [] then None else Some (hd xs)) \<and> mono_chain nx xs"
  by (cases xs) auto

lemma pool_allocate:
  assumes "pool k (i # fr)"
  shows "\<exists>k'. list_mono_allocate_seq k = Some (i, k') \<and> pool k' fr \<and> K_tmrBuffer k' = K_tmrBuffer k \<and>
    K_wuITmr k' = K_wuITmr k \<and> K_wuHTmr k' = K_wuHTmr k \<and> K_calls k' = K_calls k \<and>
    RESRC_uiUsed (K_resrcTmr k') = RESRC_uiUsed (K_resrcTmr k) \<and> RESRC_uiMaxUsed (K_resrcTmr k') = RESRC_uiMaxUsed (K_resrcTmr k)"
proof -
  have "i \<noteq> last fr" if "fr \<noteq> []"
    using assms that last_in_set [OF that] by (auto simp: pool_def)
  then show ?thesis
    using assms mono_chain_tl [of "\<lambda>i. TIMER_monoResrcList (K_tmrBuffer k i)" i fr]
    by (cases "fr = []") (simp_all add: pool_def list_mono_allocate_seq_def Let_def)
qed

lemma upd_timer_simps [simp]:
  "K_tmrBuffer (upd_timer i f k) j = (if j = i then f (K_tmrBuffer k i) else K_tmrBuffer k j)"
  "K_resrcTmr (upd_timer i f k) = K_resrcTmr k" "K_wuITmr (upd_timer i f k) = K_wuITmr k"
  "K_wuHTmr (upd_timer i f k) = K_wuHTmr k" "K_calls (upd_timer i f k) = K_calls k"
  by (simp_all add: upd_timer_def)

lemma pool_free:
  assumes "pool k fr" "i \<notin> set fr"
  shows "pool (list_mono_free_seq i k) (fr @ [i])"
proof (cases "fr = []")
  case True
  then show ?thesis using assms by (simp add: pool_def list_mono_free_seq_def Let_def)
next
  case False
  let ?k = "list_mono_free_seq i k" and ?nx = "\<lambda>k j. TIMER_monoResrcList (K_tmrBuffer k j)"
  have "last fr \<in> set fr" "i \<noteq> last fr" using False assms(2) last_in_set [OF False] by auto
  then have nx: "?nx ?k j = (if j = last fr then Some i else if j = i then None else ?nx k j)" for j
    using assms False by (simp add: pool_def list_mono_free_seq_def Let_def)
  have "last fr \<notin> set (butlast fr)"
    using assms(1) False by (metis append_butlast_last_id distinct_append list.set_intros(1) disjoint_iff pool_def)
  then have "mono_chain (?nx ?k) (fr @ [i])"
    using assms \<open>i \<noteq> last fr\<close> by (intro mono_chain_snoc [of "?nx k"]) (auto simp: nx pool_def dest: in_set_butlastD)
  then show ?thesis
    using assms False by (simp add: pool_def list_mono_free_seq_def Let_def)
qed

section \<open>Well-formed timers\<close>

abbreviation running :: "timer \<Rightarrow> bool" where
  "running t \<equiv> TIMER_ucStatus t = LW_TIMER_STATUS_RUNNING"

abbreviation inq :: "64 wakeup \<Rightarrow> addr \<Rightarrow> bool" where
  "inq w i \<equiv> WUN_bInQ (WU_nodes w i)"

text \<open>A timer is on the queue of its type exactly while it runs.\<close>

definition timer_ok :: "addr \<Rightarrow> timer \<Rightarrow> bool \<Rightarrow> bool \<Rightarrow> bool" where
  "timer_ok i t qi qh \<longleftrightarrow> (qi \<longleftrightarrow> TIMER_ucType t = LW_TYPE_TIMER_ITIMER \<and> running t) \<and>
    (qh \<longleftrightarrow> TIMER_ucType t = LW_TYPE_TIMER_HTIMER \<and> running t) \<and>
    (running t \<longrightarrow> TIMER_cbRoutine t \<noteq> None \<and> TIMER_ucType t \<noteq> LW_TYPE_TIMER_UNUSED) \<and>
    (TIMER_ulOption t AND LW_OPTION_AUTO_RESTART \<noteq> 0 \<longrightarrow> TIMER_ulCounterSave t \<noteq> 0) \<and>
    (TIMER_ucType t \<noteq> LW_TYPE_TIMER_UNUSED \<longrightarrow> i < LW_CFG_MAX_TIMERS) \<and>
    (i < LW_CFG_MAX_TIMERS \<longrightarrow> TIMER_usIndex t = word_of_nat i)"

definition pool_ok :: "ktimers \<Rightarrow> bool" where
  "pool_ok k \<longleftrightarrow> (\<exists>fr. pool k fr \<and> (\<forall>i. i \<in> set fr \<longleftrightarrow> i < LW_CFG_MAX_TIMERS \<and> TIMER_ucType (K_tmrBuffer k i) = LW_TYPE_TIMER_UNUSED) \<and>
     unat (RESRC_uiUsed (K_resrcTmr k)) + length fr = LW_CFG_MAX_TIMERS)"

definition timers_inv :: "ktimers \<Rightarrow> bool" where
  "timers_inv k \<longleftrightarrow> (\<exists>iag. is_agenda (K_wuITmr k) iag) \<and> pool_ok k \<and>
    (\<forall>i. timer_ok i (K_tmrBuffer k i) (inq (K_wuITmr k) i) (inq (K_wuHTmr k) i))"

definition period :: "ktimers \<Rightarrow> addr \<Rightarrow> nat option" where
  "period k i = (let t = K_tmrBuffer k i in
    if TIMER_ulOption t AND LW_OPTION_AUTO_RESTART \<noteq> 0 then Some (unat (TIMER_ulCounterSave t)) else None)"

text \<open>Only timers that do not restart can be due at once.\<close>

definition hqueue_ok :: "ktimers \<Rightarrow> bool" where
  "hqueue_ok k \<longleftrightarrow> (\<exists>hag. is_agenda (K_wuHTmr k) hag \<and> (\<forall>e \<in> set hag. snd e = 0 \<longrightarrow> period k (fst e) = None))"

definition timers_ok :: "ktimers \<Rightarrow> bool" where
  "timers_ok k \<longleftrightarrow> timers_inv k \<and> hqueue_ok k"

lemma pool_cong:
  assumes "K_resrcTmr k' = K_resrcTmr k" "\<And>i. TIMER_monoResrcList (K_tmrBuffer k' i) = TIMER_monoResrcList (K_tmrBuffer k i)"
  shows "pool k' fr = pool k fr"
  by (simp add: pool_def assms)

lemma pool_ok_cong:
  assumes "K_resrcTmr k' = K_resrcTmr k" "\<And>i. TIMER_monoResrcList (K_tmrBuffer k' i) = TIMER_monoResrcList (K_tmrBuffer k i)"
    "\<And>i. TIMER_ucType (K_tmrBuffer k' i) = LW_TYPE_TIMER_UNUSED \<longleftrightarrow> TIMER_ucType (K_tmrBuffer k i) = LW_TYPE_TIMER_UNUSED"
  shows "pool_ok k' = pool_ok k"
  by (simp add: pool_ok_def pool_def assms)

lemma timer_handle_Inr:
  "timer_handle ulId k = Inr i \<Longrightarrow> i < LW_CFG_MAX_TIMERS \<and> TIMER_ucType (K_tmrBuffer k i) \<noteq> LW_TYPE_TIMER_UNUSED"
  by (auto simp: timer_handle_def Let_def Timer_Index_Invalid_def Timer_Type_Invalid_def split: if_splits)

section \<open>Queueing\<close>

lemma WakeupDel_inq:
  assumes "is_agenda w ag" "inq w i"
  shows "inq (WakeupDel i b now w) j \<longleftrightarrow> j \<noteq> i \<and> inq w j"
proof -
  have i: "i \<in> fst ` set ag" using assms by (simp add: is_agenda_inq)
  show ?thesis
    using is_agenda_inq [OF WakeupDel_agenda(1) [OF assms(1) i, of b now], of j] is_agenda_inq [OF assms(1), of j]
    by (simp split: if_splits) blast+
qed

lemma WakeupAdd_inq:
  assumes "is_agenda w ag" "\<not> inq w i" "WakeupAdd i b now w = Some w'"
  shows "inq w' j \<longleftrightarrow> j = i \<or> inq w j"
proof -
  have i: "i \<notin> fst ` set ag" using assms by (simp add: is_agenda_inq)
  obtain ag' where "is_agenda w' (agenda_insert i (unat (counter w i)) ag')" "fst ` set ag' = fst ` set ag"
    using WakeupAdd_agenda [OF assms(1) i, of b now] assms(3) by (auto split: if_splits)
  then show ?thesis using is_agenda_inq [of w', of _ j] is_agenda_inq [OF assms(1), of j] by simp
qed

text \<open>A running timer is taken off its queue.\<close>

lemma timer_dequeue_ok:
  assumes iag: "is_agenda (K_wuITmr k) iag" and "is_agenda (K_wuHTmr k) hag" "inq (K_wuITmr k) i \<or> inq (K_wuHTmr k) i"
    "inq (K_wuITmr k) i \<longleftrightarrow> is_itimer i k" and excl: "\<not> (inq (K_wuITmr k) i \<and> inq (K_wuHTmr k) i)"
  shows "\<exists>iag. is_agenda (K_wuITmr (timer_dequeue i now k)) iag" "is_agenda (K_wuHTmr (timer_dequeue i now k)) (agenda_remove i hag)"
    "inq (K_wuITmr (timer_dequeue i now k)) j \<longleftrightarrow> j \<noteq> i \<and> inq (K_wuITmr k) j"
    "inq (K_wuHTmr (timer_dequeue i now k)) j \<longleftrightarrow> j \<noteq> i \<and> inq (K_wuHTmr k) j"
    "K_tmrBuffer (timer_dequeue i now k) = K_tmrBuffer k" "K_resrcTmr (timer_dequeue i now k) = K_resrcTmr k"
    "K_calls (timer_dequeue i now k) = K_calls k"
proof -
  show "\<exists>iag. is_agenda (K_wuITmr (timer_dequeue i now k)) iag"
    using iag WakeupDel_agenda(1) [OF iag, of i] assms(4) by (auto simp: timer_dequeue_def is_agenda_inq [OF iag])
  show "is_agenda (K_wuHTmr (timer_dequeue i now k)) (agenda_remove i hag)"
  proof (cases "is_itimer i k")
    case True
    then have "i \<notin> fst ` set hag" using excl assms(4) is_agenda_inq [OF assms(2)] by blast
    then show ?thesis using True assms(2) by (simp add: timer_dequeue_def agenda_remove_id)
  next
    case False
    then have "i \<in> fst ` set hag" using assms(3,4) is_agenda_inq [OF assms(2)] by blast
    then show ?thesis using False WakeupDel_agenda(1) [OF assms(2), of i False] by (simp add: timer_dequeue_def)
  qed
  show "inq (K_wuITmr (timer_dequeue i now k)) j \<longleftrightarrow> j \<noteq> i \<and> inq (K_wuITmr k) j"
    "inq (K_wuHTmr (timer_dequeue i now k)) j \<longleftrightarrow> j \<noteq> i \<and> inq (K_wuHTmr k) j"
    using WakeupDel_inq [OF iag, of i] WakeupDel_inq [OF assms(2), of i] excl assms(3,4) by (auto simp: timer_dequeue_def)
qed (simp_all add: timer_dequeue_def)

lemma timer_enqueue_ok:
  assumes "is_agenda (K_wuITmr k) iag" "is_agenda (K_wuHTmr k) hag" "\<not> inq (K_wuITmr k) i" "\<not> inq (K_wuHTmr k) i"
  shows "\<exists>k'. timer_enqueue i now k = Some k' \<and> (\<exists>iag. is_agenda (K_wuITmr k') iag) \<and>
    is_agenda (K_wuHTmr k') (if is_itimer i k then hag else agenda_insert i (unat (counter (K_wuHTmr k) i)) hag) \<and>
    (\<forall>j. inq (K_wuITmr k') j \<longleftrightarrow> inq (K_wuITmr k) j \<or> (j = i \<and> is_itimer i k)) \<and>
    (\<forall>j. inq (K_wuHTmr k') j \<longleftrightarrow> inq (K_wuHTmr k) j \<or> (j = i \<and> \<not> is_itimer i k)) \<and>
    K_tmrBuffer k' = K_tmrBuffer k \<and> K_resrcTmr k' = K_resrcTmr k \<and> K_calls k' = K_calls k"
proof -
  have "i \<notin> fst ` set iag" "i \<notin> fst ` set hag"
    using assms by (simp_all add: is_agenda_inq)
  then obtain wi wh where "WakeupAdd i True now (K_wuITmr k) = Some wi" "\<exists>iag. is_agenda wi iag"
    "WakeupAdd i False now (K_wuHTmr k) = Some wh" "is_agenda wh (agenda_insert i (unat (counter (K_wuHTmr k) i)) hag)"
    using WakeupAdd_agenda [OF assms(1), of i True now] WakeupAdd_agenda [OF assms(2), of i False now] by auto
  then show ?thesis
    using assms WakeupAdd_inq [OF assms(1,3), of True now wi] WakeupAdd_inq [OF assms(2,4), of False now wh]
    by (cases "is_itimer i k") (auto simp: timer_enqueue_def)
qed

lemma set_timer_counter_fields [simp]:
  "K_tmrBuffer (set_timer_counter i c k) = K_tmrBuffer k" "K_resrcTmr (set_timer_counter i c k) = K_resrcTmr k"
  "K_calls (set_timer_counter i c k) = K_calls k" "is_itimer j (set_timer_counter i c k) = is_itimer j k"
  "inq (K_wuITmr (set_timer_counter i c k)) j = inq (K_wuITmr k) j" "inq (K_wuHTmr (set_timer_counter i c k)) j = inq (K_wuHTmr k) j"
  "\<not> is_itimer i k \<Longrightarrow> counter (K_wuHTmr (set_timer_counter i c k)) i = c"
  by (simp_all add: set_timer_counter_def timer_node_update_def is_itimer_def)

lemma set_timer_counter_agenda:
  "is_agenda (K_wuITmr k) iag \<Longrightarrow> \<not> inq (K_wuITmr k) i \<Longrightarrow> is_agenda (K_wuITmr (set_timer_counter i c k)) iag"
  "is_agenda (K_wuHTmr k) hag \<Longrightarrow> \<not> inq (K_wuHTmr k) i \<Longrightarrow> is_agenda (K_wuHTmr (set_timer_counter i c k)) hag"
  by (simp_all add: set_timer_counter_def timer_node_update_def is_agenda_set_counter is_agenda_inq)

section \<open>Every operation keeps the timers well formed\<close>

lemma timers_invD:
  assumes "timers_inv k"
  shows "timer_ok i (K_tmrBuffer k i) (inq (K_wuITmr k) i) (inq (K_wuHTmr k) i)"
    "inq (K_wuITmr k) i \<longleftrightarrow> is_itimer i k \<and> running (K_tmrBuffer k i)" "\<not> (inq (K_wuITmr k) i \<and> inq (K_wuHTmr k) i)"
    "running (K_tmrBuffer k i) \<longleftrightarrow> inq (K_wuITmr k) i \<or> inq (K_wuHTmr k) i"
proof -
  show ok: "timer_ok i (K_tmrBuffer k i) (inq (K_wuITmr k) i) (inq (K_wuHTmr k) i)"
    using assms by (simp add: timers_inv_def)
  show "inq (K_wuITmr k) i \<longleftrightarrow> is_itimer i k \<and> running (K_tmrBuffer k i)" "\<not> (inq (K_wuITmr k) i \<and> inq (K_wuHTmr k) i)"
    "running (K_tmrBuffer k i) \<longleftrightarrow> inq (K_wuITmr k) i \<or> inq (K_wuHTmr k) i"
    using ok by (cases "TIMER_ucType (K_tmrBuffer k i)"; simp add: timer_ok_def is_itimer_def)+
qed

lemma timers_okE:
  assumes "timers_ok k"
  obtains iag hag where "is_agenda (K_wuITmr k) iag" "is_agenda (K_wuHTmr k) hag"
    "\<forall>e \<in> set hag. snd e = 0 \<longrightarrow> period k (fst e) = None" "timers_inv k"
  using assms by (auto simp: timers_ok_def timers_inv_def hqueue_ok_def)

lemma hqueue_ok_agenda:
  "timers_ok k \<Longrightarrow> is_agenda (K_wuHTmr k) hag \<Longrightarrow> \<forall>e \<in> set hag. snd e = 0 \<longrightarrow> period k (fst e) = None"
  unfolding timers_ok_def hqueue_ok_def using is_agenda_unique by blast

lemma timers_okI:
  assumes "is_agenda (K_wuITmr k) iag" "is_agenda (K_wuHTmr k) hag" "\<And>e. e \<in> set hag \<Longrightarrow> snd e = 0 \<Longrightarrow> period k (fst e) = None"
    "pool_ok k" "\<And>j. timer_ok j (K_tmrBuffer k j) (inq (K_wuITmr k) j) (inq (K_wuHTmr k) j)"
  shows "timers_ok k"
  using assms unfolding timers_ok_def timers_inv_def hqueue_ok_def by blast

lemma timers_inv_pool: "timers_inv k \<Longrightarrow> pool_ok k"
  by (simp add: timers_inv_def)

lemma upd_timer_type [simp]:
  "(\<And>t. TIMER_ucType (f t) = TIMER_ucType t) \<Longrightarrow> is_itimer j (upd_timer i f k) = is_itimer j k"
  by (simp add: is_itimer_def)

lemma timer_stop_ok:
  assumes "timers_ok k" "running (K_tmrBuffer k i)"
  shows "timers_ok (timer_stop i now k)" "\<not> running (K_tmrBuffer (timer_stop i now k) i)"
    "TIMER_ucType (K_tmrBuffer (timer_stop i now k) j) = TIMER_ucType (K_tmrBuffer k j)"
proof -
  obtain iag hag where ag: "is_agenda (K_wuITmr k) iag" "is_agenda (K_wuHTmr k) hag"
    "\<forall>e \<in> set hag. snd e = 0 \<longrightarrow> period k (fst e) = None" and inv: "timers_inv k"
    using assms(1) by (rule timers_okE)
  let ?k1 = "upd_timer i (TIMER_ucStatus_update (\<lambda>_. LW_TIMER_STATUS_STOP)) k"
  define k2 where "k2 = timer_dequeue i now ?k1"
  have k': "timer_stop i now k = set_timer_counter i 0 k2" by (simp add: timer_stop_def k2_def Let_def)
  note t = timers_invD [OF inv, of i]
  have k2: "is_agenda (K_wuHTmr k2) (agenda_remove i hag)"
    "\<And>j. inq (K_wuITmr k2) j \<longleftrightarrow> j \<noteq> i \<and> inq (K_wuITmr k) j" "\<And>j. inq (K_wuHTmr k2) j \<longleftrightarrow> j \<noteq> i \<and> inq (K_wuHTmr k) j"
    "K_tmrBuffer k2 = K_tmrBuffer ?k1" "K_resrcTmr k2 = K_resrcTmr k"
    using timer_dequeue_ok [of ?k1 iag hag i now] ag(1,2) t(2,3,4) assms(2) by (simp_all add: k2_def)
  obtain iag' where iag': "is_agenda (K_wuITmr k2) iag'"
    using timer_dequeue_ok(1) [of ?k1 iag hag i now] ag(1,2) t(2,3,4) assms(2) by (auto simp: k2_def)
  have period: "period (set_timer_counter i 0 k2) j = period k j" for j by (simp add: period_def k2(4) Let_def)
  show "timers_ok (timer_stop i now k)"
    unfolding k'
  proof (rule timers_okI)
    show "is_agenda (K_wuITmr (set_timer_counter i 0 k2)) iag'" "is_agenda (K_wuHTmr (set_timer_counter i 0 k2)) (agenda_remove i hag)"
      using iag' k2(1) by (simp_all add: set_timer_counter_agenda k2(2,3))
    show "period (set_timer_counter i 0 k2) (fst e) = None" if "e \<in> set (agenda_remove i hag)" "snd e = 0" for e
      using ag(3) that by (simp add: agenda_remove_def period)
    have "pool_ok (set_timer_counter i 0 k2) = pool_ok k"
      by (rule pool_ok_cong) (simp_all add: k2)
    then show "pool_ok (set_timer_counter i 0 k2)" using inv by (simp add: timers_inv_pool)
    show "timer_ok j (K_tmrBuffer (set_timer_counter i 0 k2) j) (inq (K_wuITmr (set_timer_counter i 0 k2)) j)
        (inq (K_wuHTmr (set_timer_counter i 0 k2)) j)" for j
      using timers_invD(1) [OF inv, of j] by (cases "j = i") (auto simp: k2 timer_ok_def)
  qed
  show "\<not> running (K_tmrBuffer (timer_stop i now k) i)" "TIMER_ucType (K_tmrBuffer (timer_stop i now k) j) = TIMER_ucType (K_tmrBuffer k j)"
    by (simp_all add: k' k2(4))
qed

lemma API_TimerCancel_ok: "timers_ok k \<Longrightarrow> timers_ok (snd (API_TimerCancel ulId now k))"
  by (auto simp: API_TimerCancel_def timer_stop_ok split: sum.split) (metis timer_status.exhaust timer_stop_ok(1))

text \<open>Putting a stopped timer on its queue, with whatever count and routine it is given.\<close>

lemma timer_enqueue_started:
  assumes "is_agenda (K_wuITmr k) iag" "is_agenda (K_wuHTmr k) hag" "\<forall>e \<in> set hag. snd e = 0 \<longrightarrow> period k (fst e) = None"
    "pool_ok k" "\<And>j. j \<noteq> i \<Longrightarrow> timer_ok j (K_tmrBuffer k j) (inq (K_wuITmr k) j) (inq (K_wuHTmr k) j)"
    and i: "timer_ok i (K_tmrBuffer k i) (is_itimer i k) (\<not> is_itimer i k)" "\<not> inq (K_wuITmr k) i" "\<not> inq (K_wuHTmr k) i"
    and pos: "\<not> is_itimer i k \<Longrightarrow> counter (K_wuHTmr k) i = 0 \<Longrightarrow> period k i = None"
  shows "\<exists>k'. timer_enqueue i now k = Some k' \<and> timers_ok k' \<and> K_tmrBuffer k' = K_tmrBuffer k \<and>
    is_agenda (K_wuHTmr k') (if is_itimer i k then hag else agenda_insert i (unat (counter (K_wuHTmr k) i)) hag)"
proof -
  from timer_enqueue_ok [OF assms(1,2) i(2,3), of now] obtain k' iag' where k': "timer_enqueue i now k = Some k'"
    "is_agenda (K_wuITmr k') iag'"
    "is_agenda (K_wuHTmr k') (if is_itimer i k then hag else agenda_insert i (unat (counter (K_wuHTmr k) i)) hag)"
    "\<forall>j. inq (K_wuITmr k') j \<longleftrightarrow> inq (K_wuITmr k) j \<or> (j = i \<and> is_itimer i k)"
    "\<forall>j. inq (K_wuHTmr k') j \<longleftrightarrow> inq (K_wuHTmr k) j \<or> (j = i \<and> \<not> is_itimer i k)"
    "K_tmrBuffer k' = K_tmrBuffer k" "K_resrcTmr k' = K_resrcTmr k"
    by (elim exE conjE) (rule that)
  have period: "period k' = period k" by (simp add: fun_eq_iff period_def k'(6))
  have "timers_ok k'"
  proof (rule timers_okI [OF k'(2,3)])
    show "period k' (fst e) = None" if "e \<in> set (if is_itimer i k then hag else agenda_insert i (unat (counter (K_wuHTmr k) i)) hag)" "snd e = 0" for e
      using that assms(3) pos by (auto simp: period unat_eq_zero split: if_splits)
    have "pool_ok k' = pool_ok k" by (rule pool_ok_cong) (simp_all add: k')
    then show "pool_ok k'" using assms(4) by simp
    show "timer_ok j (K_tmrBuffer k' j) (inq (K_wuITmr k') j) (inq (K_wuHTmr k') j)" for j
      using assms(5) [of j] i by (cases "j = i") (simp_all add: k'(4-6))
  qed
  then show ?thesis using k'(1,3,6) by blast
qed

text \<open>A timer of a well-formed state off its queue, as it is before it is started again.\<close>

lemma timer_off_queue:
  assumes "timers_ok k" "is_agenda (K_wuHTmr k) hag" "k1 = (if running (K_tmrBuffer k i) then timer_dequeue i now k else k)"
  obtains iag where "is_agenda (K_wuITmr k1) iag" "is_agenda (K_wuHTmr k1) (agenda_remove i hag)"
    "K_tmrBuffer k1 = K_tmrBuffer k" "K_resrcTmr k1 = K_resrcTmr k" "\<not> inq (K_wuITmr k1) i" "\<not> inq (K_wuHTmr k1) i"
    "\<forall>j. j \<noteq> i \<longrightarrow> inq (K_wuITmr k1) j = inq (K_wuITmr k) j" "\<forall>j. j \<noteq> i \<longrightarrow> inq (K_wuHTmr k1) j = inq (K_wuHTmr k) j"
proof -
  obtain iag where ag: "is_agenda (K_wuITmr k) iag" and inv: "timers_inv k"
    using assms(1) by (rule timers_okE)
  note t = timers_invD [OF inv, of i]
  show thesis
  proof (cases "running (K_tmrBuffer k i)")
    case True
    then have pre: "inq (K_wuITmr k) i \<or> inq (K_wuHTmr k) i" "inq (K_wuITmr k) i \<longleftrightarrow> is_itimer i k"
      using t(2,4) by blast+
    have k1: "k1 = timer_dequeue i now k" using True assms(3) by simp
    note d = timer_dequeue_ok [OF ag assms(2) pre t(3), of now, folded k1]
    obtain iag' where "is_agenda (K_wuITmr k1) iag'" using d(1) ..
    then show thesis
      using d(2,5,6) by - (rule that, assumption+, simp_all add: d(3,4))
  next
    case False
    then have "k1 = k" "\<not> inq (K_wuITmr k) i" "\<not> inq (K_wuHTmr k) i" using assms(3) t(4) by simp_all
    moreover from this have "agenda_remove i hag = hag" using is_agenda_inq [OF assms(2), of i] by (simp add: agenda_remove_id)
    ultimately show thesis
      using ag assms(2) by - (rule that [of iag], simp_all)
  qed
qed

text \<open>
  A timer is taken off its queue if it runs, given new parameters and a new count, and put
  back.
\<close>

lemma timer_requeue_ok:
  assumes "timers_ok k" "is_agenda (K_wuHTmr k) hag" "TIMER_ucType (K_tmrBuffer k i) \<noteq> LW_TYPE_TIMER_UNUSED"
    and f: "TIMER_ucType (f (K_tmrBuffer k i)) = TIMER_ucType (K_tmrBuffer k i)" "TIMER_usIndex (f (K_tmrBuffer k i)) = TIMER_usIndex (K_tmrBuffer k i)"
      "TIMER_monoResrcList (f (K_tmrBuffer k i)) = TIMER_monoResrcList (K_tmrBuffer k i)" "running (f (K_tmrBuffer k i))"
      "TIMER_cbRoutine (f (K_tmrBuffer k i)) \<noteq> None"
      "TIMER_ulOption (f (K_tmrBuffer k i)) AND LW_OPTION_AUTO_RESTART \<noteq> 0 \<Longrightarrow> TIMER_ulCounterSave (f (K_tmrBuffer k i)) \<noteq> 0 \<and> c \<noteq> 0"
    and k1_def: "k1 = (if running (K_tmrBuffer k i) then timer_dequeue i now k else k)"
  shows "\<exists>k'. timer_enqueue i now' (upd_timer i f (set_timer_counter i c k1)) = Some k' \<and> timers_ok k' \<and>
    K_tmrBuffer k' = (K_tmrBuffer k)(i := f (K_tmrBuffer k i)) \<and>
    is_agenda (K_wuHTmr k') (if is_itimer i k then agenda_remove i hag else agenda_insert i (unat c) (agenda_remove i hag))"
proof -
  obtain iag where k1: "is_agenda (K_wuITmr k1) iag" "is_agenda (K_wuHTmr k1) (agenda_remove i hag)"
    "K_tmrBuffer k1 = K_tmrBuffer k" "K_resrcTmr k1 = K_resrcTmr k" "\<not> inq (K_wuITmr k1) i" "\<not> inq (K_wuHTmr k1) i"
    "\<forall>j. j \<noteq> i \<longrightarrow> inq (K_wuITmr k1) j = inq (K_wuITmr k) j" "\<forall>j. j \<noteq> i \<longrightarrow> inq (K_wuHTmr k1) j = inq (K_wuHTmr k) j"
    using assms(1,2) k1_def by (rule timer_off_queue)
  let ?k = "upd_timer i f (set_timer_counter i c k1)"
  have inv: "timers_inv k" using assms(1) by (simp add: timers_ok_def)
  have it: "is_itimer i ?k = is_itimer i k" "is_itimer i k1 = is_itimer i k" by (simp_all add: is_itimer_def k1(3) f)
  have "\<exists>k'. timer_enqueue i now' ?k = Some k' \<and> timers_ok k' \<and> K_tmrBuffer k' = K_tmrBuffer ?k \<and>
      is_agenda (K_wuHTmr k') (if is_itimer i ?k then agenda_remove i hag else agenda_insert i (unat (counter (K_wuHTmr ?k) i)) (agenda_remove i hag))"
  proof (rule timer_enqueue_started)
    show "is_agenda (K_wuITmr ?k) iag" "is_agenda (K_wuHTmr ?k) (agenda_remove i hag)"
      using k1 by (simp_all add: set_timer_counter_agenda)
    show "\<forall>e \<in> set (agenda_remove i hag). snd e = 0 \<longrightarrow> period ?k (fst e) = None"
      using hqueue_ok_agenda [OF assms(1,2)] by (simp add: agenda_remove_def period_def k1(3))
    have "pool_ok ?k = pool_ok k" by (rule pool_ok_cong) (simp_all add: k1 f)
    then show "pool_ok ?k" using inv by (simp add: timers_inv_pool)
    show "timer_ok j (K_tmrBuffer ?k j) (inq (K_wuITmr ?k) j) (inq (K_wuHTmr ?k) j)" if "j \<noteq> i" for j
      using timers_invD(1) [OF inv, of j] that by (simp add: k1)
    show "timer_ok i (K_tmrBuffer ?k i) (is_itimer i ?k) (\<not> is_itimer i ?k)"
      using timers_invD(1) [OF inv, of i] assms(3) f
      by (cases "TIMER_ucType (K_tmrBuffer k i)") (simp_all add: timer_ok_def it k1(3), simp_all add: is_itimer_def)
    show "\<not> inq (K_wuITmr ?k) i" "\<not> inq (K_wuHTmr ?k) i" using k1 by simp_all
    show "period ?k i = None" if "\<not> is_itimer i ?k" "counter (K_wuHTmr ?k) i = 0"
      using that it f(6) by (auto simp: period_def k1(3) Let_def)
  qed
  moreover have "K_tmrBuffer ?k = (K_tmrBuffer k)(i := f (K_tmrBuffer k i))" by (simp add: fun_eq_iff k1(3))
  moreover have "counter (K_wuHTmr ?k) i = c" if "\<not> is_itimer i k" using that it(2) by simp
  ultimately show ?thesis by (simp add: it split: if_splits)
qed

lemma API_TimerStartEx_started:
  assumes "timers_ok k" "is_agenda (K_wuHTmr k) hag" "timer_handle ulId k = Inr i" "cbTimerRoutine \<noteq> None" "ulInitCounter \<noteq> 0"
    "ulOption AND LW_OPTION_AUTO_RESTART \<noteq> 0 \<Longrightarrow> ulCounter \<noteq> 0"
  shows "\<exists>k'. API_TimerStartEx ulId ulInitCounter ulCounter ulOption cbTimerRoutine pvArg now now' k = Some (ERROR_NONE, k') \<and> timers_ok k' \<and>
    K_tmrBuffer k' = (K_tmrBuffer k)(i := (K_tmrBuffer k i)\<lparr>TIMER_ulCounterSave := ulCounter, TIMER_ulOption := ulOption,
      TIMER_ucStatus := LW_TIMER_STATUS_RUNNING, TIMER_cbRoutine := cbTimerRoutine, TIMER_pvArg := pvArg, TIMER_u64Overrun := 0\<rparr>) \<and>
    is_agenda (K_wuHTmr k') (if is_itimer i k then agenda_remove i hag else agenda_insert i (unat ulInitCounter) (agenda_remove i hag))"
proof -
  let ?f = "\<lambda>t. t\<lparr>TIMER_ulCounterSave := ulCounter, TIMER_ulOption := ulOption, TIMER_ucStatus := LW_TIMER_STATUS_RUNNING,
             TIMER_cbRoutine := cbTimerRoutine, TIMER_pvArg := pvArg, TIMER_u64Overrun := 0\<rparr>"
  have "\<exists>k'. timer_enqueue i now' (upd_timer i ?f (set_timer_counter i ulInitCounter
      (if running (K_tmrBuffer k i) then timer_dequeue i now k else k))) = Some k' \<and> timers_ok k' \<and>
    K_tmrBuffer k' = (K_tmrBuffer k)(i := ?f (K_tmrBuffer k i)) \<and>
    is_agenda (K_wuHTmr k') (if is_itimer i k then agenda_remove i hag else agenda_insert i (unat ulInitCounter) (agenda_remove i hag))"
    by (rule timer_requeue_ok [OF assms(1,2) _ _ _ _ _ _ _ refl]) (use timer_handle_Inr [OF assms(3)] assms(4-) in auto)
  then show ?thesis
    using assms(3-) by (auto simp: API_TimerStartEx_def Let_def)
qed

lemma API_TimerStartEx_ok:
  assumes "timers_ok k"
  shows "\<exists>e k'. API_TimerStartEx ulId ulInitCounter ulCounter ulOption cbTimerRoutine pvArg now now' k = Some (e, k') \<and> timers_ok k' \<and>
    (e \<noteq> ERROR_NONE \<longrightarrow> k' = k)"
proof (cases "cbTimerRoutine = None \<or> ulInitCounter = 0 \<or> ulOption AND LW_OPTION_AUTO_RESTART \<noteq> 0 \<and> ulCounter = 0")
  case True
  then show ?thesis using assms by (auto simp: API_TimerStartEx_def)
next
  case False
  obtain hag where hag: "is_agenda (K_wuHTmr k) hag" using assms by (auto simp: timers_ok_def hqueue_ok_def)
  show ?thesis
  proof (cases "timer_handle ulId k")
    case (Inl e)
    then show ?thesis using False assms by (simp add: API_TimerStartEx_def)
  next
    case (Inr i)
    then show ?thesis
      using API_TimerStartEx_started [OF assms hag Inr, of cbTimerRoutine ulInitCounter ulOption ulCounter pvArg now now'] False by auto
  qed
qed

lemma API_TimerReset_restarted:
  assumes "timers_ok k" "is_agenda (K_wuHTmr k) hag" "timer_handle ulId k = Inr i" "running (K_tmrBuffer k i)"
  shows "\<exists>k'. API_TimerReset ulId now now' k = Some (ERROR_NONE, k') \<and> timers_ok k' \<and> K_tmrBuffer k' = K_tmrBuffer k \<and>
    is_agenda (K_wuHTmr k') (if is_itimer i k then agenda_remove i hag
      else agenda_insert i (unat (TIMER_ulCounterSave (K_tmrBuffer k i))) (agenda_remove i hag))"
proof -
  have inv: "timers_inv k" using assms by (simp add: timers_ok_def)
  have id: "upd_timer i (\<lambda>t. t) k = k" for k by (simp add: upd_timer_def)
  have buf: "K_tmrBuffer (timer_dequeue i now k) = K_tmrBuffer k" by (simp add: timer_dequeue_def)
  have "\<exists>k'. timer_enqueue i now' (upd_timer i (\<lambda>t. t) (set_timer_counter i (TIMER_ulCounterSave (K_tmrBuffer k i))
      (timer_dequeue i now k))) = Some k' \<and> timers_ok k' \<and> K_tmrBuffer k' = (K_tmrBuffer k)(i := K_tmrBuffer k i) \<and>
    is_agenda (K_wuHTmr k') (if is_itimer i k then agenda_remove i hag
      else agenda_insert i (unat (TIMER_ulCounterSave (K_tmrBuffer k i))) (agenda_remove i hag))"
    by (rule timer_requeue_ok [OF assms(1,2)])
      (use timer_handle_Inr [OF assms(3)] assms(4) timers_invD(1) [OF inv, of i] in \<open>auto simp: timer_ok_def\<close>)
  then show ?thesis
    using assms(3,4) by (auto simp: API_TimerReset_def Let_def id buf)
qed

lemma API_TimerReset_ok:
  assumes "timers_ok k"
  shows "\<exists>e k'. API_TimerReset ulId now now' k = Some (e, k') \<and> timers_ok k' \<and> (e \<noteq> ERROR_NONE \<longrightarrow> k' = k)"
proof (cases "timer_handle ulId k")
  case (Inl e)
  then show ?thesis using assms by (simp add: API_TimerReset_def)
next
  case (Inr i)
  obtain hag where hag: "is_agenda (K_wuHTmr k) hag" using assms by (auto simp: timers_ok_def hqueue_ok_def)
  show ?thesis
  proof (cases "TIMER_ucStatus (K_tmrBuffer k i)")
    case LW_TIMER_STATUS_STOP
    then show ?thesis using assms Inr by (simp add: API_TimerReset_def)
  next
    case LW_TIMER_STATUS_RUNNING
    then show ?thesis using API_TimerReset_restarted [OF assms hag Inr, of now now'] by auto
  qed
qed

lemma list_mono_free_seq_fields [simp]:
  "K_wuITmr (list_mono_free_seq p k) = K_wuITmr k" "K_wuHTmr (list_mono_free_seq p k) = K_wuHTmr k"
  "RESRC_uiUsed (K_resrcTmr (list_mono_free_seq p k)) = RESRC_uiUsed (K_resrcTmr k)"
  by (simp_all add: list_mono_free_seq_def Let_def split: option.split)

lemma list_mono_free_seq_timer:
  "\<exists>m. K_tmrBuffer (list_mono_free_seq p k) j = (K_tmrBuffer k j)\<lparr>TIMER_monoResrcList := m\<rparr>"
  by (simp add: list_mono_free_seq_def Let_def split: option.split) (metis timer.surjective timer.update_convs(1))

lemma Free_Timer_Object_fields:
  "K_tmrBuffer (Free_Timer_Object p k) = K_tmrBuffer (list_mono_free_seq p k)"
  "K_wuITmr (Free_Timer_Object p k) = K_wuITmr k" "K_wuHTmr (Free_Timer_Object p k) = K_wuHTmr k"
  by (simp_all add: Free_Timer_Object_def Let_def)

lemma timer_ok_mono [simp]: "timer_ok i (t\<lparr>TIMER_monoResrcList := m\<rparr>) qi qh = timer_ok i t qi qh"
  by (simp add: timer_ok_def)

lemma Free_Timer_Object_ok:
  assumes "pool_ok k" "i < LW_CFG_MAX_TIMERS" "TIMER_ucType (K_tmrBuffer k i) \<noteq> LW_TYPE_TIMER_UNUSED"
  shows "pool_ok (Free_Timer_Object i (upd_timer i (TIMER_ucType_update (\<lambda>_. LW_TYPE_TIMER_UNUSED)) k))"
proof -
  let ?k1 = "upd_timer i (TIMER_ucType_update (\<lambda>_. LW_TYPE_TIMER_UNUSED)) k"
  let ?k2 = "list_mono_free_seq i ?k1"
  obtain fr where fr: "pool k fr" "\<forall>j. j \<in> set fr \<longleftrightarrow> j < LW_CFG_MAX_TIMERS \<and> TIMER_ucType (K_tmrBuffer k j) = LW_TYPE_TIMER_UNUSED"
    "unat (RESRC_uiUsed (K_resrcTmr k)) + length fr = LW_CFG_MAX_TIMERS"
    using assms(1) by (auto simp: pool_ok_def)
  have i: "i \<notin> set fr" using fr(2) assms(3) by simp
  have "pool ?k1 fr = pool k fr" by (rule pool_cong) simp_all
  then have pool: "pool ?k2 (fr @ [i])" using fr(1) i by (simp add: pool_free)
  have "TIMER_ucType (K_tmrBuffer ?k2 j) = TIMER_ucType (K_tmrBuffer ?k1 j)" for j
    using list_mono_free_seq_timer [of i ?k1 j] by auto
  then have types: "\<forall>j. j \<in> set (fr @ [i]) \<longleftrightarrow> j < LW_CFG_MAX_TIMERS \<and> TIMER_ucType (K_tmrBuffer ?k2 j) = LW_TYPE_TIMER_UNUSED"
    using fr(2) assms(2) by auto
  have "set fr \<subset> {..<LW_CFG_MAX_TIMERS}" using fr(2) i assms(2) by auto
  then have "length fr < LW_CFG_MAX_TIMERS"
    using psubset_card_mono [of "{..<LW_CFG_MAX_TIMERS}" "set fr"] fr(1) by (simp add: pool_def distinct_card)
  then have "RESRC_uiUsed (K_resrcTmr k) \<noteq> 0" using fr(3) by auto
  then have "unat (RESRC_uiUsed (K_resrcTmr k) - 1) + length (fr @ [i]) = LW_CFG_MAX_TIMERS"
    using fr(3) unat_gt_0 [of "RESRC_uiUsed (K_resrcTmr k)"] by (simp add: unat_minus_one)
  then show ?thesis
    using pool types unfolding pool_ok_def Free_Timer_Object_def Let_def
    by (intro exI [of _ "fr @ [i]"]) (simp add: pool_def)
qed

lemma API_TimerDelete_ok:
  assumes "timers_ok k"
  shows "timers_ok (snd (API_TimerDelete inISR ulId now k))"
proof (cases "inISR \<or> (\<exists>e. timer_handle ulId k = Inl e)")
  case True
  then show ?thesis using assms by (auto simp: API_TimerDelete_def)
next
  case False
  then obtain i where i: "\<not> inISR" "timer_handle ulId k = Inr i" by (cases "timer_handle ulId k") auto
  define k1 where "k1 = (if TIMER_ucStatus (K_tmrBuffer k i) = LW_TIMER_STATUS_STOP then k else timer_stop i now k)"
  have run: "running (K_tmrBuffer k i) \<longleftrightarrow> TIMER_ucStatus (K_tmrBuffer k i) \<noteq> LW_TIMER_STATUS_STOP"
    by (cases "TIMER_ucStatus (K_tmrBuffer k i)") simp_all
  have k1: "timers_ok k1" "\<not> running (K_tmrBuffer k1 i)" "TIMER_ucType (K_tmrBuffer k1 i) = TIMER_ucType (K_tmrBuffer k i)"
    using assms run timer_stop_ok [OF assms, of i now] by (auto simp: k1_def)
  note h = timer_handle_Inr [OF i(2)]
  obtain iag hag where ag: "is_agenda (K_wuITmr k1) iag" "is_agenda (K_wuHTmr k1) hag"
    "\<forall>e \<in> set hag. snd e = 0 \<longrightarrow> period k1 (fst e) = None" and inv: "timers_inv k1"
    using k1(1) by (rule timers_okE)
  let ?k2 = "upd_timer i (TIMER_ucType_update (\<lambda>_. LW_TYPE_TIMER_UNUSED)) k1"
  let ?k' = "Free_Timer_Object i ?k2"
  have buf: "\<exists>m. K_tmrBuffer ?k' j = (K_tmrBuffer ?k2 j)\<lparr>TIMER_monoResrcList := m\<rparr>" for j
    using list_mono_free_seq_timer [of i ?k2 j] unfolding Free_Timer_Object_fields .
  have q: "K_wuITmr ?k' = K_wuITmr k1" "K_wuHTmr ?k' = K_wuHTmr k1" by (simp_all add: Free_Timer_Object_fields)
  have "timers_ok ?k'"
  proof (rule timers_okI)
    show "is_agenda (K_wuITmr ?k') iag" "is_agenda (K_wuHTmr ?k') hag" using ag by (simp_all add: q)
    have "period ?k' j = period k1 j" for j using buf [of j] by (auto simp: period_def)
    then show "period ?k' (fst e) = None" if "e \<in> set hag" "snd e = 0" for e using ag(3) that by simp
    show "pool_ok ?k'" using Free_Timer_Object_ok [OF timers_inv_pool [OF inv]] h k1(3) by simp
    show "timer_ok j (K_tmrBuffer ?k' j) (inq (K_wuITmr ?k') j) (inq (K_wuHTmr ?k') j)" for j
    proof -
      have "timer_ok j (K_tmrBuffer ?k2 j) (inq (K_wuITmr k1) j) (inq (K_wuHTmr k1) j)"
        using timers_invD(1) [OF inv, of j] k1(2) by (cases "j = i") (simp_all add: timer_ok_def)
      then show ?thesis using buf [of j] q by auto
    qed
  qed
  then show ?thesis using i by (simp add: API_TimerDelete_def k1_def Let_def)
qed

lemma Allocate_Timer_Object_ok:
  assumes "pool_ok k" "Allocate_Timer_Object k = (Some i, k')"
  shows "i < LW_CFG_MAX_TIMERS" "TIMER_ucType (K_tmrBuffer k i) = LW_TYPE_TIMER_UNUSED"
    "K_tmrBuffer k' = K_tmrBuffer k" "K_wuITmr k' = K_wuITmr k" "K_wuHTmr k' = K_wuHTmr k"
    "TIMER_ucType t \<noteq> LW_TYPE_TIMER_UNUSED \<Longrightarrow> K_resrcTmr k'' = K_resrcTmr k' \<Longrightarrow> K_tmrBuffer k'' = (K_tmrBuffer k)(i := t) \<Longrightarrow> pool_ok k''"
proof -
  obtain fr where fr: "pool k fr" "\<forall>j. j \<in> set fr \<longleftrightarrow> j < LW_CFG_MAX_TIMERS \<and> TIMER_ucType (K_tmrBuffer k j) = LW_TYPE_TIMER_UNUSED"
    "unat (RESRC_uiUsed (K_resrcTmr k)) + length fr = LW_CFG_MAX_TIMERS"
    using assms(1) by (auto simp: pool_ok_def)
  then obtain p fr' where p: "fr = p # fr'"
    using assms(2) by (cases fr) (auto simp: Allocate_Timer_Object_def pool_def)
  obtain k1 where k1: "list_mono_allocate_seq k = Some (p, k1)" "pool k1 fr'" "K_tmrBuffer k1 = K_tmrBuffer k"
    "K_wuITmr k1 = K_wuITmr k" "K_wuHTmr k1 = K_wuHTmr k" "RESRC_uiUsed (K_resrcTmr k1) = RESRC_uiUsed (K_resrcTmr k)"
    using pool_allocate [of k p fr'] fr(1) p by blast
  have header: "RESRC_pmonoFreeHeader (K_resrcTmr k) \<noteq> None" using fr(1) p by (simp add: pool_def)
  then have k': "i = p" "K_tmrBuffer k' = K_tmrBuffer k1" "K_wuITmr k' = K_wuITmr k1" "K_wuHTmr k' = K_wuHTmr k1"
    "RESRC_pmonoFreeHeader (K_resrcTmr k') = RESRC_pmonoFreeHeader (K_resrcTmr k1)"
    "RESRC_pmonoFreeTail (K_resrcTmr k') = RESRC_pmonoFreeTail (K_resrcTmr k1)"
    "RESRC_uiUsed (K_resrcTmr k') = RESRC_uiUsed (K_resrcTmr k) + 1"
    using assms(2) k1(1,6) by (auto simp: Allocate_Timer_Object_def Let_def)
  then show "i < LW_CFG_MAX_TIMERS" "TIMER_ucType (K_tmrBuffer k i) = LW_TYPE_TIMER_UNUSED"
    "K_tmrBuffer k' = K_tmrBuffer k" "K_wuITmr k' = K_wuITmr k" "K_wuHTmr k' = K_wuHTmr k"
    using fr(2) p k1 by auto
  assume t: "TIMER_ucType t \<noteq> LW_TYPE_TIMER_UNUSED" and k'': "K_resrcTmr k'' = K_resrcTmr k'" "K_tmrBuffer k'' = (K_tmrBuffer k)(i := t)"
  have d: "p \<notin> set fr'" using fr(1) p by (simp add: pool_def)
  have "mono_chain (\<lambda>j. TIMER_monoResrcList (K_tmrBuffer k'' j)) fr' = mono_chain (\<lambda>j. TIMER_monoResrcList (K_tmrBuffer k1 j)) fr'"
    using d by (intro mono_chain_cong) (auto simp: k'' k' k1)
  then have "pool k'' fr'" using k1(2) by (simp add: pool_def k'' k')
  moreover have "\<forall>j. j \<in> set fr' \<longleftrightarrow> j < LW_CFG_MAX_TIMERS \<and> TIMER_ucType (K_tmrBuffer k'' j) = LW_TYPE_TIMER_UNUSED"
    using fr(2) d t by (auto simp: k'' k' p)
  moreover have "unat (RESRC_uiUsed (K_resrcTmr k) + 1) = unat (RESRC_uiUsed (K_resrcTmr k)) + 1"
    using fr(3) by (intro unat_plus_one_less [of _ "0xffff"]) (simp add: word_less_nat_alt LW_CFG_MAX_TIMERS_def)
  ultimately show "pool_ok k''"
    unfolding pool_ok_def using fr(3) p by (intro exI [of _ fr']) (simp add: k'' k')
qed

lemma inq_node_init: "inq (WAKEUP_NODE_INIT i w) j \<longleftrightarrow> j \<noteq> i \<and> inq w j"
  by (simp add: WAKEUP_NODE_INIT_def)

lemma API_TimerCreate_ok:
  assumes "timers_ok k"
  shows "timers_ok (snd (API_TimerCreate inISR pcName ulOption k))"
proof (cases "inISR \<or> Object_Name_Invalid pcName \<or> fst (Allocate_Timer_Object k) = None")
  case True
  moreover have "snd (Allocate_Timer_Object k) = k" if "fst (Allocate_Timer_Object k) = None"
    using that by (auto simp: Allocate_Timer_Object_def Let_def split: option.splits if_splits)
  ultimately show ?thesis using assms by (auto simp: API_TimerCreate_def split: prod.split)
next
  case False
  then obtain i k1 where a: "Allocate_Timer_Object k = (Some i, k1)" by (cases "Allocate_Timer_Object k") auto
  obtain iag hag where ag: "is_agenda (K_wuITmr k) iag" "is_agenda (K_wuHTmr k) hag"
    "\<forall>e \<in> set hag. snd e = 0 \<longrightarrow> period k (fst e) = None" and inv: "timers_inv k"
    using assms by (rule timers_okE)
  note A = Allocate_Timer_Object_ok [OF timers_inv_pool [OF inv] a]
  define k' where "k' = snd (API_TimerCreate inISR pcName ulOption k)"
  have off: "\<not> inq (K_wuITmr k) i" "\<not> inq (K_wuHTmr k) i"
    using timers_invD(1) [OF inv, of i] A(2) by (simp_all add: timer_ok_def)
  have q: "K_wuITmr k' \<in> {K_wuITmr k, WAKEUP_NODE_INIT i (K_wuITmr k)}" "K_wuHTmr k' \<in> {K_wuHTmr k, WAKEUP_NODE_INIT i (K_wuHTmr k)}"
    using False a by (auto simp: k'_def API_TimerCreate_def Let_def timer_node_update_def A)
  have r: "K_resrcTmr k' = K_resrcTmr k1"
    using False a by (simp add: k'_def API_TimerCreate_def Let_def timer_node_update_def)
  have buf: "K_tmrBuffer k' = (K_tmrBuffer k)(i := K_tmrBuffer k' i)"
    using False a by (auto simp: fun_eq_iff k'_def API_TimerCreate_def Let_def timer_node_update_def A)
  have t: "TIMER_ucType (K_tmrBuffer k' i) \<noteq> LW_TYPE_TIMER_UNUSED" "\<not> running (K_tmrBuffer k' i)" "TIMER_ulOption (K_tmrBuffer k' i) = 0"
    "TIMER_usIndex (K_tmrBuffer k' i) = TIMER_usIndex (K_tmrBuffer k i)"
    using False a by (auto simp: k'_def API_TimerCreate_def Let_def timer_node_update_def A)
  have inq: "inq (K_wuITmr k') j = inq (K_wuITmr k) j" "inq (K_wuHTmr k') j = inq (K_wuHTmr k) j" for j
    using q off by (auto simp: inq_node_init)
  have "timers_ok k'"
  proof (rule timers_okI)
    show "is_agenda (K_wuITmr k') iag" "is_agenda (K_wuHTmr k') hag"
      using q ag off by (auto simp: is_agenda_node_init is_agenda_inq)
    have i: "i \<notin> fst ` set hag" using off(2) is_agenda_inq [OF ag(2), of i] by simp
    show "period k' (fst e) = None" if "e \<in> set hag" "snd e = 0" for e
    proof -
      have "fst e \<noteq> i" using i that by auto
      then have "K_tmrBuffer k' (fst e) = K_tmrBuffer k (fst e)" by (subst buf) simp
      then show ?thesis using ag(3) that by (simp add: period_def)
    qed
    show "pool_ok k'" using A(6) [OF t(1) r buf] .
    show "timer_ok j (K_tmrBuffer k' j) (inq (K_wuITmr k') j) (inq (K_wuHTmr k') j)" for j
    proof (cases "j = i")
      case True
      then show ?thesis using timers_invD(1) [OF inv, of i] t off A(1) by (simp add: timer_ok_def inq)
    next
      case False
      then have "K_tmrBuffer k' j = K_tmrBuffer k j" by (subst buf) simp
      then show ?thesis using timers_invD(1) [OF inv, of j] by (simp add: inq)
    qed
  qed
  then show ?thesis by (simp add: k'_def)
qed

section \<open>The initial state\<close>

definition zero_timer :: timer where
  "zero_timer = \<lparr> TIMER_monoResrcList = None, TIMER_ucType = LW_TYPE_TIMER_UNUSED, TIMER_ulCounterSave = 0, TIMER_ulOption = 0,
     TIMER_ucStatus = LW_TIMER_STATUS_STOP, TIMER_cbRoutine = None, TIMER_pvArg = 0, TIMER_usIndex = 0, TIMER_ulThreadId = 0,
     TIMER_u64Overrun = 0, TIMER_clockid = 0, TIMER_pvTimerfd = None, TIMER_cTmrName = [] \<rparr>"

text \<open>The static data of the kernel before its initialization.\<close>

definition zero_ktimers :: ktimers where
  "zero_ktimers = \<lparr> K_tmrBuffer = (\<lambda>_. zero_timer),
     K_resrcTmr = \<lparr> RESRC_pmonoFreeHeader = None, RESRC_pmonoFreeTail = None, RESRC_uiUsed = 0, RESRC_uiMaxUsed = 0 \<rparr>,
     K_wuITmr = idle_queue (\<lambda>_. 0), K_wuHTmr = idle_queue (\<lambda>_. 0), K_calls = [] \<rparr>"

lemma fold_init_timer:
  "K_tmrBuffer (fold (\<lambda>i. init_timer i (Some (Suc i))) [0..<n] k) j = (if j < n then (K_tmrBuffer k j)
     \<lparr>TIMER_ucType := LW_TYPE_TIMER_UNUSED, TIMER_usIndex := of_nat j, TIMER_monoResrcList := Some (Suc j)\<rparr> else K_tmrBuffer k j)"
  "K_resrcTmr (fold (\<lambda>i. init_timer i (Some (Suc i))) [0..<n] k) = K_resrcTmr k"
  "K_wuITmr (fold (\<lambda>i. init_timer i (Some (Suc i))) [0..<n] k) = K_wuITmr k"
  "K_wuHTmr (fold (\<lambda>i. init_timer i (Some (Suc i))) [0..<n] k) = K_wuHTmr k"
  by (induction n) (auto simp: init_timer_def)

lemma mono_chain_upt:
  assumes "\<And>i. i < n \<Longrightarrow> nx i = Some (Suc i)" "nx n = None" "m \<le> n"
  shows "mono_chain nx [m..<Suc n]"
  using assms(3)
proof (induction "n - m" arbitrary: m)
  case 0
  then show ?case using assms(2) by simp
next
  case (Suc d)
  then have m: "m < n" by linarith
  then have "[m..<Suc n] = m # Suc m # [Suc (Suc m)..<Suc n]" "[Suc m..<Suc n] = Suc m # [Suc (Suc m)..<Suc n]"
    by (simp_all add: upt_conv_Cons del: upt_Suc)
  moreover have "mono_chain nx [Suc m..<Suc n]" by (rule Suc(1)) (use Suc(2) m in simp_all)
  ultimately show ?case using assms(1) [OF m] by simp
qed

lemma TimerInit_fields:
  "K_wuHTmr (TimerInit k) = WAKEUP_INIT False (K_wuHTmr k)" "K_wuITmr (TimerInit k) = WAKEUP_INIT True (K_wuITmr k)"
  "RESRC_uiUsed (K_resrcTmr (TimerInit k)) = 0" "RESRC_pmonoFreeHeader (K_resrcTmr (TimerInit k)) = Some 0"
  "RESRC_pmonoFreeTail (K_resrcTmr (TimerInit k)) = Some (LW_CFG_MAX_TIMERS - 1)"
  "K_tmrBuffer (TimerInit k) j = (if j < LW_CFG_MAX_TIMERS then (K_tmrBuffer k j)\<lparr>TIMER_ucType := LW_TYPE_TIMER_UNUSED,
     TIMER_usIndex := of_nat j, TIMER_monoResrcList := (if j < LW_CFG_MAX_TIMERS - 1 then Some (Suc j) else None)\<rparr> else K_tmrBuffer k j)"
proof -
  note d = TimerInit_def [of k, unfolded init_timer_def [of "LW_CFG_MAX_TIMERS - 1"]]
  show "K_wuHTmr (TimerInit k) = WAKEUP_INIT False (K_wuHTmr k)" "K_wuITmr (TimerInit k) = WAKEUP_INIT True (K_wuITmr k)"
    "RESRC_uiUsed (K_resrcTmr (TimerInit k)) = 0" "RESRC_pmonoFreeHeader (K_resrcTmr (TimerInit k)) = Some 0"
    "RESRC_pmonoFreeTail (K_resrcTmr (TimerInit k)) = Some (LW_CFG_MAX_TIMERS - 1)"
    unfolding d Let_def by (simp_all add: fold_init_timer)
  have "j = 49 \<or> j < 49 \<or> 49 < j" by linarith
  then show "K_tmrBuffer (TimerInit k) j = (if j < LW_CFG_MAX_TIMERS then (K_tmrBuffer k j)\<lparr>TIMER_ucType := LW_TYPE_TIMER_UNUSED,
     TIMER_usIndex := of_nat j, TIMER_monoResrcList := (if j < LW_CFG_MAX_TIMERS - 1 then Some (Suc j) else None)\<rparr> else K_tmrBuffer k j)"
    unfolding d Let_def by (auto simp: fold_init_timer LW_CFG_MAX_TIMERS_def)
qed

lemma TimerInit_ok: "timers_ok (TimerInit zero_ktimers)"
proof (rule timers_okI)
  let ?k = "TimerInit zero_ktimers"
  have idle: "is_agenda (WAKEUP_INIT b (idle_queue c)) []" "\<not> inq (WAKEUP_INIT b (idle_queue c)) j" for b j and c :: "addr \<Rightarrow> ulong"
    by (simp_all add: is_agenda_def WAKEUP_INIT_def idle_queue_def is_line_def)
  show "is_agenda (K_wuITmr ?k) []" "is_agenda (K_wuHTmr ?k) []"
    by (simp_all add: TimerInit_fields zero_ktimers_def idle)
  have "mono_chain (\<lambda>i. TIMER_monoResrcList (K_tmrBuffer ?k i)) [0..<Suc 49]"
    by (rule mono_chain_upt) (simp_all add: TimerInit_fields(6) LW_CFG_MAX_TIMERS_def)
  moreover have "hd [0..<50] = (0::nat)" "last [0..<50] = (49::nat)" by (simp_all add: upt_rec)
  ultimately have "pool ?k [0..<LW_CFG_MAX_TIMERS]"
    by (simp add: pool_def TimerInit_fields(4,5) LW_CFG_MAX_TIMERS_def)
  then show "pool_ok ?k"
    unfolding pool_ok_def by (intro exI [of _ "[0..<LW_CFG_MAX_TIMERS]"]) (simp add: TimerInit_fields(3,6))
  show "timer_ok j (K_tmrBuffer ?k j) (inq (K_wuITmr ?k) j) (inq (K_wuHTmr ?k) j)" for j
    by (simp add: TimerInit_fields zero_ktimers_def idle timer_ok_def zero_timer_def)
qed simp

section \<open>Ticks\<close>

lemma timers_inv_cong:
  assumes "timers_inv k" "K_wuITmr k' = K_wuITmr k" "K_resrcTmr k' = K_resrcTmr k"
    "\<And>j. TIMER_monoResrcList (K_tmrBuffer k' j) = TIMER_monoResrcList (K_tmrBuffer k j)"
    "\<And>j. TIMER_ucType (K_tmrBuffer k' j) = TIMER_ucType (K_tmrBuffer k j)"
    "\<And>j. timer_ok j (K_tmrBuffer k' j) (inq (K_wuITmr k) j) (inq (K_wuHTmr k') j)"
  shows "timers_inv k'"
  using assms pool_ok_cong [of k' k] by (simp add: timers_inv_def)

lemma period_queue [simp]: "period (K_wuHTmr_update f k) = period k"
  by (simp add: fun_eq_iff period_def)

abbreviation no_call :: "nat \<Rightarrow> nat \<Rightarrow> ktimers \<Rightarrow> ktimers" where
  "no_call \<equiv> \<lambda>_ _ k. k"

lemma timer_fire_step:
  assumes inv: "timers_inv k" and ag: "is_agenda (K_wuHTmr k) ((p, 0) # ag)" "WU_plineOp (K_wuHTmr k) \<noteq> Some p"
  shows "\<exists>k'. timer_fire K_wuHTmr_update K_wuHTmr no_call p k = Some k' \<and> timers_inv k' \<and>
    is_agenda (K_wuHTmr k') (restart (period k) ag p) \<and> WU_plineOp (K_wuHTmr k') = WU_plineOp (K_wuHTmr k) \<and>
    period k' = period k \<and> K_calls k' = K_calls k @ [p]"
proof -
  let ?w = "WakeupDel p False 0 (K_wuHTmr k)" and ?t = "K_tmrBuffer k p"
  note w = WakeupDel_first [OF ag, of 0]
  have p: "inq (K_wuHTmr k) p" "p \<notin> fst ` set ag"
    using is_agenda_inq [OF ag(1), of p] is_agendaD(3) [OF ag(1)] by auto
  have inq: "inq ?w j \<longleftrightarrow> j \<noteq> p \<and> inq (K_wuHTmr k) j" for j
    using WakeupDel_inq [OF ag(1) p(1)] .
  note tok = timers_invD(1) [OF inv]
  obtain f where f: "TIMER_cbRoutine ?t = Some f"
    using tok [of p] p(1) by (auto simp: timer_ok_def)
  show ?thesis
  proof (cases "TIMER_ulOption ?t AND LW_OPTION_AUTO_RESTART = 0")
    case True
    let ?k' = "upd_timer p (TIMER_ucStatus_update (\<lambda>_. LW_TIMER_STATUS_STOP)) (K_wuHTmr_update (\<lambda>_. ?w) k)\<lparr>K_calls := K_calls k @ [p]\<rparr>"
    have "timer_fire K_wuHTmr_update K_wuHTmr no_call p k = Some ?k'"
      using True f by (simp add: timer_fire_def Let_def upd_timer_def)
    moreover have "timers_inv ?k'"
      by (rule timers_inv_cong [OF inv]) (use tok p(1) in \<open>auto simp: inq timer_ok_def\<close>)
    moreover have "period ?k' = period k" by (auto simp: fun_eq_iff period_def Let_def)
    ultimately show ?thesis
      using w True by (intro exI [of _ ?k']) (simp add: restart_def period_def)
  next
    case False
    let ?w1 = "set_counter p (TIMER_ulCounterSave ?t) ?w"
    have "is_agenda ?w1 ag" "counter ?w1 p = TIMER_ulCounterSave ?t"
      using is_agenda_set_counter [OF w(1) p(2)] by simp_all
    from WakeupAdd_agenda [OF this(1) p(2), of False 0] this(2)
    obtain w' where w': "WakeupAdd p False 0 ?w1 = Some w'" "is_agenda w' (agenda_insert p (unat (TIMER_ulCounterSave ?t)) ag)"
      "WU_plineOp w' = WU_plineOp ?w1"
      by auto
    have inq': "inq w' j \<longleftrightarrow> inq (K_wuHTmr k) j" for j
      using WakeupAdd_inq [OF \<open>is_agenda ?w1 ag\<close> _ w'(1), of j] p(1) by (auto simp: inq)
    let ?k' = "K_wuHTmr_update (\<lambda>_. w') k\<lparr>K_calls := K_calls k @ [p]\<rparr>"
    have "timer_fire K_wuHTmr_update K_wuHTmr no_call p k = Some ?k'"
      using False f w'(1) by (simp add: timer_fire_def Let_def)
    moreover have "timers_inv ?k'"
      by (rule timers_inv_cong [OF inv]) (use tok in \<open>simp_all add: inq'\<close>)
    moreover have "period ?k' = period k" by (simp add: fun_eq_iff period_def)
    ultimately show ?thesis
      using w w' False by (intro exI [of _ ?k']) (simp add: restart_def period_def)
  qed
qed

interpretation htick: tick_client K_wuHTmr K_wuHTmr_update "timer_fire K_wuHTmr_update K_wuHTmr no_call" period K_calls timers_inv
proof
  show "timers_inv (K_wuHTmr_update f k)" if "timers_inv k" "\<forall>q. inq (f (K_wuHTmr k)) q = inq (K_wuHTmr k) q" for k f
    by (rule timers_inv_cong [OF that(1)]) (use that timers_invD(1) [OF that(1)] in simp_all)
  show "0 < n" if "timers_inv k" "period k p = Some n" for k p n
  proof -
    from that(2) have "n = unat (TIMER_ulCounterSave (K_tmrBuffer k p))" "TIMER_ulOption (K_tmrBuffer k p) AND LW_OPTION_AUTO_RESTART \<noteq> 0"
      by (simp_all add: period_def Let_def split: if_splits)
    then show ?thesis using timers_invD(1) [OF that(1), of p] by (simp add: timer_ok_def unat_gt_0)
  qed
qed (simp_all add: timer_fire_step)

section \<open>A timer in use\<close>

definition sample_handle :: ulong where
  "sample_handle = 0x38010000"

definition one_timer :: ktimers where
  "one_timer = snd (API_TimerCreate False None 0 (TimerInit zero_ktimers))"

lemma sample_handle_made: "MakeObjectId OBJECT_TIMER LW_CFG_PROCESSOR_NUMBER 0 = sample_handle"
  "ObjectGetIndex sample_handle = 0" "ObjectClassOK sample_handle OBJECT_TIMER"
  by code_simp+

lemma one_timer_allocated:
  "fst (Allocate_Timer_Object (TimerInit zero_ktimers)) = Some 0"
  by (simp add: Allocate_Timer_Object_def list_mono_allocate_seq_def TimerInit_fields Let_def)

lemma one_timer_ok: "timers_ok one_timer"
  unfolding one_timer_def by (intro API_TimerCreate_ok TimerInit_ok)

lemma one_timer_type: "TIMER_ucType (K_tmrBuffer one_timer 0) = LW_TYPE_TIMER_HTIMER"
proof -
  obtain k where "Allocate_Timer_Object (TimerInit zero_ktimers) = (Some 0, k)"
    using one_timer_allocated by (cases "Allocate_Timer_Object (TimerInit zero_ktimers)") simp
  then show ?thesis by (simp add: one_timer_def API_TimerCreate_def Object_Name_Invalid_def Let_def timer_node_update_def)
qed

lemma one_timer_handle: "timer_handle sample_handle one_timer = Inr 0"
  by (simp add: timer_handle_def sample_handle_made Timer_Index_Invalid_def Timer_Type_Invalid_def LW_CFG_MAX_TIMERS_def one_timer_type)

lemma one_timer_queue: "is_agenda (K_wuHTmr one_timer) []"
proof -
  obtain k where a: "Allocate_Timer_Object (TimerInit zero_ktimers) = (Some 0, k)"
    using one_timer_allocated by (cases "Allocate_Timer_Object (TimerInit zero_ktimers)") simp
  have "pool_ok (TimerInit zero_ktimers)" using TimerInit_ok by (simp add: timers_ok_def timers_inv_def)
  from Allocate_Timer_Object_ok(5) [OF this a] have "K_wuHTmr k = WAKEUP_INIT False (idle_queue (\<lambda>_. 0))"
    by (simp add: TimerInit_fields zero_ktimers_def)
  then have "K_wuHTmr one_timer = WAKEUP_NODE_INIT 0 (WAKEUP_INIT False (idle_queue (\<lambda>_. 0)))"
    using a by (simp add: one_timer_def API_TimerCreate_def Object_Name_Invalid_def Let_def timer_node_update_def is_itimer_def)
  moreover have "is_agenda (WAKEUP_INIT False (idle_queue (\<lambda>_. 0 :: ulong))) []"
    by (simp add: is_agenda_def WAKEUP_INIT_def idle_queue_def is_line_def)
  ultimately show ?thesis by (simp add: is_agenda_node_init)
qed

section \<open>Handles of timers\<close>

lemma MakeObjectId_timer:
  "ObjectGetIndex (MakeObjectId OBJECT_TIMER LW_CFG_PROCESSOR_NUMBER i) = i"
  "ObjectClassOK (MakeObjectId OBJECT_TIMER LW_CFG_PROCESSOR_NUMBER i) OBJECT_TIMER"
proof -
  have "scast (push_bit 26 (ucast OBJECT_TIMER :: u32)) OR scast (push_bit 16 (ucast LW_CFG_PROCESSOR_NUMBER :: u32)) = (0x38010000 :: ulong)"
    by code_simp
  then have id: "MakeObjectId OBJECT_TIMER LW_CFG_PROCESSOR_NUMBER i = 0x38010000 OR ucast i"
    unfolding MakeObjectId_def or.assoc [symmetric] by simp
  have mask: "(0xffff :: ulong) = mask 16" by (simp add: mask_eq_exp_minus_1)
  have low: "ucast i AND (0xffff :: ulong) = ucast i"
    unfolding mask take_bit_eq_mask [symmetric] by (rule bit_word_eqI) (auto simp: bit_simps dest: bit_imp_le_length)
  have again: "ucast (ucast i :: ulong) = i"
    by (rule bit_word_eqI) (auto simp: bit_simps dest: bit_imp_le_length)
  have "(0x38010000 OR ucast i) AND (0xffff :: ulong) = ucast i"
    unfolding bit.conj_disj_distrib2 low by simp
  then show "ObjectGetIndex (MakeObjectId OBJECT_TIMER LW_CFG_PROCESSOR_NUMBER i) = i"
    unfolding ObjectGetIndex_def id by (simp add: again)
  have "drop_bit 26 (ucast i :: ulong) = 0"
    by (rule bit_word_eqI) (auto simp: bit_simps dest: bit_imp_le_length)
  then have "drop_bit 26 (0x38010000 OR ucast i :: ulong) = 14" by simp
  then show "ObjectClassOK (MakeObjectId OBJECT_TIMER LW_CFG_PROCESSOR_NUMBER i) OBJECT_TIMER"
    unfolding ObjectClassOK_def id by (simp add: OBJECT_TIMER_def)
qed

lemma timer_handle_made:
  assumes "i < LW_CFG_MAX_TIMERS"
  shows "timer_handle (MakeObjectId OBJECT_TIMER LW_CFG_PROCESSOR_NUMBER (word_of_nat i)) k =
    (if TIMER_ucType (K_tmrBuffer k i) = LW_TYPE_TIMER_UNUSED then Inl ERROR_TIMER_NULL else Inr i)"
proof -
  have "unat (word_of_nat i :: u16) = i" using assms by (simp add: LW_CFG_MAX_TIMERS_def unat_of_nat take_bit_nat_eq_self)
  then show ?thesis
    using assms by (simp add: timer_handle_def Let_def MakeObjectId_timer Timer_Index_Invalid_def Timer_Type_Invalid_def)
qed

lemma timer_handle_kept:
  assumes "timer_handle ulId k = Inr j" "K_tmrBuffer k' j = K_tmrBuffer k j"
  shows "timer_handle ulId k' = Inr j"
  using assms by (auto simp: timer_handle_def Let_def Timer_Type_Invalid_def split: if_splits)

lemma Allocate_Timer_Object_None:
  assumes "pool_ok k" "fst (Allocate_Timer_Object k) = None"
  shows "snd (Allocate_Timer_Object k) = k" "\<forall>i < LW_CFG_MAX_TIMERS. TIMER_ucType (K_tmrBuffer k i) \<noteq> LW_TYPE_TIMER_UNUSED"
proof -
  show "snd (Allocate_Timer_Object k) = k"
    using assms(2) by (auto simp: Allocate_Timer_Object_def Let_def split: option.splits if_splits)
  obtain fr where fr: "pool k fr" "\<forall>j. j \<in> set fr \<longleftrightarrow> j < LW_CFG_MAX_TIMERS \<and> TIMER_ucType (K_tmrBuffer k j) = LW_TYPE_TIMER_UNUSED"
    using assms(1) by (auto simp: pool_ok_def)
  have "fr = []"
    using assms(2) fr(1) by (auto simp: Allocate_Timer_Object_def list_mono_allocate_seq_def pool_def Let_def split: if_splits)
  then show "\<forall>i < LW_CFG_MAX_TIMERS. TIMER_ucType (K_tmrBuffer k i) \<noteq> LW_TYPE_TIMER_UNUSED" using fr(2) by auto
qed

lemma API_TimerDelete_unused:
  assumes "timer_handle ulId k = Inr i"
  shows "fst (API_TimerDelete False ulId now k) = (ERROR_NONE, 0)"
    "TIMER_ucType (K_tmrBuffer (snd (API_TimerDelete False ulId now k)) i) = LW_TYPE_TIMER_UNUSED"
proof -
  define k1 where "k1 = (if TIMER_ucStatus (K_tmrBuffer k i) = LW_TIMER_STATUS_STOP then k else timer_stop i now k)"
  let ?k2 = "upd_timer i (TIMER_ucType_update (\<lambda>_. LW_TYPE_TIMER_UNUSED)) k1"
  have d: "API_TimerDelete False ulId now k = ((ERROR_NONE, 0), Free_Timer_Object i ?k2)"
    using assms by (simp add: API_TimerDelete_def ObjectCloseId_def k1_def Let_def)
  show "fst (API_TimerDelete False ulId now k) = (ERROR_NONE, 0)"
    "TIMER_ucType (K_tmrBuffer (snd (API_TimerDelete False ulId now k)) i) = LW_TYPE_TIMER_UNUSED"
    unfolding d using list_mono_free_seq_timer [of i ?k2 i] by (auto simp: Free_Timer_Object_fields)
qed

lemma API_TimerCreate_made:
  assumes "timers_ok k" "\<not> Object_Name_Invalid pcName" "Allocate_Timer_Object k = (Some i, k1)"
  shows "\<exists>k'. API_TimerCreate False pcName ulOption k = (Inr (MakeObjectId OBJECT_TIMER LW_CFG_PROCESSOR_NUMBER (word_of_nat i)), k') \<and>
    TIMER_ucType (K_tmrBuffer k' i) \<noteq> LW_TYPE_TIMER_UNUSED \<and> TIMER_cTmrName (K_tmrBuffer k' i) = (case pcName of None \<Rightarrow> [] | Some s \<Rightarrow> s) \<and>
    (\<forall>j. j \<noteq> i \<longrightarrow> K_tmrBuffer k' j = K_tmrBuffer k j)"
proof -
  have inv: "timers_inv k" using assms(1) by (simp add: timers_ok_def)
  note A = Allocate_Timer_Object_ok [OF timers_inv_pool [OF inv] assms(3)]
  have "TIMER_usIndex (K_tmrBuffer k i) = word_of_nat i"
    using timers_invD(1) [OF inv, of i] A(1) by (simp add: timer_ok_def)
  then show ?thesis using assms(2,3) by (auto simp: API_TimerCreate_def Let_def timer_node_update_def A)
qed

text \<open>
  C39: A handle names one timer from its creation to its deletion, by calls made outside interrupts.  Creating a timer fails,
  with nothing changed, exactly when the name is too long or every control block is in use.
  Otherwise the handle it returns was not valid before, is valid now and gives back the name; the
  handles and the data of the other timers are as they were; and deleting the timer succeeds, clears
  the caller's handle and makes the old one invalid again.
\<close>
theorem timer_create_handle:
  assumes "timers_ok k"
  shows "case API_TimerCreate False pcName ulOption k of
      (Inl e, k') \<Rightarrow> k' = k \<and> (if Object_Name_Invalid pcName then e = ERROR_KERNEL_PNAME_TOO_LONG
        else e = ERROR_TIMER_FULL \<and> (\<forall>i < LW_CFG_MAX_TIMERS. TIMER_ucType (K_tmrBuffer k i) \<noteq> LW_TYPE_TIMER_UNUSED))
    | (Inr ulId, k') \<Rightarrow> \<not> Object_Name_Invalid pcName \<and> timer_handle ulId k = Inl ERROR_TIMER_NULL \<and>
        (\<exists>i. timer_handle ulId k' = Inr i) \<and> API_TimerGetName False ulId True k' = Inr (case pcName of None \<Rightarrow> [] | Some s \<Rightarrow> s) \<and>
        (\<forall>other j. timer_handle other k = Inr j \<longrightarrow> timer_handle other k' = Inr j \<and> K_tmrBuffer k' j = K_tmrBuffer k j) \<and>
        fst (API_TimerDelete False ulId now k') = (ERROR_NONE, 0) \<and>
        timer_handle ulId (snd (API_TimerDelete False ulId now k')) = Inl ERROR_TIMER_NULL"
proof (cases "Object_Name_Invalid pcName \<or> fst (Allocate_Timer_Object k) = None")
  case True
  then show ?thesis
    using Allocate_Timer_Object_None [of k] assms
    by (cases "Allocate_Timer_Object k") (auto simp: API_TimerCreate_def timers_ok_def timers_inv_def)
next
  case False
  then obtain i k1 where a: "Allocate_Timer_Object k = (Some i, k1)" by (cases "Allocate_Timer_Object k") auto
  have "pool_ok k" using assms by (simp add: timers_ok_def timers_inv_def)
  note A = Allocate_Timer_Object_ok(1,2) [OF this a]
  let ?id = "MakeObjectId OBJECT_TIMER LW_CFG_PROCESSOR_NUMBER (word_of_nat i)"
  from API_TimerCreate_made [OF assms _ a] False obtain k' where c: "API_TimerCreate False pcName ulOption k = (Inr ?id, k')"
    "TIMER_ucType (K_tmrBuffer k' i) \<noteq> LW_TYPE_TIMER_UNUSED" "TIMER_cTmrName (K_tmrBuffer k' i) = (case pcName of None \<Rightarrow> [] | Some s \<Rightarrow> s)"
    "\<forall>j. j \<noteq> i \<longrightarrow> K_tmrBuffer k' j = K_tmrBuffer k j" by blast
  have h: "timer_handle ?id k = Inl ERROR_TIMER_NULL" "timer_handle ?id k' = Inr i" using A c(2) by (simp_all add: timer_handle_made)
  have "timer_handle other k' = Inr j \<and> K_tmrBuffer k' j = K_tmrBuffer k j" if "timer_handle other k = Inr j" for other j
    using timer_handle_Inr [OF that] A(2) c(4) timer_handle_kept [OF that] by (cases "j = i") auto
  moreover have "timer_handle ?id (snd (API_TimerDelete False ?id now k')) = Inl ERROR_TIMER_NULL"
    using A(1) API_TimerDelete_unused(2) [OF h(2)] by (simp add: timer_handle_made)
  ultimately show ?thesis
    using False h c(3) API_TimerDelete_unused(1) [OF h(2)] by (simp add: c(1) API_TimerGetName_def)
qed

theorem timer_create_handle_witness:
  "\<exists>k'. API_TimerCreate False (Some ''poll'') 0 (TimerInit zero_ktimers) = (Inr sample_handle, k') \<and>
    API_TimerGetName False sample_handle True k' = Inr ''poll'' \<and>
    timer_handle sample_handle (snd (API_TimerDelete False sample_handle 0 k')) = Inl ERROR_TIMER_NULL"
proof -
  obtain k1 where a: "Allocate_Timer_Object (TimerInit zero_ktimers) = (Some 0, k1)"
    using one_timer_allocated by (cases "Allocate_Timer_Object (TimerInit zero_ktimers)") simp
  have "\<not> Object_Name_Invalid (Some ''poll'')" by code_simp
  from API_TimerCreate_made [OF TimerInit_ok this a, of 0] obtain k' where
    "API_TimerCreate False (Some ''poll'') 0 (TimerInit zero_ktimers) = (Inr sample_handle, k')"
    by (auto simp: sample_handle_made)
  then show ?thesis using timer_create_handle [OF TimerInit_ok, of "Some ''poll''" 0 0] by simp
qed

section \<open>Correctness of the timers\<close>

text \<open>What the users of the timers and the ticks make of them, with routines that leave them alone.\<close>

inductive timers_reach :: "ktimers \<Rightarrow> bool" where
  init: "timers_reach (TimerInit zero_ktimers)"
| create: "timers_reach k \<Longrightarrow> timers_reach (snd (API_TimerCreate inISR pcName ulOption k))"
| delete: "timers_reach k \<Longrightarrow> timers_reach (snd (API_TimerDelete inISR ulId now k))"
| start: "timers_reach k \<Longrightarrow>
    API_TimerStartEx ulId ulInitCounter ulCounter ulOption cbTimerRoutine pvArg now now' k = Some (e, k') \<Longrightarrow> timers_reach k'"
| cancel: "timers_reach k \<Longrightarrow> timers_reach (snd (API_TimerCancel ulId now k))"
| reset: "timers_reach k \<Longrightarrow> API_TimerReset ulId now now' k = Some (e, k') \<Longrightarrow> timers_reach k'"
| tick: "timers_reach k \<Longrightarrow> API_TimerHTicks no_call k = Some k' \<Longrightarrow> timers_reach k'"

lemma htick_total:
  assumes "timers_ok k" "is_agenda (K_wuHTmr k) hag"
  shows "\<exists>k'. API_TimerHTicks no_call k = Some k' \<and> K_calls k' = K_calls k @ map fst (filter (\<lambda>e. snd e \<le> 1) hag) \<and>
    is_agenda (K_wuHTmr k') (tick_agenda (period k) hag) \<and> timers_ok k'"
proof -
  have inv: "timers_inv k" using assms(1) by (simp add: timers_ok_def)
  from htick.tick [OF inv assms(2) hqueue_ok_agenda [OF assms]] obtain k' where k': "API_TimerHTicks no_call k = Some k'"
    "is_agenda (K_wuHTmr k') (tick_agenda (period k) hag)" "timers_inv k'" "period k' = period k"
    "K_calls k' = K_calls k @ map fst (filter (\<lambda>e. snd e \<le> 1) hag)"
    unfolding API_TimerHTicks_def by blast
  have "snd e \<noteq> 0" if "e \<in> set (tick_agenda (period k) hag)" for e
    using tick_agenda_pos [OF _ that] htick.period_pos [OF inv] by blast
  then have "hqueue_ok k'" using k'(2,4) unfolding hqueue_ok_def by blast
  then show ?thesis using k' by (auto simp: timers_ok_def)
qed

lemma timers_reach_ok: "timers_reach k \<Longrightarrow> timers_ok k"
proof (induction rule: timers_reach.induct)
  case (start k ulId ulInitCounter ulCounter ulOption cbTimerRoutine pvArg now now' e k')
  then show ?case
    using API_TimerStartEx_ok [OF start.IH, of ulId ulInitCounter ulCounter ulOption cbTimerRoutine pvArg now now'] by auto
next
  case (reset k ulId now now' e k')
  then show ?case using API_TimerReset_ok [OF reset.IH, of ulId now now'] by auto
next
  case (tick k k')
  then obtain hag where "is_agenda (K_wuHTmr k) hag" by (auto simp: timers_ok_def hqueue_ok_def)
  from htick_total [OF tick.IH this] tick.hyps show ?case by auto
qed (simp_all add: TimerInit_ok API_TimerCreate_ok API_TimerDelete_ok API_TimerCancel_ok)

lemma API_TimerStatusEx_total: "timers_ok k \<Longrightarrow> API_TimerStatusEx ulId now k \<noteq> None"
proof -
  assume "timers_ok k"
  then obtain iag hag where "is_agenda (K_wuITmr k) iag" "is_agenda (K_wuHTmr k) hag" by (rule timers_okE)
  then show ?thesis
    by (auto simp: API_TimerStatusEx_def Let_def WakeupStatus_agenda split: sum.split)
qed

text \<open>
  C36: The timers stay well formed, whatever sequence of creating, deleting, starting,
  cancelling, resetting and ticks of the high speed timers they go through, with timer routines that leave
  the timers alone (the rounds of the timer thread are not among these steps): both wakeup queues are properly linked, a
  timer is on the queue of its type exactly while it runs, a running timer has a routine, one that restarts has
  an interval, and the control blocks that are not in use are exactly those of the free
  pool.  In every such state each operation returns.
\<close>
theorem timers_well_formed:
  assumes "timers_reach k"
  shows "timers_ok k \<and> API_TimerStartEx ulId ulInitCounter ulCounter ulOption cbTimerRoutine pvArg now now' k \<noteq> None \<and>
    API_TimerReset ulId now now' k \<noteq> None \<and> API_TimerStatusEx ulId now k \<noteq> None \<and> API_TimerHTicks no_call k \<noteq> None"
proof -
  have ok: "timers_ok k" using assms by (rule timers_reach_ok)
  then obtain hag where hag: "is_agenda (K_wuHTmr k) hag" by (auto simp: timers_ok_def hqueue_ok_def)
  show ?thesis
    using ok API_TimerStartEx_ok [OF ok, of ulId ulInitCounter ulCounter ulOption cbTimerRoutine pvArg now now']
      API_TimerReset_ok [OF ok, of ulId now now'] API_TimerStatusEx_total [OF ok, of ulId now] htick_total [OF ok hag] by auto
qed

theorem timers_well_formed_witness:
  "timers_reach one_timer \<and> timers_ok one_timer \<and> API_TimerStartEx sample_handle 5 0 0 (Some 1) 0 0 0 one_timer \<noteq> None"
proof -
  have "timers_reach one_timer" unfolding one_timer_def by (intro timers_reach.intros)
  then show ?thesis using timers_well_formed [of one_timer sample_handle 5 0 0 "Some 1" 0 0 0] by blast
qed

text \<open>
  C37: Starting a high speed timer, running or not, queues it for its initial count with
  the parameters it is given and leaves the times of the other timers as they are; resetting a
  running one queues it for its interval.
\<close>
theorem timer_start_queues:
  assumes "timers_ok k" "is_agenda (K_wuHTmr k) hag" "timer_handle ulId k = Inr i" "\<not> is_itimer i k"
  shows "(cbTimerRoutine \<noteq> None \<and> ulInitCounter \<noteq> 0 \<and> (ulOption AND LW_OPTION_AUTO_RESTART \<noteq> 0 \<longrightarrow> ulCounter \<noteq> 0) \<longrightarrow>
      (\<exists>k'. API_TimerStartEx ulId ulInitCounter ulCounter ulOption cbTimerRoutine pvArg now now' k = Some (ERROR_NONE, k') \<and> timers_ok k' \<and>
        running (K_tmrBuffer k' i) \<and> TIMER_cbRoutine (K_tmrBuffer k' i) = cbTimerRoutine \<and> TIMER_pvArg (K_tmrBuffer k' i) = pvArg \<and>
        period k' i = (if ulOption AND LW_OPTION_AUTO_RESTART \<noteq> 0 then Some (unat ulCounter) else None) \<and>
        is_agenda (K_wuHTmr k') (agenda_insert i (unat ulInitCounter) (agenda_remove i hag)))) \<and>
    (running (K_tmrBuffer k i) \<longrightarrow>
      (\<exists>k'. API_TimerReset ulId now now' k = Some (ERROR_NONE, k') \<and> timers_ok k' \<and> K_tmrBuffer k' = K_tmrBuffer k \<and>
        is_agenda (K_wuHTmr k') (agenda_insert i (unat (TIMER_ulCounterSave (K_tmrBuffer k i))) (agenda_remove i hag))))"
proof (intro conjI impI; (elim conjE)?)
  assume "cbTimerRoutine \<noteq> None" "ulInitCounter \<noteq> 0" "ulOption AND LW_OPTION_AUTO_RESTART \<noteq> 0 \<longrightarrow> ulCounter \<noteq> 0"
  then show "\<exists>k'. API_TimerStartEx ulId ulInitCounter ulCounter ulOption cbTimerRoutine pvArg now now' k = Some (ERROR_NONE, k') \<and> timers_ok k' \<and>
        running (K_tmrBuffer k' i) \<and> TIMER_cbRoutine (K_tmrBuffer k' i) = cbTimerRoutine \<and> TIMER_pvArg (K_tmrBuffer k' i) = pvArg \<and>
        period k' i = (if ulOption AND LW_OPTION_AUTO_RESTART \<noteq> 0 then Some (unat ulCounter) else None) \<and>
        is_agenda (K_wuHTmr k') (agenda_insert i (unat ulInitCounter) (agenda_remove i hag))"
    using API_TimerStartEx_started [OF assms(1-3), of cbTimerRoutine ulInitCounter ulOption ulCounter pvArg now now'] assms(4)
    by (auto simp: period_def)
next
  assume "running (K_tmrBuffer k i)"
  then show "\<exists>k'. API_TimerReset ulId now now' k = Some (ERROR_NONE, k') \<and> timers_ok k' \<and> K_tmrBuffer k' = K_tmrBuffer k \<and>
        is_agenda (K_wuHTmr k') (agenda_insert i (unat (TIMER_ulCounterSave (K_tmrBuffer k i))) (agenda_remove i hag))"
    using API_TimerReset_restarted [OF assms(1-3), of now now'] assms(4) by simp
qed

theorem timer_start_queues_witness:
  "\<exists>k. API_TimerStartEx sample_handle 5 0 0 (Some 1) 0 0 0 one_timer = Some (ERROR_NONE, k) \<and> is_agenda (K_wuHTmr k) [(0, 5)]"
  using timer_start_queues [OF one_timer_ok one_timer_queue one_timer_handle, of "Some 1" 5 0 0 0 0 0]
  by (auto simp: is_itimer_def one_timer_type agenda_remove_def)

text \<open>
  C38: A tick of the high speed timers, with routines that leave the timers alone: exactly
  the running timers that have at most one tick left are called, in the order in which they are due;
  those with the option to restart are queued again for their full interval, the others are
  stopped, and every other timer has one tick less to wait.  The scan ends and finds every
  routine.
\<close>
theorem timer_tick_fires:
  assumes "timers_ok k" "is_agenda (K_wuHTmr k) hag" "\<forall>f a k. call f a k = k"
  shows "\<exists>k'. API_TimerHTicks call k = Some k' \<and> K_calls k' = K_calls k @ map fst (filter (\<lambda>e. snd e \<le> 1) hag) \<and>
    is_agenda (K_wuHTmr k') (tick_agenda (period k) hag) \<and> timers_ok k'"
proof -
  have "call = no_call" using assms(3) by (simp add: fun_eq_iff)
  then show ?thesis using htick_total [OF assms(1,2)] by simp
qed

theorem timer_tick_fires_witness:
  "\<exists>k k'. API_TimerStartEx sample_handle 1 0 0 (Some 1) 0 0 0 one_timer = Some (ERROR_NONE, k) \<and>
    API_TimerHTicks (\<lambda>_ _ k. k) k = Some k' \<and> K_calls k' = K_calls k @ [0] \<and> is_agenda (K_wuHTmr k') []"
proof -
  obtain k where k: "API_TimerStartEx sample_handle 1 0 0 (Some 1) 0 0 0 one_timer = Some (ERROR_NONE, k)" "timers_ok k"
    "period k 0 = None" "is_agenda (K_wuHTmr k) [(0, 1)]"
    using API_TimerStartEx_started [OF one_timer_ok one_timer_queue one_timer_handle, of "Some 1" 1 0 0 0 0 0]
    by (auto simp: is_itimer_def one_timer_type agenda_remove_def period_def)
  show ?thesis
    using k(1) timer_tick_fires [OF k(2,4), of "\<lambda>_ _ k. k"] k(3) by (auto simp: tick_agenda_def restart_def)
qed

text \<open>
  A timer started for five ticks without an interval is due at once after a reset, since the reset
  takes the interval for its count.
\<close>

lemma reset_one_shot_due:
  "\<exists>k k'. API_TimerStartEx sample_handle 5 0 0 (Some 1) 0 0 0 one_timer = Some (ERROR_NONE, k) \<and>
    API_TimerReset sample_handle 0 0 k = Some (ERROR_NONE, k') \<and> is_agenda (K_wuHTmr k') [(0, 0)]"
proof -
  obtain k where k: "API_TimerStartEx sample_handle 5 0 0 (Some 1) 0 0 0 one_timer = Some (ERROR_NONE, k)" "timers_ok k"
    "is_agenda (K_wuHTmr k) [(0, 5)]" "TIMER_ucType (K_tmrBuffer k 0) = LW_TYPE_TIMER_HTIMER" "running (K_tmrBuffer k 0)"
    "TIMER_ulCounterSave (K_tmrBuffer k 0) = 0"
    using API_TimerStartEx_started [OF one_timer_ok one_timer_queue one_timer_handle, of "Some 1" 5 0 0 0 0 0]
    by (auto simp: is_itimer_def one_timer_type agenda_remove_def)
  have "timer_handle sample_handle k = Inr 0"
    by (simp add: timer_handle_def sample_handle_made Timer_Index_Invalid_def Timer_Type_Invalid_def LW_CFG_MAX_TIMERS_def k(4))
  from API_TimerReset_restarted [OF k(2,3) this k(5), of 0 0] k(1) show ?thesis
    by (auto simp: is_itimer_def k(4,6) agenda_remove_def)
qed

section \<open>A late round of the timer thread\<close>

text \<open>
  Two ordinary timers, one that restarts every five ticks and has three to wait, and one that
  has fourteen to wait.
\<close>

definition late_timers :: ktimers where
  "late_timers = zero_ktimers\<lparr>
     K_tmrBuffer := (\<lambda>i. zero_timer\<lparr>TIMER_ucType := LW_TYPE_TIMER_ITIMER, TIMER_ucStatus := LW_TIMER_STATUS_RUNNING, TIMER_cbRoutine := Some i,
       TIMER_ulOption := (if i = 0 then LW_OPTION_AUTO_RESTART else 0), TIMER_ulCounterSave := (if i = 0 then 5 else 14)\<rparr>),
     K_wuITmr := (idle_queue (\<lambda>_. 0))\<lparr>
       WU_lines := no_links(0 := \<lparr> plistNext = Some 1, plistPrev = None \<rparr>, 1 := \<lparr> plistNext = None, plistPrev = Some 0 \<rparr>),
       WU_plineHeader := Some 0, WU_pfuncWakeup := True,
       WU_nodes := (\<lambda>i. \<lparr> WUN_bInQ = i < 2, WUN_ulCounter = (if i = 0 then 3 else 11) \<rparr>)\<rparr>\<rparr>"

lemma late_timers_agenda: "is_agenda (K_wuITmr late_timers) [(0, 3), (1, 14)]"
  by (auto simp: is_agenda_def late_timers_def is_line_def counter_def)

lemmas pass_eval = ITimerThread_round_def WAKEUP_PASS_def timer_fire_def WakeupDel_def WakeupAdd_def on_line_def
  set_counter_def set_inq_def set_op_def counter_def list_line_get_next_def list_line_get_prev_def List_Line_Del_def List_Line_Add_Ahead_def
  List_Line_Add_Right_def List_Line_Add_Left_def wakeup_append_def set_next_def set_prev_def upd_timer_def Let_def

text \<open>
  When the thread wakes up seven ticks late, the restarted timer goes in front of the
  other, whose count is now taken from it, and the second timer is called although it has four more
  ticks to wait.
\<close>

lemma itimer_round_early: "\<exists>k. ITimerThread_round no_call 10 late_timers = Some k \<and> K_calls k = [0, 1]"
  by (simp add: pass_eval late_timers_def zero_ktimers_def zero_timer_def idle_queue_def no_links_def LW_OPTION_AUTO_RESTART_def
    wakeup_pass.simps wakeup_seek.simps)

end
