(* ===== verification/JobQueue.thy ===== *)
theory JobQueue
  imports Prelude "HOL-Library.Monad_Syntax"
begin

text \<open>
  SylixOS kernel, core/_JobQueue.c and include/k_jobqueue.h: the queues of deferred jobs, a ring buffer
  with a lost counter and lazy deletion.  The semaphore that wakes the executing thread is a
  component of its own: its operations, like the jobs that are run, are
  parameters that act on the state of the queue and of their surroundings.
\<close>

section \<open>Queues\<close>

record job_msg =
  JOBM_pfuncFunc :: "nat option"
  JOBM_pvArg :: "nat list"

record job_queue =
  JOBQ_pjobmsgQueue :: "job_msg list"
  JOBQ_uiIn :: u32
  JOBQ_uiOut :: u32
  JOBQ_uiCnt :: u32
  JOBQ_uiSize :: u32
  JOBQ_ulLost :: u64
  JOBQ_ulSync :: u64

datatype job_error = ERROR_NONE | ENOSPC | ERROR_THREAD_WAIT_TIMEOUT | ERROR_SEMAPHORE

text \<open>What the semaphore of a queue is asked for.\<close>

datatype sem_event = BClear | BPost | BDelete

type_synonym jobq_state = "job_queue \<times> sem_event list"

text \<open>A queue is given the handle of a new semaphore, 0 when there is none.\<close>

definition jobQueueInit :: "job_msg list \<Rightarrow> u32 \<Rightarrow> bool \<Rightarrow> u64 \<Rightarrow> job_queue \<Rightarrow> job_error \<times> job_queue" where
  "jobQueueInit pjobmsg uiQueueSize bNonBlock newSem q =
    (let q = q\<lparr>JOBQ_pjobmsgQueue := pjobmsg, JOBQ_uiIn := 0, JOBQ_uiOut := 0, JOBQ_uiCnt := 0, JOBQ_uiSize := uiQueueSize, JOBQ_ulLost := 0\<rparr>
     in if \<not> bNonBlock
        then let q = q\<lparr>JOBQ_ulSync := newSem\<rparr>
             in if newSem = 0 then (ERROR_SEMAPHORE, q) else (ERROR_NONE, q)
        else (ERROR_NONE, q))"

text \<open>The memory for the control block and the messages is Some messages, or None when the heap is exhausted.\<close>

definition jobQueueCreate :: "job_msg list option \<Rightarrow> u32 \<Rightarrow> bool \<Rightarrow> u64 \<Rightarrow> job_queue \<Rightarrow> job_queue option" where
  "jobQueueCreate mem uiQueueSize bNonBlock newSem q = (case mem of
     None \<Rightarrow> None
   | Some msgs \<Rightarrow>
      (let q = q\<lparr>JOBQ_pjobmsgQueue := msgs, JOBQ_uiIn := 0, JOBQ_uiOut := 0, JOBQ_uiCnt := 0, JOBQ_uiSize := uiQueueSize, JOBQ_ulLost := 0\<rparr>
       in if \<not> bNonBlock
          then let q = q\<lparr>JOBQ_ulSync := newSem\<rparr>
               in if newSem = 0 then None else Some q
          else Some (q\<lparr>JOBQ_ulSync := 0\<rparr>)))"

definition sem_do :: "sem_event \<Rightarrow> jobq_state \<Rightarrow> jobq_state" where
  "sem_do e = (\<lambda>(q, es). if JOBQ_ulSync q \<noteq> 0 then (q, es @ [e]) else (q, es))"

text \<open>API_SemaphoreBDelete clears the handle it is given, unless it refuses, as it does in an interrupt.\<close>

definition jobQueueFinit :: "bool \<Rightarrow> jobq_state \<Rightarrow> jobq_state" where
  "jobQueueFinit refused s = (let (q, es) = sem_do BDelete s in (if refused then q else q\<lparr>JOBQ_ulSync := 0\<rparr>, es))"

text \<open>Deleting frees the control block: what is left is what the semaphore was asked for.\<close>

definition jobQueueDelete :: "jobq_state \<Rightarrow> sem_event list" where
  "jobQueueDelete s = snd (sem_do BDelete s)"

definition jobQueueFlush :: "jobq_state \<Rightarrow> jobq_state" where
  "jobQueueFlush s = (let (q, es) = sem_do BClear s
     in (q\<lparr>JOBQ_uiIn := 0, JOBQ_uiOut := 0, JOBQ_uiCnt := 0\<rparr>, es))"

text \<open>An index past the buffer is the outcome None.\<close>

definition jobQueueAdd :: "nat option \<Rightarrow> nat list \<Rightarrow> jobq_state \<Rightarrow> (job_error \<times> jobq_state) option" where
  "jobQueueAdd pfunc pvArgs = (\<lambda>(q, es).
     if JOBQ_uiCnt q = JOBQ_uiSize q then Some (ENOSPC, (q\<lparr>JOBQ_ulLost := JOBQ_ulLost q + 1\<rparr>, es))
     else if unat (JOBQ_uiIn q) \<ge> length (JOBQ_pjobmsgQueue q) then None
     else let q = q\<lparr>JOBQ_pjobmsgQueue := (JOBQ_pjobmsgQueue q)[unat (JOBQ_uiIn q) := \<lparr> JOBM_pfuncFunc = pfunc, JOBM_pvArg = pvArgs \<rparr>]\<rparr>;
              q = q\<lparr>JOBQ_uiIn := (if JOBQ_uiIn q = JOBQ_uiSize q - 1 then 0 else JOBQ_uiIn q + 1)\<rparr>;
              q = q\<lparr>JOBQ_uiCnt := JOBQ_uiCnt q + 1\<rparr>
          in Some (ERROR_NONE, sem_do BPost (q, es)))"

text \<open>The cases of the switch: the first arguments that are compared.\<close>

definition job_matches :: "u32 \<Rightarrow> nat option \<Rightarrow> nat list \<Rightarrow> job_msg \<Rightarrow> bool" where
  "job_matches uiMatchArgNum pfunc pvArgs j \<longleftrightarrow> unat uiMatchArgNum \<le> 6 \<and> (JOBM_pfuncFunc j = pfunc \<or> pfunc = None) \<and>
     take (unat uiMatchArgNum) (JOBM_pvArg j) = take (unat uiMatchArgNum) pvArgs"

fun jobQueueDel_loop :: "u32 \<Rightarrow> nat option \<Rightarrow> nat list \<Rightarrow> nat \<Rightarrow> nat \<Rightarrow> nat \<Rightarrow> job_msg list \<Rightarrow> job_msg list option" where
  "jobQueueDel_loop m pfunc pvArgs sz 0 p buf = Some buf"
| "jobQueueDel_loop m pfunc pvArgs sz (Suc i) p buf =
    (if p \<ge> length buf then None
     else let buf = (if job_matches m pfunc pvArgs (buf ! p) then buf[p := (buf ! p)\<lparr>JOBM_pfuncFunc := None\<rparr>] else buf);
              p = (if p + 1 > sz - 1 then 0 else p + 1)
          in jobQueueDel_loop m pfunc pvArgs sz i p buf)"

definition jobQueueDel :: "u32 \<Rightarrow> nat option \<Rightarrow> nat list \<Rightarrow> job_queue \<Rightarrow> job_queue option" where
  "jobQueueDel m pfunc pvArgs q =
    map_option (\<lambda>b. q\<lparr>JOBQ_pjobmsgQueue := b\<rparr>)
      (jobQueueDel_loop m pfunc pvArgs (unat (JOBQ_uiSize q)) (unat (JOBQ_uiCnt q)) (unat (JOBQ_uiOut q)) (JOBQ_pjobmsgQueue q))"

definition jobQueueLost :: "job_queue \<Rightarrow> u64" where
  "jobQueueLost q = JOBQ_ulLost q"

text \<open>
  The loop that takes the jobs out and runs them.  The call of a job, made without the lock,
  may change the queue; the jobs that are called are recorded.
\<close>

partial_function (option) jobQueueExec_loop ::
  "(job_msg \<Rightarrow> job_queue \<Rightarrow> job_queue) \<Rightarrow> job_queue \<Rightarrow> job_msg list \<Rightarrow> (job_queue \<times> job_msg list) option" where
  "jobQueueExec_loop call q run =
    (if JOBQ_uiCnt q = 0 then Some (q, run)
     else if unat (JOBQ_uiOut q) \<ge> length (JOBQ_pjobmsgQueue q) then None
     else let j = JOBQ_pjobmsgQueue q ! unat (JOBQ_uiOut q);
              q = q\<lparr>JOBQ_uiOut := (if JOBQ_uiOut q = JOBQ_uiSize q - 1 then 0 else JOBQ_uiOut q + 1)\<rparr>;
              q = q\<lparr>JOBQ_uiCnt := JOBQ_uiCnt q - 1\<rparr>
          in if JOBM_pfuncFunc j \<noteq> None then jobQueueExec_loop call (call j q) (run @ [j])
             else jobQueueExec_loop call q run)"

text \<open>Waiting gives whether the time ran out and the queue as others have left it.\<close>

partial_function (option) jobQueueExec_wait ::
  "('e \<Rightarrow> job_queue \<Rightarrow> bool \<times> 'e \<times> job_queue) \<Rightarrow> 'e \<Rightarrow> job_queue \<Rightarrow> (bool \<times> job_queue) option" where
  "jobQueueExec_wait pend e q =
    (let (timeout, e, q) = pend e q
     in if timeout then Some (True, q)
        else if JOBQ_uiCnt q \<noteq> 0 then Some (False, q)
        else jobQueueExec_wait pend e q)"

definition jobQueueExec ::
  "('e \<Rightarrow> job_queue \<Rightarrow> bool \<times> 'e \<times> job_queue) \<Rightarrow> (job_msg \<Rightarrow> job_queue \<Rightarrow> job_queue) \<Rightarrow> 'e \<Rightarrow> job_queue \<Rightarrow>
    (job_error \<times> job_queue \<times> job_msg list) option" where
  "jobQueueExec pend call e q = do {
     (timeout, q) \<leftarrow> (if JOBQ_ulSync q \<noteq> 0 then jobQueueExec_wait pend e q else Some (False, q));
     if timeout then Some (ERROR_THREAD_WAIT_TIMEOUT, q, [])
     else map_option (Pair ERROR_NONE) (jobQueueExec_loop call q [])
   }"

section \<open>Queues represent lists\<close>

definition ring_list :: "job_msg list \<Rightarrow> nat \<Rightarrow> nat \<Rightarrow> job_msg list" where
  "ring_list buf out n = map (\<lambda>i. buf ! ((out + i) mod length buf)) [0..<n]"

definition is_jobq :: "job_queue \<Rightarrow> job_msg list \<Rightarrow> bool" where
  "is_jobq q js \<longleftrightarrow> JOBQ_pjobmsgQueue q \<noteq> [] \<and> length (JOBQ_pjobmsgQueue q) = unat (JOBQ_uiSize q) \<and>
    unat (JOBQ_uiOut q) < unat (JOBQ_uiSize q) \<and> length js \<le> unat (JOBQ_uiSize q) \<and> unat (JOBQ_uiCnt q) = length js \<and>
    unat (JOBQ_uiIn q) = (unat (JOBQ_uiOut q) + length js) mod unat (JOBQ_uiSize q) \<and>
    ring_list (JOBQ_pjobmsgQueue q) (unat (JOBQ_uiOut q)) (length js) = js"

lemma is_jobqD:
  assumes "is_jobq q js"
  shows "JOBQ_pjobmsgQueue q \<noteq> []" "length (JOBQ_pjobmsgQueue q) = unat (JOBQ_uiSize q)" "unat (JOBQ_uiOut q) < unat (JOBQ_uiSize q)"
    "length js \<le> unat (JOBQ_uiSize q)" "unat (JOBQ_uiCnt q) = length js"
    "unat (JOBQ_uiIn q) = (unat (JOBQ_uiOut q) + length js) mod unat (JOBQ_uiSize q)"
    "ring_list (JOBQ_pjobmsgQueue q) (unat (JOBQ_uiOut q)) (length js) = js"
  using assms by (simp_all add: is_jobq_def)

lemma unat_wrap_next:
  fixes i n :: u32
  assumes "unat i < unat n"
  shows "unat (if i = n - 1 then 0 else i + 1) = (unat i + 1) mod unat n"
proof -
  have "n \<noteq> 0" using assms by auto
  then have pred: "unat (n - 1) = unat n - 1" "0 < unat n" by (simp_all add: unat_minus_one unat_gt_0)
  show ?thesis
  proof (cases "i = n - 1")
    case True
    then show ?thesis using pred by simp
  next
    case False
    then have "unat i + 1 < unat n" using pred assms by (auto simp: word_unat_eq_iff)
    moreover have "unat (i + 1) = unat i + 1"
      using assms by (intro unat_plus_one_less [of i n]) (simp add: word_less_nat_alt)
    ultimately show ?thesis using False by simp
  qed
qed

lemma ring_list_Suc: "ring_list buf out (Suc n) = ring_list buf out n @ [buf ! ((out + n) mod length buf)]"
  by (simp add: ring_list_def)

lemma ring_list_Cons:
  assumes "out < length buf"
  shows "ring_list buf out (Suc n) = buf ! out # ring_list buf ((out + 1) mod length buf) n"
proof -
  have "(out + Suc i) mod length buf = ((out + 1) mod length buf + i) mod length buf" for i
    by (simp add: mod_add_left_eq)
  then show ?thesis using assms unfolding ring_list_def map_upt_Suc by simp
qed

text \<open>Slots of the ring at different distances are different.\<close>

lemma ring_slot_inj:
  fixes a i j n :: nat
  assumes "(a + i) mod n = (a + j) mod n" "i < n" "j < n"
  shows "i = j"
proof -
  have False if "(a + x) mod n = (a + y) mod n" "x < y" "y < n" for x y
  proof -
    have "n dvd (a + y) - (a + x)" using that(1,2) by (intro mod_eq_dvd_iff_nat [THEN iffD1]) simp_all
    then have "n dvd y - x" by simp
    then show False using that(2,3) by (auto dest: dvd_imp_le)
  qed
  then show ?thesis using assms by (metis linorder_neqE_nat)
qed

lemma ring_list_update_outside:
  assumes "n < length buf"
  shows "ring_list (buf[(out + n) mod length buf := j]) out n = ring_list buf out n"
proof -
  have "(out + n) mod length buf \<noteq> (out + i) mod length buf" if "i < n" for i
    using ring_slot_inj [of out n "length buf" i] assms that by auto
  then show ?thesis by (simp add: ring_list_def)
qed

section \<open>The operations\<close>

lemma jobQueueAdd_full:
  assumes "is_jobq q js" "length js = unat (JOBQ_uiSize q)"
  shows "jobQueueAdd pfunc pvArgs (q, es) = Some (ENOSPC, (q\<lparr>JOBQ_ulLost := JOBQ_ulLost q + 1\<rparr>, es))"
proof -
  have "JOBQ_uiCnt q = JOBQ_uiSize q" using is_jobqD(5) [OF assms(1)] assms(2) by (simp add: word_unat_eq_iff)
  then show ?thesis by (simp add: jobQueueAdd_def)
qed

lemma jobQueueAdd_room:
  assumes "is_jobq q js" and less: "length js < unat (JOBQ_uiSize q)"
  shows "\<exists>q'. jobQueueAdd pfunc pvArgs (q, es) = Some (ERROR_NONE, (q', es @ (if JOBQ_ulSync q \<noteq> 0 then [BPost] else []))) \<and>
    is_jobq q' (js @ [\<lparr> JOBM_pfuncFunc = pfunc, JOBM_pvArg = pvArgs \<rparr>]) \<and> JOBQ_ulLost q' = JOBQ_ulLost q"
proof -
  note q = is_jobqD [OF assms(1)]
  let ?n = "unat (JOBQ_uiSize q)" and ?buf = "JOBQ_pjobmsgQueue q" and ?in = "unat (JOBQ_uiIn q)" and ?out = "unat (JOBQ_uiOut q)"
  let ?j = "\<lparr> JOBM_pfuncFunc = pfunc, JOBM_pvArg = pvArgs \<rparr>"
  let ?next = "if JOBQ_uiIn q = JOBQ_uiSize q - 1 then 0 else JOBQ_uiIn q + 1"
  let ?q' = "q\<lparr>JOBQ_pjobmsgQueue := ?buf[?in := ?j], JOBQ_uiIn := ?next, JOBQ_uiCnt := JOBQ_uiCnt q + 1\<rparr>"
  have cnt: "JOBQ_uiCnt q \<noteq> JOBQ_uiSize q" using q(5) less by auto
  have n: "0 < ?n" "?in < ?n" using q(3,6) by auto
  have "jobQueueAdd pfunc pvArgs (q, es) = Some (ERROR_NONE, (?q', es @ (if JOBQ_ulSync q \<noteq> 0 then [BPost] else [])))"
    using cnt n(2) q(2) by (simp add: jobQueueAdd_def sem_do_def Let_def)
  moreover have "is_jobq ?q' (js @ [?j])"
  proof -
    have "unat (JOBQ_uiCnt q + 1) = length js + 1"
      using q(5) less by (subst unat_plus_one_less [of _ "JOBQ_uiSize q"]) (simp_all add: word_less_nat_alt)
    moreover have "unat ?next = (?out + length (js @ [?j])) mod ?n"
      using unat_wrap_next [OF n(2)] q(6) by (simp add: mod_Suc_eq)
    moreover have i: "?in = (?out + length js) mod length ?buf" using q(2,6) by simp
    then have "ring_list (?buf[?in := ?j]) ?out (length js) = js"
      using ring_list_update_outside [of "length js" ?buf ?out ?j] q(2,7) less by simp
    then have "ring_list (?buf[?in := ?j]) ?out (length (js @ [?j])) = js @ [?j]"
      using i n(2) q(2) by (simp add: ring_list_Suc)
    ultimately show ?thesis
      using q(1-4) less unfolding is_jobq_def by simp
  qed
  ultimately show ?thesis by (intro exI [of _ ?q']) simp
qed

definition kill :: "u32 \<Rightarrow> nat option \<Rightarrow> nat list \<Rightarrow> job_msg \<Rightarrow> job_msg" where
  "kill m pfunc pvArgs j = (if job_matches m pfunc pvArgs j then j\<lparr>JOBM_pfuncFunc := None\<rparr> else j)"

lemma kill_idem [simp]: "kill m pfunc pvArgs (kill m pfunc pvArgs j) = kill m pfunc pvArgs j"
  by (simp add: kill_def)

lemma next_slot: "p < n \<Longrightarrow> (if p + 1 > n - 1 then 0 else p + 1) = (p + 1) mod n" for p n :: nat
  by (cases "p + 1 = n") auto

lemma jobQueueDel_loop_nth:
  assumes "p < length buf" "n \<le> length buf"
  shows "\<exists>buf'. jobQueueDel_loop m pfunc pvArgs (length buf) n p buf = Some buf' \<and> length buf' = length buf \<and>
    (\<forall>k < length buf. buf' ! k = (if \<exists>i<n. k = (p + i) mod length buf then kill m pfunc pvArgs (buf ! k) else buf ! k))"
  using assms
proof (induction n arbitrary: p buf)
  case (Suc n)
  let ?N = "length buf" and ?k = "kill m pfunc pvArgs"
  let ?b = "buf[p := ?k (buf ! p)]" and ?p = "(p + 1) mod length buf"
  have "0 < length buf" using Suc.prems by linarith
  then have "?p < length ?b" "n \<le> length ?b" using Suc.prems by (simp_all only: length_list_update mod_less_divisor)
  from Suc.IH [OF this] obtain buf' where IH: "jobQueueDel_loop m pfunc pvArgs ?N n ?p ?b = Some buf'" "length buf' = ?N"
    "\<forall>k < ?N. buf' ! k = (if \<exists>i<n. k = (?p + i) mod ?N then ?k (?b ! k) else ?b ! k)"
    by auto
  have slot: "(?p + i) mod ?N = (p + Suc i) mod ?N" for i by (simp add: mod_add_left_eq)
  have step: "jobQueueDel_loop m pfunc pvArgs ?N (Suc n) p buf = jobQueueDel_loop m pfunc pvArgs ?N n ?p ?b"
    using Suc.prems next_slot [of p ?N] by (simp add: Let_def kill_def)
  have "buf' ! k = (if \<exists>i<Suc n. k = (p + i) mod ?N then ?k (buf ! k) else buf ! k)" if "k < ?N" for k
  proof (cases "k = p")
    case True
    have "(p + Suc i) mod ?N \<noteq> p" if "i < n" for i
    proof
      assume "(p + Suc i) mod ?N = p"
      then have "(p + Suc i) mod ?N = (p + 0) mod ?N" using Suc.prems(1) by simp
      then have "Suc i = 0" by (rule ring_slot_inj) (use Suc.prems that in auto)
      then show False by simp
    qed
    then have "\<not> (\<exists>i<n. k = (?p + i) mod ?N)" unfolding slot using True by metis
    moreover have "\<exists>i<Suc n. k = (p + i) mod ?N" using True Suc.prems by (intro exI [of _ 0]) simp
    ultimately show ?thesis using IH(3) that True by simp
  next
    case False
    then have "(\<exists>i<Suc n. k = (p + i) mod ?N) \<longleftrightarrow> (\<exists>i<n. k = (?p + i) mod ?N)"
      unfolding slot using Suc.prems by (auto simp: less_Suc_eq_0_disj)
    then show ?thesis
      using IH(3) [rule_format, OF that] False by (simp only: nth_list_update_neq [OF False [symmetric]])
  qed
  then show ?case using step IH(1,2) by auto
qed simp

lemma jobQueueDel_list:
  assumes "is_jobq q js"
  shows "\<exists>q'. jobQueueDel m pfunc pvArgs q = Some q' \<and> is_jobq q' (map (kill m pfunc pvArgs) js)"
proof -
  note q = is_jobqD [OF assms]
  let ?buf = "JOBQ_pjobmsgQueue q" and ?out = "unat (JOBQ_uiOut q)" and ?n = "length js"
  have pre: "?out < length ?buf" "?n \<le> length ?buf" using q(2-4) by simp_all
  from jobQueueDel_loop_nth [OF pre, of m pfunc pvArgs] obtain buf' where b: "length buf' = length ?buf"
    "jobQueueDel_loop m pfunc pvArgs (length ?buf) ?n ?out ?buf = Some buf'"
    "\<forall>k < length ?buf. buf' ! k = (if \<exists>i<?n. k = (?out + i) mod length ?buf then kill m pfunc pvArgs (?buf ! k) else ?buf ! k)"
    by blast
  have "buf' ! ((?out + i) mod length ?buf) = kill m pfunc pvArgs (?buf ! ((?out + i) mod length ?buf))" if "i < ?n" for i
    using b(3) that q(1) by auto
  then have "ring_list buf' ?out ?n = map (kill m pfunc pvArgs) (ring_list ?buf ?out ?n)"
    by (simp add: ring_list_def b(1))
  then have "is_jobq (q\<lparr>JOBQ_pjobmsgQueue := buf'\<rparr>) (map (kill m pfunc pvArgs) js)"
    using q b(1) unfolding is_jobq_def by auto
  moreover have "jobQueueDel m pfunc pvArgs q = Some (q\<lparr>JOBQ_pjobmsgQueue := buf'\<rparr>)"
    using b(2) q(2,5) by (simp add: jobQueueDel_def)
  ultimately show ?thesis by blast
qed

lemma jobQueueExec_loop_list:
  assumes "is_jobq q js" "\<forall>j q. call j q = q"
  shows "\<exists>q'. jobQueueExec_loop call q run = Some (q', run @ filter (\<lambda>j. JOBM_pfuncFunc j \<noteq> None) js) \<and> is_jobq q' [] \<and>
    JOBQ_uiSize q' = JOBQ_uiSize q \<and> JOBQ_ulLost q' = JOBQ_ulLost q"
  using assms(1)
proof (induction js arbitrary: q run)
  case Nil
  then have "JOBQ_uiCnt q = 0" using is_jobqD(5) [OF Nil] by (simp add: unat_eq_zero)
  then show ?case using Nil by (simp add: jobQueueExec_loop.simps)
next
  case (Cons j js)
  note q = is_jobqD [OF Cons.prems]
  let ?buf = "JOBQ_pjobmsgQueue q" and ?out = "unat (JOBQ_uiOut q)" and ?n = "unat (JOBQ_uiSize q)"
  let ?next = "if JOBQ_uiOut q = JOBQ_uiSize q - 1 then 0 else JOBQ_uiOut q + 1"
  let ?q = "q\<lparr>JOBQ_uiOut := ?next, JOBQ_uiCnt := JOBQ_uiCnt q - 1\<rparr>"
  have cnt: "JOBQ_uiCnt q \<noteq> 0" using q(5) by auto
  then have "unat (JOBQ_uiCnt q - 1) = length js" using q(5) by (simp add: unat_minus_one)
  moreover have out: "unat ?next = (?out + 1) mod ?n" using unat_wrap_next [OF q(3)] .
  moreover have ring: "j = ?buf ! ?out" "ring_list ?buf ((?out + 1) mod ?n) (length js) = js"
    using ring_list_Cons [of ?out ?buf "length js"] q(2,3,7) by simp_all
  moreover have "unat (JOBQ_uiIn q) = ((?out + 1) mod ?n + length js) mod ?n"
    using q(6) by (simp add: mod_add_left_eq)
  ultimately have "is_jobq ?q js"
    using q(1-4) unfolding is_jobq_def by simp
  moreover have "jobQueueExec_loop call q run = jobQueueExec_loop call ?q (run @ (if JOBM_pfuncFunc j \<noteq> None then [j] else []))"
    using cnt q(2,3) assms(2) by (subst jobQueueExec_loop.simps) (simp add: Let_def ring(1))
  moreover have "filter (\<lambda>j. JOBM_pfuncFunc j \<noteq> None) (j # js) =
      (if JOBM_pfuncFunc j \<noteq> None then [j] else []) @ filter (\<lambda>j. JOBM_pfuncFunc j \<noteq> None) js"
    by simp
  moreover have "JOBQ_uiSize ?q = JOBQ_uiSize q" "JOBQ_ulLost ?q = JOBQ_ulLost q" by simp_all
  ultimately show ?case
    using Cons.IH [of ?q "run @ (if JOBM_pfuncFunc j \<noteq> None then [j] else [])"] by (simp only: append_assoc)
qed

text \<open>
  Waiting at a queue that blocks: any number of wake-ups that find the queue empty, each of which leaves
  it as other threads have made it.
\<close>

inductive waits :: "('e \<Rightarrow> job_queue \<Rightarrow> bool \<times> 'e \<times> job_queue) \<Rightarrow> 'e \<Rightarrow> job_queue \<Rightarrow> 'e \<Rightarrow> job_queue \<Rightarrow> bool" for pend where
  waits_here: "waits pend e q e q"
| waits_again: "pend e q = (False, e1, q1) \<Longrightarrow> is_jobq q1 [] \<Longrightarrow> waits pend e1 q1 e2 q2 \<Longrightarrow> waits pend e q e2 q2"

lemma jobQueueExec_wait_waits:
  assumes "waits pend e q e1 q1"
  shows "jobQueueExec_wait pend e q = jobQueueExec_wait pend e1 q1"
  using assms
proof induction
  case (waits_again e q e1 q1 e2 q2)
  have "JOBQ_uiCnt q1 = 0" using is_jobqD(5) [OF waits_again.hyps(2)] by (simp add: unat_eq_zero)
  then show ?case
    using waits_again by (subst jobQueueExec_wait.simps) simp
qed simp

lemma jobQueueExec_blocking:
  assumes "JOBQ_ulSync q \<noteq> 0" "waits pend e q e1 q1"
  shows "pend e1 q1 = (True, e2, q2) \<Longrightarrow> jobQueueExec pend call e q = Some (ERROR_THREAD_WAIT_TIMEOUT, q2, [])"
    and "pend e1 q1 = (False, e2, q2) \<Longrightarrow> is_jobq q2 js \<Longrightarrow> js \<noteq> [] \<Longrightarrow> \<forall>j q. call j q = q \<Longrightarrow>
      \<exists>q'. jobQueueExec pend call e q = Some (ERROR_NONE, q', filter (\<lambda>j. JOBM_pfuncFunc j \<noteq> None) js) \<and> is_jobq q' []"
proof -
  note w = jobQueueExec_wait_waits [OF assms(2)]
  show "jobQueueExec pend call e q = Some (ERROR_THREAD_WAIT_TIMEOUT, q2, [])" if "pend e1 q1 = (True, e2, q2)"
    using that assms(1) w by (simp add: jobQueueExec_def jobQueueExec_wait.simps [of pend e1])
  show "\<exists>q'. jobQueueExec pend call e q = Some (ERROR_NONE, q', filter (\<lambda>j. JOBM_pfuncFunc j \<noteq> None) js) \<and> is_jobq q' []"
    if "pend e1 q1 = (False, e2, q2)" "is_jobq q2 js" "js \<noteq> []" "\<forall>j q. call j q = q"
  proof -
    have "JOBQ_uiCnt q2 \<noteq> 0" using is_jobqD(5) [OF that(2)] that(3) by auto
    then have "jobQueueExec_wait pend e q = Some (False, q2)"
      using that(1) w by (simp add: jobQueueExec_wait.simps [of pend e1])
    then show ?thesis
      using jobQueueExec_loop_list [OF that(2,4), of "[]"] assms(1) by (auto simp: jobQueueExec_def)
  qed
qed

section \<open>Correctness\<close>

text \<open>
  A queue that is set up is empty, whatever was in its memory.  jobQueueInit keeps the
  handle in that memory for a queue that does not block, where jobQueueCreate clears it.
\<close>

lemma job_queue_setup:
  assumes "msgs \<noteq> []" "length msgs = unat n"
  shows "case jobQueueCreate (Some msgs) n bNonBlock newSem q of None \<Rightarrow> \<not> bNonBlock \<and> newSem = 0
      | Some q' \<Rightarrow> is_jobq q' [] \<and> JOBQ_ulSync q' = (if bNonBlock then 0 else newSem)"
    "is_jobq (snd (jobQueueInit msgs n bNonBlock newSem q)) []"
    "JOBQ_ulSync (snd (jobQueueInit msgs n True newSem q)) = JOBQ_ulSync q"
  using assms length_greater_0_conv [of msgs] by (auto simp: jobQueueCreate_def jobQueueInit_def is_jobq_def ring_list_def Let_def)

text \<open>
  C40: A job queue with room for n jobs stands for the list of its waiting jobs.  Adding
  appends a job and wakes the executing thread, or, when n jobs wait, is refused and
  counted as lost; deleting disables exactly the waiting jobs that match and keeps their
  order; flushing empties the queue; and executing, with jobs that leave the queue alone, calls every
  waiting job that is not disabled once, in the order in which they were added, and leaves the queue empty.
  A queue that does not block (no semaphore) is executed as it is.  At one that blocks, executing
  waits: after any number of wake-ups that find the queue empty, a wait that times out ends it with that
  error and no job called, and a wake-up that finds jobs calls the jobs that wait then.
\<close>
theorem job_queue_refines:
  assumes "is_jobq q js"
  shows "jobQueueAdd pfunc pvArgs (q, es) \<noteq> None \<and>
    (length js < unat (JOBQ_uiSize q) \<longrightarrow>
      (\<exists>q'. jobQueueAdd pfunc pvArgs (q, es) = Some (ERROR_NONE, (q', es @ (if JOBQ_ulSync q \<noteq> 0 then [BPost] else []))) \<and>
        is_jobq q' (js @ [\<lparr> JOBM_pfuncFunc = pfunc, JOBM_pvArg = pvArgs \<rparr>]) \<and> jobQueueLost q' = jobQueueLost q)) \<and>
    (length js = unat (JOBQ_uiSize q) \<longrightarrow>
      (\<exists>q'. jobQueueAdd pfunc pvArgs (q, es) = Some (ENOSPC, (q', es)) \<and> is_jobq q' js \<and> jobQueueLost q' = jobQueueLost q + 1)) \<and>
    (\<exists>q'. jobQueueDel m pfunc pvArgs q = Some q' \<and>
      is_jobq q' (map (\<lambda>j. if job_matches m pfunc pvArgs j then j\<lparr>JOBM_pfuncFunc := None\<rparr> else j) js)) \<and>
    is_jobq (fst (jobQueueFlush (q, es))) [] \<and>
    ((\<forall>j q. call j q = q) \<and> JOBQ_ulSync q = 0 \<longrightarrow>
      (\<exists>q'. jobQueueExec pend call e q = Some (ERROR_NONE, q', filter (\<lambda>j. JOBM_pfuncFunc j \<noteq> None) js) \<and> is_jobq q' [])) \<and>
    (JOBQ_ulSync q \<noteq> 0 \<longrightarrow> (\<forall>e1 q1 timeout e2 q2. waits pend e q e1 q1 \<and> pend e1 q1 = (timeout, e2, q2) \<longrightarrow>
      (timeout \<longrightarrow> jobQueueExec pend call e q = Some (ERROR_THREAD_WAIT_TIMEOUT, q2, [])) \<and>
      (\<forall>js2. \<not> timeout \<and> is_jobq q2 js2 \<and> js2 \<noteq> [] \<and> (\<forall>j q. call j q = q) \<longrightarrow>
        (\<exists>q'. jobQueueExec pend call e q = Some (ERROR_NONE, q', filter (\<lambda>j. JOBM_pfuncFunc j \<noteq> None) js2) \<and> is_jobq q' []))))"
proof -
  note q = is_jobqD [OF assms]
  have full: "\<exists>q'. jobQueueAdd pfunc pvArgs (q, es) = Some (ENOSPC, (q', es)) \<and> is_jobq q' js \<and> jobQueueLost q' = jobQueueLost q + 1"
    if "length js = unat (JOBQ_uiSize q)"
    using jobQueueAdd_full [OF assms that] assms by (simp add: is_jobq_def jobQueueLost_def)
  have room: "\<exists>q'. jobQueueAdd pfunc pvArgs (q, es) = Some (ERROR_NONE, (q', es @ (if JOBQ_ulSync q \<noteq> 0 then [BPost] else []))) \<and>
      is_jobq q' (js @ [\<lparr> JOBM_pfuncFunc = pfunc, JOBM_pvArg = pvArgs \<rparr>]) \<and> jobQueueLost q' = jobQueueLost q"
    if "length js < unat (JOBQ_uiSize q)"
    using jobQueueAdd_room [OF assms that, of pfunc pvArgs es] by (simp add: jobQueueLost_def)
  have "length js < unat (JOBQ_uiSize q) \<or> length js = unat (JOBQ_uiSize q)" using q(4) by auto
  then have total: "jobQueueAdd pfunc pvArgs (q, es) \<noteq> None" using full room by auto
  have flush: "is_jobq (fst (jobQueueFlush (q, es))) []"
    using q(1,2,3) by (simp add: jobQueueFlush_def sem_do_def is_jobq_def ring_list_def Let_def)
  have exec: "\<exists>q'. jobQueueExec pend call e q = Some (ERROR_NONE, q', filter (\<lambda>j. JOBM_pfuncFunc j \<noteq> None) js) \<and> is_jobq q' []"
    if "(\<forall>j q. call j q = q) \<and> JOBQ_ulSync q = 0"
    using jobQueueExec_loop_list [OF assms, of call "[]"] that by (auto simp: jobQueueExec_def)
  have blocking: "(timeout \<longrightarrow> jobQueueExec pend call e q = Some (ERROR_THREAD_WAIT_TIMEOUT, q2, [])) \<and>
      (\<forall>js2. \<not> timeout \<and> is_jobq q2 js2 \<and> js2 \<noteq> [] \<and> (\<forall>j q. call j q = q) \<longrightarrow>
        (\<exists>q'. jobQueueExec pend call e q = Some (ERROR_NONE, q', filter (\<lambda>j. JOBM_pfuncFunc j \<noteq> None) js2) \<and> is_jobq q' []))"
    if "JOBQ_ulSync q \<noteq> 0" "waits pend e q e1 q1" "pend e1 q1 = (timeout, e2, q2)" for e1 q1 timeout e2 q2
    using jobQueueExec_blocking [OF that(1,2)] that(3) by (cases timeout) auto
  show ?thesis
    using total full room flush exec blocking jobQueueDel_list [OF assms, of m pfunc pvArgs, unfolded kill_def [abs_def]] by blast
qed

definition empty_jobq :: job_queue where
  "empty_jobq = \<lparr> JOBQ_pjobmsgQueue = replicate 2 \<lparr> JOBM_pfuncFunc = None, JOBM_pvArg = [] \<rparr>, JOBQ_uiIn = 0, JOBQ_uiOut = 0, JOBQ_uiCnt = 0,
     JOBQ_uiSize = 2, JOBQ_ulLost = 0, JOBQ_ulSync = 0 \<rparr>"

text \<open>A queue that blocks, and a semaphore whose first wake-up finds nothing and whose second one finds a job.\<close>

definition one_job :: job_msg where
  "one_job = \<lparr> JOBM_pfuncFunc = Some 1, JOBM_pvArg = [4] \<rparr>"

definition sync_jobq :: job_queue where
  "sync_jobq = empty_jobq\<lparr>JOBQ_ulSync := 7\<rparr>"

definition late_job :: "nat \<Rightarrow> job_queue \<Rightarrow> bool \<times> nat \<times> job_queue" where
  "late_job n q = (False, n + 1, if n = 0 then q
     else q\<lparr>JOBQ_pjobmsgQueue := (JOBQ_pjobmsgQueue q)[0 := one_job], JOBQ_uiIn := 1, JOBQ_uiCnt := 1\<rparr>)"

theorem job_queue_refines_witness:
  "(\<exists>q. jobQueueAdd (Some 1) [4] (empty_jobq, []) = Some (ERROR_NONE, (q, [])) \<and>
    (\<exists>q'. jobQueueExec (\<lambda>e q. (False, e, q)) (\<lambda>_ q. q) () q = Some (ERROR_NONE, q', [one_job]))) \<and>
   (\<exists>q'. jobQueueExec late_job (\<lambda>_ q. q) 0 sync_jobq = Some (ERROR_NONE, q', [one_job]) \<and> is_jobq q' [])"
proof
  have empty: "is_jobq empty_jobq []" by (simp add: is_jobq_def empty_jobq_def ring_list_def)
  have fields: "unat (JOBQ_uiSize empty_jobq) = 2" "JOBQ_ulSync empty_jobq = 0" by (simp_all add: empty_jobq_def)
  obtain q where q: "jobQueueAdd (Some 1) [4] (empty_jobq, []) = Some (ERROR_NONE, (q, []))" "is_jobq q [one_job]"
    using job_queue_refines [OF empty, of "Some 1" "[4]" "[]" 0 "\<lambda>_ q. q" "\<lambda>e q. (False, e, q)" "()", THEN conjunct2, THEN conjunct1] fields
    by (auto simp: one_job_def)
  have "JOBQ_ulSync q = 0" using q(1) by (auto simp: jobQueueAdd_def sem_do_def empty_jobq_def Let_def)
  with q job_queue_refines [OF q(2), of None "[]" "[]" 0 "\<lambda>_ q. q" "\<lambda>e q. (False, e, q)" "()"]
  show "\<exists>q. jobQueueAdd (Some 1) [4] (empty_jobq, []) = Some (ERROR_NONE, (q, [])) \<and>
    (\<exists>q'. jobQueueExec (\<lambda>e q. (False, e, q)) (\<lambda>_ q. q) () q = Some (ERROR_NONE, q', [one_job]))"
    by (auto simp: one_job_def)
  define q2 where "q2 = snd (snd (late_job 1 sync_jobq))"
  have sync: "is_jobq sync_jobq []" "JOBQ_ulSync sync_jobq \<noteq> 0"
    by (simp_all add: is_jobq_def sync_jobq_def empty_jobq_def ring_list_def)
  have "waits late_job 0 sync_jobq 1 sync_jobq"
    by (rule waits_again [of _ _ _ _ sync_jobq, OF _ sync(1) waits_here]) (simp add: late_job_def)
  moreover have "late_job 1 sync_jobq = (False, 2, q2)" by (simp add: q2_def late_job_def)
  moreover have "is_jobq q2 [one_job]"
    by (simp add: q2_def late_job_def is_jobq_def sync_jobq_def empty_jobq_def ring_list_def)
  ultimately show "\<exists>q'. jobQueueExec late_job (\<lambda>_ q. q) 0 sync_jobq = Some (ERROR_NONE, q', [one_job]) \<and> is_jobq q' []"
    using job_queue_refines [OF sync(1), of None "[]" "[]" 0 "\<lambda>_ q. q" late_job 0] sync(2) by (fastforce simp: one_job_def)
qed

end
