(* ===== verification/Spec2Isabelle.thy ===== *)
theory Spec2Isabelle
  imports Hashmap RuleEngine Broker Timers JobQueue
begin

text \<open>
  A verification development of NanoMQ on SylixOS: the MQTT broker (nanomq/src/nanomq) and the parts
  of the SylixOS kernel (SylixOS-Base/libsylixos/SylixOS/kernel) that keep its time.

  \<^bold>\<open>The program.\<close>  The broker runs a number of workers.  Each owns an asynchronous
  operation of the nng library, whose callback server_cb (apps/broker.c) does the work of one state: it receives
  a message, hands it to the handler of its kind, sends the results, and receives again.  The
  handlers decode the packet, read or change the subscription tree and the topic table,
  encode the answer and release the packet.  Messages and events can also be posted to a web hook,
  bridged to other brokers, and be handed in by the HTTP server in an envelope.  Under the
  broker, the kernel offers timers, which wait in queues of differences built on
  intrusive lists, and queues of deferred jobs.

  \<^bold>\<open>Theories and sources.\<close>
  \<^item> Prelude: C integers as words, byte strings, shared lemmas on lists and words, and the collections of
    simplification rules.
  \<^item> Wire (include/nanomq.h): the big-endian accessors NNI_PUT and NNI_GET with their bounds.
  \<^item> Nng: the message interface of the nng library as a record of operations, its documented
    behaviour as predicates.
  \<^item> Hashmap (hashmap.c): the open addressing map, its hash function, rehashing included.  The
    contract of a map is the locale dictionary, interpreted on the operations of the file.
  \<^item> MqttApi (mqtt_api.c): the envelope, create_cparam, decode_common_mqtt_msg and encode_common_mqtt_msg.
  \<^item> Packets (include/pub_handler.h): the packet structures; PubCodec, PubHandler and RuleEngine
    (pub_handler.c): the codec of the PUBLISH family, handle_pub with topic aliases, routing and
    retained messages, and the filter of the rules.
  \<^item> SubHandler (sub_handler.c) and UnsubHandler (unsub_handler.c): decoding, the two subscription tables, the
    answers.
  \<^item> Base62 and Webhook (webhook_post.c, webhook_inproc.c): the payload encoding, the choice and the
    content of the events that are posted, and the posting thread.
  \<^item> Broker (apps/broker.c and the forwarding part of bridge.c): one definition per state of server_cb and per kind of
    message, composed as in the source.  The record nano_work is the struct work; what the
    worker does to the outside is a list of events in it.
  \<^item> ListLink (list/listLink.c, list/listOp.h): lines and rings on a heap of pointers; the contract of a line is
    the locale linked_list.
  \<^item> Wakeup (core/_WakeupLine.c, include/k_scanlink.h, the watchdog of core/_TimeTick.c): the queues of differences and their
    scan; the locale tick_client holds what a scan does for a client, and is interpreted for the watchdog
    here and for the high speed timers in Timers.
  \<^item> Timers (interface/Timer*.c, core/_ITimerThread.c, core/_TimerInit.c, list/listTimer.c): handles, the pool
    of control blocks, every operation and the two places where timers expire.
  \<^item> JobQueue (core/_JobQueue.c): the ring buffer of jobs.

  A pointer that may be null is an option; a read or write outside a buffer, the use of a null
  pointer and a call of fatal are the value None, so a theorem that a result is Some says that the code does
  none of these.  Error codes are constructors of a datatype or the integers of the source.

  \<^bold>\<open>What is shown.\<close>
  \<^item> Across components: a PUBLISH reaches a client that has subscribed, from the
    bytes of the SUBSCRIBE to the pipe of the subscriber (this theory); a worker delivers to exactly the pipes that the tree
    names, cleans up, balances the references to connection parameters and closes on a malformed packet
    (Broker).
  \<^item> Hashmap: put, get and remove implement a finite map under a representation invariant; putting
    terminates, with rehashing that calls itself.
  \<^item> Codecs: decoding inverts encoding for PUBLISH packets, the envelope and base62; the
    answers SUBACK, UNSUBACK, PUBACK, PUBREC, PUBREL and PUBCOMP have the bytes the source gives them.
  \<^item> Tables: in every run of subscribing, unsubscribing and disconnecting, the subscription tree and the
    topic table agree.
  \<^item> Web hook: events are posted exactly when a rule asks for them, in the order of arrival.
  \<^item> Kernel: lines and rings implement sequences; a wakeup queue implements the list of its nodes
    with their absolute times; timers are well formed in every run, tick and restart as
    specified, and their handles are valid from creation to deletion; a job queue implements
    a bounded queue.

  \<^bold>\<open>Bounds and fuel.\<close>  hashmap_put runs with fuel 33: every rehash doubles the size of the
  table, a 32 bit number, and theorem hashmap_put_terminates shows that 33 always suffice.
  The loops over the topics of a SUBSCRIBE or UNSUBSCRIBE take fuel as an argument, since the wrap-around
  of remaining_len - vpos can make them run on; the theorems on them hold for every fuel that is at least the number of topics.
  The scans of the kernel queues and the execution of jobs are partial functions whose
  value is shown to exist.  Integers have the width of the source everywhere; ULONG has 64 bits in Timers and is a
  parameter in Wakeup.

  \<^bold>\<open>Parameters.\<close>  The nng library, the topic tree and table (dbtree, dbhash), the property lists, cJSON and the
  match of a topic with a filter are not part of the repository: their operations are fields of records that
  the definitions take, and what the code relies on is named in hypotheses (nng_msg_laws, pub_codec_laws,
  subdb_laws, tree_laws, pipe_laws, type_laws and others).  The witnesses instantiate them with concrete
  functions: list_broker is a broker over lists.

  \<^bold>\<open>Not modelled.\<close>
  \<^item> Start-up, options, process control (apps/broker.c beyond server_cb, nanomq.c, process.c) and the
    set-up of bridge connections: sequences of library calls and input and output.
  \<^item> The HTTP interface (rest_api.c, web_server.c): its requests and answers are cJSON trees and its server is nng.
  \<^item> Storing messages selected by rules (SQLite, MySQL, FoundationDB): library calls.
  \<^item> Locks: the model runs one callback, one kernel operation or one scan step at a time, which is what the mutexes and the disabled
    interrupts of the source ensure; timer routines and jobs are run between the steps of a scan.
  \<^item> The scheduler and everything that switches threads, with it the tick that wakes threads and the
    sleep of the timer thread; virtual memory, drivers, file systems and the network stack.
  \<^item> The third-party libraries of the base system (OpenSSL, SQLite, readline, googletest, the C library extension).
\<close>

section \<open>Clients connected by the broker\<close>

text \<open>
  C1: The broker connects its clients: once a worker has handled the SUBSCRIBE of a client, a
  PUBLISH to one of the subscribed topics that any worker handles with that subscription tree
  in place is sent to the pipe of the subscriber, with the content that was published.  Both workers
  serve clients (PROTO_MQTT_BROKER); each client may use any version of MQTT, and the web hook and the bridge may be
  on or off.  The SUBSCRIBE decodes, has a packet id, and either has one topic only or asks for retain
  handling 0 at every topic; the PUBLISH has a topic of its own (not an alias).
\<close>
theorem publish_reaches_subscriber:
  assumes laws: "pipe_laws B" "type_laws B" "property_laws B" "pub_codec_laws (br_pub B) utf8 penc plen" "bridge_memory B conf"
      "sub_pkt_alloc B" "subdb_laws (br_sub_db B) tree subs" "tree_laws B tree"
    and u: "w_state u = RECV" "idle u" "tree (w_db u) = (subs (w_dbhash u))\<inverse>"
    and sub: "nng_msg_cmd_type (br_pub B) ms = CMD_SUBSCRIBE" "sver = cp_protover (conn_view_of B (nng_msg_get_conn_param B ms))"
      "decode_sub_msg fuel (br_sub B) ms sver = Ret (SUCCESS, spkt)" "sp_node spkt \<noteq> []" "sp_packet_id spkt \<noteq> 0"
      "length (sp_node spkt) = 1 \<or> (\<forall>tn \<in> set (sp_node spkt). opt_retain_handling (br_sub B) (tn_options tn) = 0)"
      "nng_msg_get_pipe B ms \<noteq> 0"
    and pub: "nng_msg_cmd_type (br_pub B) m = CMD_PUBLISH" "consistent B (Some m)"
      "ver = cp_protover (conn_view_of B (nng_msg_get_conn_param B m))"
      "publishes (br_pub B) ver (marked B ver m) pkt t" "well_formed_publish (br_pub B) utf8 plen (publish_proto B ver) pkt"
    and topic: "cstr t \<in> node_topics (sp_node spkt)"
  shows "\<exists>u1. server_cb B conf fuel 0 (Some ms) u = Some u1 \<and>
    (\<forall>v. w_state v = RECV \<and> idle v \<and> w_db v = w_db u1 \<longrightarrow>
      (\<exists>v1 v2 m1 e pkt' xs. server_cb B conf fuel 0 (Some m) v = Some v1 \<and> server_cb B conf fuel 0 None v1 = Some v2 \<and>
         w_msg v1 = Some m1 \<and> carries B (w_db v) (marked B ver m) m1 \<and>
         encode_pub_message (br_pub B) m1 pkt PUBLISH = Some (True, e, pkt') \<and>
         sent (w_events v2) = sent (w_events v) @ xs \<and> nng_msg_get_pipe B ms \<in> nng_msg_get_pipe B ` set xs \<and>
         (\<forall>x \<in> set xs. same_packet B e x)))"
proof -
  obtain u1 where u1: "server_cb B conf fuel 0 (Some ms) u = Some u1"
    "tree (w_db u1) = tree (w_db u) \<union> node_topics (sp_node spkt) \<times> {nng_msg_get_pipe B ms}"
    using subscribe_step [OF laws(6,7) u sub(1-6)] by blast
  have "(cstr t, nng_msg_get_pipe B ms) \<in> tree (w_db u1)"
    using u1(2) topic by auto
  then have found: "nng_msg_get_pipe B ms \<in> set (filter (\<lambda>q. q \<noteq> 0) (receivers (br_pub_db B (w_db u1)) (cstr t)))"
    using laws(8) sub(7) by (fastforce simp: tree_laws_def receivers_def)
  have reached: "\<exists>v1 v2 m1 e pkt' xs. server_cb B conf fuel 0 (Some m) v = Some v1 \<and> server_cb B conf fuel 0 None v1 = Some v2 \<and>
      w_msg v1 = Some m1 \<and> carries B (w_db v) (marked B ver m) m1 \<and>
      encode_pub_message (br_pub B) m1 pkt PUBLISH = Some (True, e, pkt') \<and>
      sent (w_events v2) = sent (w_events v) @ xs \<and> nng_msg_get_pipe B ms \<in> nng_msg_get_pipe B ` set xs \<and>
      (\<forall>x \<in> set xs. same_packet B e x)" if v: "w_state v = RECV" "idle v" "w_db v = w_db u1" for v
  proof -
    obtain v1 v2 m1 e pkt' xs where c: "server_cb B conf fuel 0 (Some m) v = Some v1" "server_cb B conf fuel 0 None v1 = Some v2"
      "w_msg v1 = Some m1" "carries B (w_db v) (marked B ver m) m1"
      "encode_pub_message (br_pub B) m1 pkt PUBLISH = Some (True, e, pkt')"
      "sent (w_events v2) = sent (w_events v) @ xs" "\<forall>x \<in> set xs. same_packet B e x"
      "map (nng_msg_get_pipe B) xs = filter (\<lambda>q. q \<noteq> 0) (receivers (br_pub_db B (w_db v)) (cstr t))"
      using publish_cycle [OF laws(1-5) v(1,2) pub, of fuel] by - (elim exE conjE, rule that, assumption+)
    have "nng_msg_get_pipe B ms \<in> nng_msg_get_pipe B ` set xs"
      using found c(8) v(3) by (metis list.set_map)
    with c(1-7) show ?thesis by - (intro exI conjI, assumption+)
  qed
  show ?thesis
    by (rule exI [of _ u1], rule conjI [OF u1(1)], rule allI, rule impI) (elim conjE, rule reached)
qed

theorem publish_reaches_subscriber_witness:
  "\<exists>u1 v1 v2. server_cb list_broker full_conf 2 0 (Some sub_ab_msg) started_worker = Some u1 \<and>
     server_cb list_broker full_conf 2 0 (Some sample_msg) (started_worker\<lparr>w_db := w_db u1\<rparr>) = Some v1 \<and>
     server_cb list_broker full_conf 2 0 None v1 = Some v2 \<and> 7 \<in> nng_msg_get_pipe list_broker ` set (sent (w_events v2))"
proof -
  note p = sample_publish_ok
  have alloc: "sub_pkt_alloc list_broker"
    by (simp add: list_broker_simps)
  have tables: "set (w_db started_worker) = (set (w_dbhash started_worker))\<inverse>"
    by (simp add: started_worker_def fresh_worker_def)
  let ?spkt = "\<lparr> sp_packet_id = 9, sp_properties = None, sp_prop_len = 0, sp_node = [granted_node ([97, 98], 0)] \<rparr> :: bool packet_subscribe"
  have sub: "nng_msg_cmd_type (br_pub list_broker) sub_ab_msg = CMD_SUBSCRIBE"
    "4 = cp_protover (conn_view_of list_broker (nng_msg_get_conn_param list_broker sub_ab_msg))"
    "decode_sub_msg 2 (br_sub list_broker) sub_ab_msg 4 = Ret (SUCCESS, ?spkt)"
    "sp_node ?spkt \<noteq> []" "sp_packet_id ?spkt \<noteq> 0"
    "length (sp_node ?spkt) = 1 \<or> (\<forall>tn \<in> set (sp_node ?spkt). opt_retain_handling (br_sub list_broker) (tn_options tn) = 0)"
    "nng_msg_get_pipe list_broker sub_ab_msg \<noteq> 0"
    using sub_ab_decodes by (simp_all add: list_broker_simps list_ops_simps sub_ab_msg_def)
  have topic: "cstr [97, 98] \<in> node_topics (sp_node ?spkt)"
    by (simp add: granted_node_def cstr_def)
  obtain u1 where u1: "server_cb list_broker full_conf 2 0 (Some sub_ab_msg) started_worker = Some u1"
    "\<forall>v. w_state v = RECV \<and> idle v \<and> w_db v = w_db u1 \<longrightarrow> (\<exists>v1 v2 m1 e pkt' xs.
       server_cb list_broker full_conf 2 0 (Some sample_msg) v = Some v1 \<and> server_cb list_broker full_conf 2 0 None v1 = Some v2 \<and>
       w_msg v1 = Some m1 \<and> carries list_broker (w_db v) (marked list_broker 4 sample_msg) m1 \<and>
       encode_pub_message (br_pub list_broker) m1 sample_received PUBLISH = Some (True, e, pkt') \<and>
       sent (w_events v2) = sent (w_events v) @ xs \<and> nng_msg_get_pipe list_broker sub_ab_msg \<in> nng_msg_get_pipe list_broker ` set xs \<and>
       (\<forall>x \<in> set xs. same_packet list_broker e x))"
    using publish_reaches_subscriber [OF list_broker_laws(1,2,5) p(6) list_broker_laws(6) alloc list_broker_laws(3,4)
      started_reach(2,3) tables sub p(1-5) topic] by blast
  have v: "w_state (started_worker\<lparr>w_db := w_db u1\<rparr>) = RECV" "idle (started_worker\<lparr>w_db := w_db u1\<rparr>)"
    using started_reach(2,3) by (simp_all add: worker_defs)
  have "nng_msg_get_pipe list_broker sub_ab_msg = 7" by (simp add: list_broker_simps sub_ab_msg_def)
  with u1(2) [rule_format, of "started_worker\<lparr>w_db := w_db u1\<rparr>"] v u1(1) show ?thesis by fastforce
qed

end
